(* ===== verification/Pom_Prelude.thy ===== *)
theory Pom_Prelude
  imports Main "HOL-Library.Word" "HOL-Library.Signed_Division"
begin

text \<open>
  Shared vocabulary of the POM68K development.

  The devices of \<^verbatim>\<open>src/src/\<close> are C++ classes over fixed-width unsigned
  registers.  A \<^verbatim>\<open>uint8_t\<close> member is a \<open>u8\<close>, a \<^verbatim>\<open>uint16_t\<close> a \<open>u16\<close>, and so
  on; \<^verbatim>\<open>int\<close> and \<^verbatim>\<open>int64_t\<close> counters are HOL integers whose ranges are proved as
  invariants of the component that owns them; where the code narrows a value or a product can leave
  its type, the conversion is written out (\<open>i32\<close>, \<open>i64\<close>).  This theory holds the type names, the C++
  idiom \<^verbatim>\<open>v & mask\<close> used as a condition (\<open>flag\<close>), and the generic facts on words,
  lists and truncating division that the component theories share.
\<close>

unbundle bit_operations_syntax

type_synonym u8 = "8 word"
type_synonym u16 = "16 word"
type_synonym u32 = "32 word"
type_synonym u64 = "64 word"

named_theorems flag_simps \<open>a C mask test read as a bit test\<close>

text \<open>\<open>flag v m\<close> is the C condition \<^verbatim>\<open>v & m\<close>.\<close>

definition flag :: "'a::len word \<Rightarrow> 'a word \<Rightarrow> bool" where
  "flag v m \<longleftrightarrow> v AND m \<noteq> 0"

text \<open>The C conversion of a \<^verbatim>\<open>bool\<close> to 0 or 1 in a register.\<close>

definition b2w :: "bool \<Rightarrow> 'a::len word" where
  "b2w b = (if b then 1 else 0)"


section \<open>Single-bit masks\<close>

lemma flag_push_bit: "flag v (push_bit n 1) = bit v n"
  by (simp add: flag_def bit_iff_and_push_bit_not_eq_0)

lemma flag_8 [flag_simps]:
  fixes v :: u8
  shows "flag v 1 = bit v 0" "flag v 2 = bit v 1" "flag v 4 = bit v 2" "flag v 8 = bit v 3"
    "flag v 16 = bit v 4" "flag v 32 = bit v 5" "flag v 64 = bit v 6" "flag v 128 = bit v 7"
  using flag_push_bit [of v 0] flag_push_bit [of v 1] flag_push_bit [of v 2]
    flag_push_bit [of v 3] flag_push_bit [of v 4] flag_push_bit [of v 5]
    flag_push_bit [of v 6] flag_push_bit [of v 7]
  by simp_all

lemma flag_0 [simp]: "\<not> flag v 0" "\<not> flag 0 v"
  by (simp_all add: flag_def)

lemma b2w_simps [simp]: "b2w True = 1" "b2w False = 0"
  by (simp_all add: b2w_def)

lemma or_if_disj: "(if a \<or> b then x else 0) = (if a then x else 0) OR (if b then x else (0 :: 'a::len word))"
  by (cases a; cases b) simp_all

lemma bit_b2w: "bit (b2w b :: 'a::len word) n \<longleftrightarrow> b \<and> n = 0"
  by (cases b) (simp_all add: bit_1_iff)

lemma all_less_8: "(\<forall>n<8. P n) \<longleftrightarrow>
    P (0::nat) \<and> P 1 \<and> P 2 \<and> P 3 \<and> P 4 \<and> P 5 \<and> P 6 \<and> P 7"
  by (auto simp: numeral_eq_Suc All_less_Suc)

lemma all_less_7: "(\<forall>n<7. P n) \<longleftrightarrow> P (0::nat) \<and> P 1 \<and> P 2 \<and> P 3 \<and> P 4 \<and> P 5 \<and> P 6"
  by (auto simp: numeral_eq_Suc All_less_Suc)

lemma ex_less_7: "(\<exists>n<7. P n) \<longleftrightarrow> P (0::nat) \<or> P 1 \<or> P 2 \<or> P 3 \<or> P 4 \<or> P 5 \<or> P 6"
  by (auto simp: numeral_eq_Suc Ex_less_Suc)

text \<open>Equality of bytes, bit by bit: the decision procedure for register algebra.\<close>

lemma u8_eq_iff:
  fixes a b :: u8
  shows "a = b \<longleftrightarrow> (bit a 0 = bit b 0) \<and> (bit a 1 = bit b 1) \<and> (bit a 2 = bit b 2) \<and>
     (bit a 3 = bit b 3) \<and> (bit a 4 = bit b 4) \<and> (bit a 5 = bit b 5) \<and>
     (bit a 6 = bit b 6) \<and> (bit a 7 = bit b 7)"
proof -
  have "a = b \<longleftrightarrow> (\<forall>n<8. bit a n = bit b n)"
    by (auto intro: bit_word_eqI)
  then show ?thesis by (simp only: all_less_8)
qed

lemma u8_eq_0_iff:
  fixes a :: u8
  shows "a = 0 \<longleftrightarrow> \<not> bit a 0 \<and> \<not> bit a 1 \<and> \<not> bit a 2 \<and> \<not> bit a 3 \<and>
     \<not> bit a 4 \<and> \<not> bit a 5 \<and> \<not> bit a 6 \<and> \<not> bit a 7"
  by (subst u8_eq_iff) simp

lemma not_bit_u8 [simp]: "8 \<le> n \<Longrightarrow> \<not> bit (a :: u8) n"
  using bit_imp_le_length [of a n] by auto

text \<open>Masks of consecutive low bits.\<close>

lemma word_and_low_mask:
  fixes x :: "'a::len word"
  shows "x AND 1 = take_bit 1 x" "x AND 3 = take_bit 2 x" "x AND 7 = take_bit 3 x"
    "x AND 0x0F = take_bit 4 x" "x AND 0x1F = take_bit 5 x" "x AND 0x3F = take_bit 6 x"
    "x AND 0x7F = take_bit 7 x" "x AND 0xFF = take_bit 8 x"
  by (simp_all add: take_bit_eq_mask mask_eq_exp_minus_1)

lemma unat_u8_less: "unat (a :: u8) < 256"
  using unsigned_less [of a] by simp

lemmas u8_bitwise = u8_eq_iff bit_simps


section \<open>Bytes on a serial line\<close>

text \<open>Shifting bits into a byte register, most significant bit first, and the bits of a byte
  in that order.\<close>

definition shift_in :: "u8 \<Rightarrow> bool \<Rightarrow> u8" where
  "shift_in w b = push_bit 1 w OR b2w b"

definition byte_bits :: "u8 \<Rightarrow> bool list" where
  "byte_bits w = map (bit w) [7, 6, 5, 4, 3, 2, 1, 0]"

lemma length_byte_bits [simp]: "length (byte_bits w) = 8"
  by (simp add: byte_bits_def)

lemma length_8_cases:
  assumes "length xs = 8"
  obtains a b c d e f g h where "xs = [a, b, c, d, e, f, g, h]"
  using assms by (auto simp: numeral_eq_Suc length_Suc_conv)

lemma bit_shift_in: "bit (shift_in w b) n \<longleftrightarrow> (if n = 0 then b else n < 8 \<and> bit w (n - 1))"
  unfolding shift_in_def bit_or_iff bit_push_bit_iff bit_b2w by auto

lemma foldl_shift_in_8:
  assumes "length bs = 8"
  shows "byte_bits (foldl shift_in w bs) = bs"
  using assms by (rule length_8_cases) (simp add: byte_bits_def bit_shift_in)

lemma byte_bits_inject: "byte_bits a = byte_bits b \<longleftrightarrow> a = b"
  by (auto simp: byte_bits_def u8_eq_iff)

lemma foldl_shift_in_byte [simp]: "foldl shift_in w (byte_bits x) = x"
  using foldl_shift_in_8 [of "byte_bits x" w] byte_bits_inject by simp


section \<open>Signed machine integers\<close>

text \<open>An integer as an \<^verbatim>\<open>int\<close> and as an \<^verbatim>\<open>int64_t\<close> holds it: the conversion \<^verbatim>\<open>int(x)\<close> of C++
  reduces modulo \<open>2 ^ 32\<close> into the signed range.  A signed product or sum that overflows is undefined
  in C++; \<open>i64\<close> marks where that can happen, wraps there, and every property is stated on arguments
  for which it is the identity.\<close>

definition i32 :: "int \<Rightarrow> int" where
  "i32 x = signed_take_bit 31 x"

definition i64 :: "int \<Rightarrow> int" where
  "i64 x = signed_take_bit 63 x"

lemma i32_id [simp]: "- 2147483648 \<le> x \<Longrightarrow> x < 2147483648 \<Longrightarrow> i32 x = x"
  by (simp add: i32_def signed_take_bit_int_eq_self)

lemma i64_id [simp]: "- 9223372036854775808 \<le> x \<Longrightarrow> x < 9223372036854775808 \<Longrightarrow> i64 x = x"
  by (simp add: i64_def signed_take_bit_int_eq_self)

lemma i32_range: "- 2147483648 \<le> i32 x" "i32 x < 2147483648"
  using signed_take_bit_int_greater_eq_minus_exp [of 31 x] signed_take_bit_int_less_exp [of 31 x]
  by (simp_all add: i32_def)


section \<open>Truncating division\<close>

text \<open>C++ integer division truncates towards zero; on a non-negative dividend and a positive
  divisor it is HOL's \<open>div\<close>.\<close>

lemma sdiv_nonneg: "0 \<le> (a::int) \<Longrightarrow> 0 < b \<Longrightarrow> a sdiv b = a div b"
  by (cases "a = 0") (simp_all add: signed_divide_int_def)

lemma smod_nonneg: "0 \<le> (a::int) \<Longrightarrow> 0 < b \<Longrightarrow> a smod b = a mod b"
  by (cases "a = 0") (simp_all add: signed_modulo_int_def)

lemma smod_nonpos: "(a::int) \<le> 0 \<Longrightarrow> 0 < b \<Longrightarrow> a smod b = - ((- a) mod b)"
  by (cases "a = 0") (simp_all add: signed_modulo_int_def)

lemma uint_add_numeral_pos [simp]: "0 < uint (w :: 'a::len word) + numeral k"
  by (rule add_nonneg_pos) simp_all

lemma int_le_div_iff: "0 < (k::int) \<Longrightarrow> n \<le> a div k \<longleftrightarrow> n * k \<le> a"
proof
  assume "0 < k" "n \<le> a div k"
  then have "n * k \<le> a div k * k" by simp
  also have "\<dots> \<le> a" using div_mult_mod_eq [of a k] pos_mod_sign [OF \<open>0 < k\<close>, of a] by linarith
  finally show "n * k \<le> a" .
next
  assume "0 < k" "n * k \<le> a"
  then show "n \<le> a div k" using zdiv_mono1 [of "n * k" a k] by simp
qed

lemma int_and_FFFF: "(t::int) AND 0xFFFF = t mod 65536"
  using take_bit_eq_mask [of 16 t] by (simp add: take_bit_eq_mod mask_eq_exp_minus_1)

lemma int_and_FF: "(t::int) AND 0xFF = t mod 256"
  using take_bit_eq_mask [of 8 t] by (simp add: take_bit_eq_mod mask_eq_exp_minus_1)



section \<open>Wrapping down-counters\<close>

text \<open>A counter that counts down and reloads modulo \<open>M\<close>: its value after \<open>n\<close> steps and the
  number of underflows on the way.  Both are additive in \<open>n\<close>, which is what makes delivering
  time in batches harmless.\<close>

definition wrap_down :: "int \<Rightarrow> int \<Rightarrow> int \<Rightarrow> int" where
  "wrap_down M n t = (if t < n then (t - n) mod M else t - n)"

definition wrap_count :: "int \<Rightarrow> int \<Rightarrow> int \<Rightarrow> int" where
  "wrap_count M n t = (if t < n then - ((t - n) div M) else 0)"

lemma wrap_down_range:
  assumes "0 < M" "0 \<le> n"
  shows "0 \<le> wrap_down M n t" "wrap_down M n t \<le> max t (M - 1)"
proof -
  have "(t - n) mod M < M" using assms by simp
  then have "(t - n) mod M \<le> max t (M - 1)" by linarith
  then show "0 \<le> wrap_down M n t" "wrap_down M n t \<le> max t (M - 1)"
    using assms by (auto simp: wrap_down_def)
qed

lemma wrap_down_0 [simp]: "0 \<le> t \<Longrightarrow> wrap_down M 0 t = t"
  by (simp add: wrap_down_def)

lemma wrap_count_0 [simp]: "0 \<le> t \<Longrightarrow> wrap_count M 0 t = 0"
  by (simp add: wrap_count_def)

lemma wrap_after:
  assumes "(0::int) < M" "0 \<le> n" "t < m"
  shows "((t - m) mod M < n \<longrightarrow> ((t - m) mod M - n) mod M = (t - (m + n)) mod M) \<and>
    (n \<le> (t - m) mod M \<longrightarrow> (t - m) mod M - n = (t - (m + n)) mod M)"
proof -
  have "(t - (m + n)) mod M = ((t - m) mod M - n) mod M"
    by (simp add: mod_diff_left_eq diff_diff_eq)
  moreover have "(t - m) mod M < M" using assms by simp
  then have "n \<le> (t - m) mod M \<Longrightarrow> ((t - m) mod M - n) mod M = (t - m) mod M - n"
    using assms by (intro mod_pos_pos_trivial) linarith+
  ultimately show ?thesis by presburger
qed

lemma wrap_down_add:
  assumes "0 < M" "0 \<le> m" "0 \<le> n"
  shows "wrap_down M (m + n) t = wrap_down M n (wrap_down M m t)"
proof (cases "t < m")
  case True
  then show ?thesis using wrap_after [OF assms(1,3) True] assms by (auto simp: wrap_down_def)
qed (use assms in \<open>auto simp: wrap_down_def algebra_simps\<close>)

lemma wrap_count_add:
  assumes "0 < M" "0 \<le> m" "0 \<le> n"
  shows "wrap_count M (m + n) t = wrap_count M m t + wrap_count M n (wrap_down M m t)"
proof (cases "t < m")
  case True
  let ?q = "(t - m) div M" and ?r = "(t - m) mod M"
  have "t - (m + n) = (?r - n) + M * ?q" by (simp add: algebra_simps)
  then have d: "(t - (m + n)) div M = ?q + (?r - n) div M"
    using assms(1) by (metis div_mult_self2 less_irrefl add.commute)
  have "?r < M" using assms by simp
  then have "n \<le> ?r \<Longrightarrow> (?r - n) div M = 0"
    using assms by (intro div_pos_pos_trivial) linarith+
  then show ?thesis using True assms d by (auto simp: wrap_count_def wrap_down_def)
qed (use assms in \<open>auto simp: wrap_count_def wrap_down_def algebra_simps\<close>)

lemma wrap_under_add:
  assumes "0 < M" "0 \<le> m" "0 \<le> n" "0 \<le> t"
  shows "t < m + n \<longleftrightarrow> t < m \<or> wrap_down M m t < n \<and> \<not> t < m"
  using assms by (auto simp: wrap_down_def)


section \<open>Buffers made of blocks\<close>

text \<open>\<^verbatim>\<open>memcpy\<close> into a buffer at an offset, and the \<open>b\<close>-th block of a buffer.\<close>

definition overwrite :: "nat \<Rightarrow> 'a list \<Rightarrow> 'a list \<Rightarrow> 'a list" where
  "overwrite off d xs = take off xs @ d @ drop (off + length d) xs"

definition block_at :: "nat \<Rightarrow> nat \<Rightarrow> 'a list \<Rightarrow> 'a list" where
  "block_at bs b xs = take bs (drop (b * bs) xs)"

lemma length_overwrite [simp]: "off + length d \<le> length xs \<Longrightarrow> length (overwrite off d xs) = length xs"
  by (simp add: overwrite_def)

lemma overwrite_Nil [simp]: "overwrite off [] xs = xs"
  by (simp add: overwrite_def)

lemma nth_overwrite:
  assumes "off + length d \<le> length xs" "i < length xs"
  shows "overwrite off d xs ! i = (if off \<le> i \<and> i < off + length d then d ! (i - off) else xs ! i)"
  using assms by (auto simp: overwrite_def nth_append)

lemma block_fits: "b < n \<Longrightarrow> n * bs \<le> len \<Longrightarrow> b * bs + bs \<le> (len :: nat)"
proof -
  assume "b < n" "n * bs \<le> len"
  have "b * bs + bs = Suc b * bs" by simp
  also have "\<dots> \<le> n * bs" using \<open>b < n\<close> by (intro mult_le_mono1) simp
  finally show ?thesis using \<open>n * bs \<le> len\<close> by simp
qed

lemma length_block_at [simp]: "b * bs + bs \<le> length xs \<Longrightarrow> length (block_at bs b xs) = bs"
  by (simp add: block_at_def)

lemma nth_block_at: "i < bs \<Longrightarrow> b * bs + bs \<le> length xs \<Longrightarrow> block_at bs b xs ! i = xs ! (b * bs + i)"
  by (simp add: block_at_def)

lemma block_overwrite:
  assumes "a * bs + bs \<le> length xs" "b * bs + bs \<le> length xs" "length d = bs"
  shows "block_at bs b (overwrite (a * bs) d xs) = (if a = b then d else block_at bs b xs)"
proof (rule nth_equalityI)
  show "length (block_at bs b (overwrite (a * bs) d xs)) = length (if a = b then d else block_at bs b xs)"
    using assms by simp
next
  fix i assume "i < length (block_at bs b (overwrite (a * bs) d xs))"
  then have i: "i < bs" using assms by simp
  have "b < a \<Longrightarrow> b * bs + i < a * bs"
    using i block_fits [of b a bs "a * bs"] by simp
  moreover have "a < b \<Longrightarrow> a * bs + bs \<le> b * bs"
    using block_fits [of a b bs "b * bs"] by simp
  ultimately show "block_at bs b (overwrite (a * bs) d xs) ! i = (if a = b then d else block_at bs b xs) ! i"
    using assms i by (cases a b rule: linorder_cases) (simp_all add: nth_block_at nth_overwrite)
qed

lemma overwrite_block_same: "a * bs + bs \<le> length xs \<Longrightarrow> overwrite (a * bs) (block_at bs a xs) xs = xs"
  by (intro nth_equalityI) (auto simp: nth_overwrite block_at_def)

lemma overwrite_extend:
  assumes "off + at + length s \<le> length xs" "length p = at"
  shows "overwrite (off + at) s (overwrite off p xs) = overwrite off (p @ s) xs"
  using assms by (intro nth_equalityI) (auto simp: nth_overwrite nth_append)

lemma overwrite_same_tail:
  assumes "off + length p + length q \<le> length xs" "q = take (length q) (drop (off + length p) xs)"
  shows "overwrite off (p @ q) xs = overwrite off p xs"
proof -
  have "drop (off + length p) xs = q @ drop (off + length p + length q) xs"
    using assms(2) by (metis append_take_drop_id drop_drop add.commute)
  then show ?thesis by (simp add: overwrite_def add.assoc)
qed

lemma drop_overwrite_after: "off + length p \<le> k \<Longrightarrow> off + length p \<le> length xs \<Longrightarrow> drop k (overwrite off p xs) = drop k xs"
  by (simp add: overwrite_def)

lemma carry_div_mod:
  assumes "0 < (M :: nat)"
  shows "(x + s * k) div M = x div M + (k div M * s + (x mod M + k mod M * s) div M)"
    "(x + s * k) mod M = (x mod M + k mod M * s) mod M"
proof -
  have "q * M + r + s * (p * M + t) = (r + t * s) + M * (q + p * s)" for q r p t by (simp add: algebra_simps)
  from this [of "x div M" "x mod M" "k div M" "k mod M"]
  have e: "x + s * k = (x mod M + k mod M * s) + M * (x div M + k div M * s)" by (simp only: div_mult_mod_eq)
  show "(x + s * k) div M = x div M + (k div M * s + (x mod M + k mod M * s) div M)"
    "(x + s * k) mod M = (x mod M + k mod M * s) mod M"
    unfolding e using assms by simp_all
qed

end
