(* ===== verification/Timed_Device.thy ===== *)
theory Timed_Device
  imports Pom_Prelude
begin

text \<open>
  The contract between the machine scheduler and a clocked peripheral.

  Every machine of \<^verbatim>\<open>src/src/\<close> advances its devices in batches: it asks each device for
  the distance to its next self-generated event (\<^verbatim>\<open>cyclesToNextEvent\<close>), lets the CPU run
  that far, and then delivers the elapsed cycles with one \<^verbatim>\<open>tick(n)\<close> call.  This is only
  right if a device cannot tell how the elapsed time was cut into batches and if no event can
  fall strictly before the announced deadline.  The locale states exactly that contract; what
  the scheduler may conclude from it is proved once here, and a device discharges the laws by
  interpretation in its own theory.
\<close>

text \<open>Delivering a list of batches, accumulating whether any of them raised an event.\<close>

fun run_batches :: "(int \<Rightarrow> 's \<Rightarrow> 's \<times> bool) \<Rightarrow> int list \<Rightarrow> 's \<Rightarrow> 's \<times> bool" where
  "run_batches tick [] s = (s, False)"
| "run_batches tick (n # ns) s =
     (let (s1, h1) = tick n s; (s2, h2) = run_batches tick ns s1 in (s2, h1 \<or> h2))"

locale timed_device =
  fixes tick :: "int \<Rightarrow> 's \<Rightarrow> 's \<times> bool"
    and deadline :: "'s \<Rightarrow> int"
    and ok :: "'s \<Rightarrow> bool"
  assumes tick_ok: "ok s \<Longrightarrow> 0 \<le> n \<Longrightarrow> ok (fst (tick n s))"
    and tick_zero: "ok s \<Longrightarrow> tick 0 s = (s, False)"
    and tick_add: "ok s \<Longrightarrow> 0 \<le> m \<Longrightarrow> 0 \<le> n \<Longrightarrow>
      tick (m + n) s = (let (s1, h1) = tick m s; (s2, h2) = tick n s1 in (s2, h1 \<or> h2))"
    and deadline_pos: "ok s \<Longrightarrow> 1 \<le> deadline s"
    and quiet: "ok s \<Longrightarrow> 0 \<le> n \<Longrightarrow> n < deadline s \<Longrightarrow> \<not> snd (tick n s)"
    and due: "ok s \<Longrightarrow> deadline s < 0x7fffffff \<Longrightarrow> snd (tick (deadline s) s)"
begin

lemma tick_split:
  assumes "ok s" "0 \<le> m" "0 \<le> n"
  shows "fst (tick (m + n) s) = fst (tick n (fst (tick m s)))"
    and "snd (tick (m + n) s) = (snd (tick m s) \<or> snd (tick n (fst (tick m s))))"
  using tick_add [OF assms] by (simp_all add: case_prod_beta)

lemma run_batches_ok:
  assumes "ok s" "list_all ((\<le>) 0) ns"
  shows "ok (fst (run_batches tick ns s))"
  using assms
proof (induction ns arbitrary: s)
  case (Cons n ns)
  then have "ok (fst (tick n s))" by (auto intro: tick_ok)
  with Cons show ?case by (simp add: case_prod_beta)
qed simp

lemma batching_invariance:
  assumes "ok s" "list_all ((\<le>) 0) ns"
  shows "run_batches tick ns s = tick (sum_list ns) s"
  using assms
proof (induction ns arbitrary: s)
  case Nil
  then show ?case by (simp add: tick_zero)
next
  case (Cons n ns)
  then have n: "0 \<le> n" and ns: "list_all ((\<le>) 0) ns" and ok: "ok (fst (tick n s))"
    by (auto intro: tick_ok)
  have "0 \<le> sum_list ns"
    using ns by (intro sum_list_nonneg) (simp add: list_all_iff)
  then show ?case
    using Cons.IH [OF ok ns] tick_add [OF Cons.prems(1) n] by (simp add: case_prod_beta)
qed

lemma no_event_before_deadline:
  assumes "ok s" "list_all ((\<le>) 0) ns" "sum_list ns < deadline s"
  shows "\<not> snd (run_batches tick ns s)"
proof -
  have "0 \<le> sum_list ns"
    using assms(2) by (intro sum_list_nonneg) (simp add: list_all_iff)
  then show ?thesis
    using assms by (simp add: batching_invariance quiet)
qed

lemma event_monotone:
  assumes "ok s" "0 \<le> m" "m \<le> n" "snd (tick m s)"
  shows "snd (tick n s)"
  using tick_split(2) [of s m "n - m"] assms by simp

lemma event_iff_deadline:
  assumes "ok s" "0 \<le> n" "n < 0x7fffffff"
  shows "snd (tick n s) \<longleftrightarrow> deadline s \<le> n"
proof
  assume "snd (tick n s)"
  then show "deadline s \<le> n" using quiet [of s n] assms by force
next
  assume le: "deadline s \<le> n"
  then have "snd (tick (deadline s) s)" using due assms by simp
  then show "snd (tick n s)"
    using event_monotone [of s "deadline s" n] le deadline_pos [OF assms(1)] assms by simp
qed

end

end
