(* ===== verification/Via_6522.thy ===== *)
theory Via_6522
  imports Pom_Prelude Timed_Device
begin

text \<open>
  The VIA 6522 (\<^verbatim>\<open>src/src/Via6522.h\<close>, \<^verbatim>\<open>src/src/Via6522.cpp\<close>): the register
  file, the interrupt flag and enable registers, the two timers, the shift register with its
  internal and external clocks, and the deadline \<open>via_cyclesToNextEvent\<close> the scheduler
  relies on.

  Every method of the class is a function on the record \<open>via\<close>, whose fields are the private
  members of the class with their trailing underscore dropped.  \<^verbatim>\<open>trace_\<close> is left out:
  it only selects diagnostic output.  \<^verbatim>\<open>int\<close> and \<^verbatim>\<open>int32_t\<close> members are integers; the
  invariant \<open>via_ok\<close> bounds them, so no operation leaves the range of the C++ type.
\<close>

unbundle bit_operations_syntax

section \<open>State\<close>

datatype via_reg = ORB | ORA | DDRB | DDRA | T1CL | T1CH | T1LL | T1LH
  | T2CL | T2CH | SR | ACR | PCR | IFR | IER | ORA_NH

text \<open>The enumeration's values; a \<^verbatim>\<open>switch\<close> on any other integer takes the default.\<close>

definition via_reg_of_int :: "int \<Rightarrow> via_reg option" where
  "via_reg_of_int n =
     (if 0 \<le> n \<and> n < 16 then
        Some ([ORB, ORA, DDRB, DDRA, T1CL, T1CH, T1LL, T1LH,
               T2CL, T2CH, SR, ACR, PCR, IFR, IER, ORA_NH] ! nat n)
      else None)"

abbreviation (input) IRQ_CA2 :: u8 where "IRQ_CA2 \<equiv> 0x01"
abbreviation (input) IRQ_CA1 :: u8 where "IRQ_CA1 \<equiv> 0x02"
abbreviation (input) IRQ_SHIFT :: u8 where "IRQ_SHIFT \<equiv> 0x04"
abbreviation (input) IRQ_CB2 :: u8 where "IRQ_CB2 \<equiv> 0x08"
abbreviation (input) IRQ_CB1 :: u8 where "IRQ_CB1 \<equiv> 0x10"
abbreviation (input) IRQ_TIMER2 :: u8 where "IRQ_TIMER2 \<equiv> 0x20"
abbreviation (input) IRQ_TIMER1 :: u8 where "IRQ_TIMER1 \<equiv> 0x40"
abbreviation (input) IRQ_ANY :: u8 where "IRQ_ANY \<equiv> 0x80"

record via =
  via_ora :: u8
  via_orb :: u8
  via_ddra :: u8
  via_ddrb :: u8
  via_inA :: u8
  via_inB :: u8
  via_acr :: u8
  via_pcr :: u8
  via_sr :: u8
  via_ifr :: u8
  via_ier :: u8
  via_srHostWritten :: bool
  via_shiftCount :: int
  via_extBits :: int
  via_mscShiftQuirk :: bool
  via_extIntCb1 :: bool
  via_extByteDone :: bool
  via_pmuIntAsserted :: bool
  via_extCb1 :: bool
  via_cb1 :: bool
  via_cb2 :: bool
  via_t1 :: int
  via_t2 :: int
  via_t1Pb7 :: bool
  via_t1latch :: u16
  via_t2ll :: u8
  via_t1armed :: bool
  via_t2armed :: bool
  via_t2hold :: u8
  via_ca1Cleared :: int

text \<open>The in-class initialisers: a freshly constructed device.\<close>

definition via_power_on :: via where
  "via_power_on = \<lparr>
     via_ora = 0, via_orb = 0, via_ddra = 0, via_ddrb = 0, via_inA = 0xFF, via_inB = 0xFF,
     via_acr = 0, via_pcr = 0, via_sr = 0, via_ifr = 0, via_ier = 0,
     via_srHostWritten = False, via_shiftCount = 0, via_extBits = 0,
     via_mscShiftQuirk = False, via_extIntCb1 = True, via_extByteDone = False,
     via_pmuIntAsserted = False, via_extCb1 = True, via_cb1 = True, via_cb2 = True,
     via_t1 = 0, via_t2 = 0, via_t1Pb7 = True, via_t1latch = 0, via_t2ll = 0,
     via_t1armed = False, via_t2armed = False, via_t2hold = 0, via_ca1Cleared = 0\<rparr>"

definition kT2LoadTicks :: u8 where
  "kT2LoadTicks = 2"

definition via_reset :: "via \<Rightarrow> via" where
  "via_reset v = v\<lparr>
     via_ora := 0, via_orb := 0, via_ddra := 0, via_ddrb := 0, via_inA := 0xFF, via_inB := 0xFF,
     via_acr := 0, via_pcr := 0, via_sr := 0, via_ifr := 0, via_ier := 0,
     via_t1 := 0, via_t2 := 0, via_t1latch := 0, via_t2ll := 0,
     via_t1armed := False, via_t2armed := False, via_t2hold := 0, via_t1Pb7 := True,
     via_srHostWritten := False, via_shiftCount := 0, via_cb1 := True, via_cb2 := True\<rparr>"


section \<open>Ports and interrupt flags\<close>

definition via_setIfr :: "u8 \<Rightarrow> via \<Rightarrow> via" where
  "via_setIfr bits v = v\<lparr>via_ifr := via_ifr v OR bits\<rparr>"

definition via_portA :: "via \<Rightarrow> u8" where
  "via_portA v = (via_ora v AND via_ddra v) OR (via_inA v AND NOT (via_ddra v))"

definition via_portB :: "via \<Rightarrow> u8" where
  "via_portB v =
     (let pb = (via_orb v AND via_ddrb v) OR (via_inB v AND NOT (via_ddrb v))
      in if flag (via_acr v) 0x80
         then (pb AND 0x7F) OR (if via_t1Pb7 v then 0x80 else 0) else pb)"

definition via_irqAsserted :: "via \<Rightarrow> bool" where
  "via_irqAsserted v \<longleftrightarrow> via_ifr v AND via_ier v AND 0x7F \<noteq> 0"

definition via_clearCaFlags :: "via \<Rightarrow> via" where
  "via_clearCaFlags v =
     (let v = (if flag (via_ifr v) IRQ_CA1 then v\<lparr>via_ca1Cleared := via_ca1Cleared v + 1\<rparr> else v);
          v = v\<lparr>via_ifr := via_ifr v AND NOT IRQ_CA1\<rparr>
      in if via_pcr v AND 0x0A \<noteq> 0x02 then v\<lparr>via_ifr := via_ifr v AND NOT IRQ_CA2\<rparr> else v)"

definition via_clearCbFlags :: "via \<Rightarrow> via" where
  "via_clearCbFlags v =
     (let v = v\<lparr>via_ifr := via_ifr v AND NOT IRQ_CB1\<rparr>;
          v = (if via_pmuIntAsserted v then v\<lparr>via_ifr := via_ifr v OR IRQ_CB1\<rparr> else v)
      in if via_pcr v AND 0xA0 \<noteq> 0x20 then v\<lparr>via_ifr := via_ifr v AND NOT IRQ_CB2\<rparr> else v)"

definition via_setCb1 :: "bool \<Rightarrow> via \<Rightarrow> via" where
  "via_setCb1 level v =
     (if level = via_cb1 v then v
      else let fell = via_cb1 v \<and> \<not> level; v = v\<lparr>via_cb1 := level\<rparr>
           in if fell then via_setIfr IRQ_CB1 v else v)"

definition via_setCb2 :: "bool \<Rightarrow> via \<Rightarrow> via" where
  "via_setCb2 level v =
     (if level = via_cb2 v then v
      else let fell = via_cb2 v \<and> \<not> level; v = v\<lparr>via_cb2 := level\<rparr>
           in if fell then via_setIfr IRQ_CB2 v else v)"

definition via_pmuIntLevel :: "bool \<Rightarrow> via \<Rightarrow> via" where
  "via_pmuIntLevel asserted v =
     (let v = v\<lparr>via_pmuIntAsserted := asserted\<rparr>
      in if asserted then via_setIfr IRQ_CB1 v else v\<lparr>via_ifr := via_ifr v AND NOT IRQ_CB1\<rparr>)"

definition via_extCb1Int :: "bool \<Rightarrow> via \<Rightarrow> via" where
  "via_extCb1Int level v =
     (let rise = \<not> via_extIntCb1 v \<and> level; fall = via_extIntCb1 v \<and> \<not> level;
          v = v\<lparr>via_extIntCb1 := level\<rparr>
      in if (rise \<and> flag (via_pcr v) 0x10) \<or> (fall \<and> \<not> flag (via_pcr v) 0x10)
         then via_setIfr IRQ_CB1 v else v)"


section \<open>Timers\<close>

text \<open>\<^verbatim>\<open>Via6522::tick\<close>, in its three parts: timer 1, timer 2, the internally clocked shift
  register.  Each part returns the device and whether it set an interrupt flag.\<close>

definition via_tick_t1 :: "int \<Rightarrow> via \<Rightarrow> via \<times> bool" where
  "via_tick_t1 n v =
     (let t = via_t1 v - n
      in if t < 0 then
           if flag (via_acr v) 0x40 then
             let period = uint (via_t1latch v) + 2;
                 flips = (- (t + 1)) sdiv period + 1;
                 pb7 = (if via_t1latch v > 0 \<and> odd flips then \<not> via_t1Pb7 v else via_t1Pb7 v)
             in ((via_setIfr IRQ_TIMER1 v)\<lparr>via_t1armed := True, via_t1Pb7 := pb7,
                    via_t1 := period - 1 + ((t + 1) smod period)\<rparr>, True)
           else
             let hit = via_t1armed v;
                 v = (if hit then via_setIfr IRQ_TIMER1 v else v)
             in (v\<lparr>via_t1armed := False, via_t1Pb7 := True, via_t1 := t AND 0xFFFF\<rparr>, hit)
         else (v\<lparr>via_t1 := t\<rparr>, False))"

definition via_tick_t2 :: "int \<Rightarrow> via \<Rightarrow> via \<times> bool" where
  "via_tick_t2 n v =
     (if flag (via_acr v) 0x20 then (v, False)
      else
        let h = (if via_t2hold v \<noteq> 0 then min n (uint (via_t2hold v)) else 0);
            hold = word_of_int (uint (via_t2hold v) - h);
            t = via_t2 v - (n - h);
            v = v\<lparr>via_t2hold := hold\<rparr>
        in if t < 0 then
             let hit = via_t2armed v;
                 v = (if hit then (via_setIfr IRQ_TIMER2 v)\<lparr>via_t2armed := False\<rparr> else v)
             in (v\<lparr>via_t2 := t AND 0xFFFF\<rparr>, hit)
           else (v\<lparr>via_t2 := t\<rparr>, False))"

definition via_tick_shift :: "int \<Rightarrow> via \<Rightarrow> via \<times> bool" where
  "via_tick_shift n v =
     (if via_shiftCount v > 0 then
        let c = via_shiftCount v - n
        in if c \<le> 0 then ((via_setIfr IRQ_SHIFT v)\<lparr>via_shiftCount := 0\<rparr>, True)
           else (v\<lparr>via_shiftCount := c\<rparr>, False)
      else (v, False))"

definition via_tick :: "int \<Rightarrow> via \<Rightarrow> via \<times> bool" where
  "via_tick n v =
     (let (v, hit1) = via_tick_t1 n v;
          (v, hit2) = via_tick_t2 n v;
          (v, hit3) = via_tick_shift n v
      in (v, hit1 \<or> hit2 \<or> hit3))"

definition via_cyclesToNextEvent :: "via \<Rightarrow> int" where
  "via_cyclesToNextEvent v =
     (let best = 0x7fffffff;
          best = (if flag (via_acr v) 0x40 \<or> via_t1armed v then min best (via_t1 v + 1) else best);
          best = (if \<not> flag (via_acr v) 0x20 \<and> via_t2armed v
                  then min best (via_t2 v + 1 + uint (via_t2hold v)) else best);
          best = (if via_shiftCount v > 0 then min best (via_shiftCount v) else best)
      in max best 1)"

definition via_countPb6Pulse :: "via \<Rightarrow> via" where
  "via_countPb6Pulse v =
     (if via_t2 v AND 0xFFFF = 0 then
        let v = v\<lparr>via_t2 := 0xFFFF\<rparr>
        in if via_t2armed v then via_setIfr IRQ_TIMER2 (v\<lparr>via_t2armed := False\<rparr>) else v
      else v\<lparr>via_t2 := (via_t2 v - 1) AND 0xFFFF\<rparr>)"

definition via_setInA :: "u8 \<Rightarrow> via \<Rightarrow> via" where
  "via_setInA x v = v\<lparr>via_inA := x\<rparr>"

definition via_setInB :: "u8 \<Rightarrow> via \<Rightarrow> via" where
  "via_setInB x v =
     (let v = (if flag (via_acr v) 0x20 \<and> flag (via_inB v) 0x40 \<and> \<not> flag x 0x40
               then via_countPb6Pulse v else v)
      in v\<lparr>via_inB := x\<rparr>)"


section \<open>Shift register\<close>

definition via_srMode :: "via \<Rightarrow> u8" where
  "via_srMode v = drop_bit 2 (via_acr v) AND 7"

definition via_loadSR :: "u8 \<Rightarrow> via \<Rightarrow> via" where
  "via_loadSR x v =
     (via_setIfr IRQ_SHIFT (v\<lparr>via_sr := x\<rparr>))\<lparr>via_srHostWritten := False, via_shiftCount := 0\<rparr>"

definition via_raiseShift :: "via \<Rightarrow> via" where
  "via_raiseShift v = (via_setIfr IRQ_SHIFT v)\<lparr>via_shiftCount := 0\<rparr>"

definition via_armShiftComplete :: "int \<Rightarrow> via \<Rightarrow> via" where
  "via_armShiftComplete clocks v = v\<lparr>via_shiftCount := clocks\<rparr>"

definition via_loadSRDevice :: "u8 \<Rightarrow> via \<Rightarrow> via" where
  "via_loadSRDevice x v = v\<lparr>via_sr := x\<rparr>"

definition via_extShiftCB2Out :: "via \<Rightarrow> bool" where
  "via_extShiftCB2Out v \<longleftrightarrow> drop_bit 7 (via_sr v) AND 1 \<noteq> 0"

definition via_takeShiftDone :: "via \<Rightarrow> bool \<times> via" where
  "via_takeShiftDone v = (via_extByteDone v, v\<lparr>via_extByteDone := False\<rparr>)"

text \<open>The tail of \<^verbatim>\<open>extShiftCB1\<close>: one more bit has moved.\<close>

definition via_extBitDone :: "via \<Rightarrow> via" where
  "via_extBitDone v =
     (let v = v\<lparr>via_extBits := via_extBits v + 1\<rparr>
      in if via_extBits v \<ge> 8
         then via_setIfr IRQ_SHIFT (v\<lparr>via_extBits := 0, via_extByteDone := True\<rparr>)
         else v)"

definition via_extShiftCB1 :: "bool \<Rightarrow> bool \<Rightarrow> via \<Rightarrow> via" where
  "via_extShiftCB1 level cb2FromPic v =
     (let rose = \<not> via_extCb1 v \<and> level;
          fell = via_extCb1 v \<and> \<not> level;
          v = v\<lparr>via_extCb1 := level\<rparr>;
          m = via_srMode v
      in if m = 3 \<or> (via_mscShiftQuirk v \<and> m = 0) then
           if \<not> rose then v
           else via_extBitDone (v\<lparr>via_sr := push_bit 1 (via_sr v) OR b2w cb2FromPic\<rparr>)
         else if m = 7 then
           if fell then
             if via_extBits v > 0
             then v\<lparr>via_sr := push_bit 1 (via_sr v) OR (drop_bit 7 (via_sr v) AND 1)\<rparr>
             else v
           else if \<not> rose then v
           else via_extBitDone v
         else v)"


section \<open>Bus access\<close>

definition via_read_reg :: "via_reg \<Rightarrow> via \<Rightarrow> u8 \<times> via" where
  "via_read_reg r v =
     (case r of
        ORB \<Rightarrow> (let v = via_clearCbFlags v in (via_portB v, v))
      | ORA \<Rightarrow> (let v = via_clearCaFlags v in (via_portA v, v))
      | ORA_NH \<Rightarrow> (via_portA v, v)
      | DDRB \<Rightarrow> (via_ddrb v, v)
      | DDRA \<Rightarrow> (via_ddra v, v)
      | T1CL \<Rightarrow> (word_of_int (via_t1 v AND 0xFF), v\<lparr>via_ifr := via_ifr v AND NOT IRQ_TIMER1\<rparr>)
      | T1CH \<Rightarrow> (word_of_int (drop_bit 8 (via_t1 v) AND 0xFF), v)
      | T1LL \<Rightarrow> (ucast (via_t1latch v), v)
      | T1LH \<Rightarrow> (ucast (drop_bit 8 (via_t1latch v)), v)
      | T2CL \<Rightarrow> (word_of_int (via_t2 v AND 0xFF), v\<lparr>via_ifr := via_ifr v AND NOT IRQ_TIMER2\<rparr>)
      | T2CH \<Rightarrow> (word_of_int (drop_bit 8 (via_t2 v) AND 0xFF), v)
      | SR \<Rightarrow> (via_sr v, v\<lparr>via_ifr := via_ifr v AND NOT IRQ_SHIFT, via_extBits := 0\<rparr>)
      | ACR \<Rightarrow> (via_acr v, v)
      | PCR \<Rightarrow> (via_pcr v, v)
      | IFR \<Rightarrow> ((via_ifr v AND 0x7F) OR (if via_irqAsserted v then IRQ_ANY else 0), v)
      | IER \<Rightarrow> (via_ier v OR 0x80, v))"

definition via_read :: "int \<Rightarrow> via \<Rightarrow> u8 \<times> via" where
  "via_read reg v =
     (case via_reg_of_int reg of Some r \<Rightarrow> via_read_reg r v | None \<Rightarrow> (0xFF, v))"

definition via_write_reg :: "via_reg \<Rightarrow> u8 \<Rightarrow> via \<Rightarrow> via" where
  "via_write_reg r x v =
     (case r of
        ORB \<Rightarrow> via_clearCbFlags (v\<lparr>via_orb := x\<rparr>)
      | ORA \<Rightarrow> via_clearCaFlags (v\<lparr>via_ora := x\<rparr>)
      | ORA_NH \<Rightarrow> v\<lparr>via_ora := x\<rparr>
      | DDRB \<Rightarrow> v\<lparr>via_ddrb := x\<rparr>
      | DDRA \<Rightarrow> v\<lparr>via_ddra := x\<rparr>
      | T1CL \<Rightarrow> v\<lparr>via_t1latch := (via_t1latch v AND 0xFF00) OR ucast x\<rparr>
      | T1LL \<Rightarrow> v\<lparr>via_t1latch := (via_t1latch v AND 0xFF00) OR ucast x\<rparr>
      | T1LH \<Rightarrow> v\<lparr>via_t1latch := (via_t1latch v AND 0x00FF) OR push_bit 8 (ucast x),
                   via_ifr := via_ifr v AND NOT IRQ_TIMER1\<rparr>
      | T1CH \<Rightarrow> (let latch = (via_t1latch v AND 0x00FF) OR push_bit 8 (ucast x)
                 in v\<lparr>via_t1latch := latch, via_t1 := uint latch, via_t1armed := True,
                      via_t1Pb7 := False, via_ifr := via_ifr v AND NOT IRQ_TIMER1\<rparr>)
      | T2CL \<Rightarrow> v\<lparr>via_t2ll := x\<rparr>
      | T2CH \<Rightarrow> v\<lparr>via_t2 := uint (push_bit 8 (ucast x :: u32) OR ucast (via_t2ll v)),
                   via_t2armed := True,
                   via_t2hold := (if flag (via_acr v) 0x20 then 0 else kT2LoadTicks),
                   via_ifr := via_ifr v AND NOT IRQ_TIMER2\<rparr>
      | SR \<Rightarrow> (let m = via_srMode v
               in v\<lparr>via_sr := x, via_ifr := via_ifr v AND NOT IRQ_SHIFT,
                    via_srHostWritten := True, via_extBits := 0,
                    via_shiftCount := (if m \<noteq> 0 \<and> m \<noteq> 3 \<and> m \<noteq> 7 then 16 else 0)\<rparr>)
      | ACR \<Rightarrow> (let v = v\<lparr>via_acr := x\<rparr>; m = via_srMode v
                in if m = 0 \<or> m = 3 \<or> m = 7 then v\<lparr>via_shiftCount := 0\<rparr> else v)
      | PCR \<Rightarrow> v\<lparr>via_pcr := x\<rparr>
      | IFR \<Rightarrow> (let v = (if flag x IRQ_CA1 then v\<lparr>via_ca1Cleared := via_ca1Cleared v + 1\<rparr> else v);
                    v = v\<lparr>via_ifr := via_ifr v AND NOT (x AND 0x7F)\<rparr>
                in if via_pmuIntAsserted v then v\<lparr>via_ifr := via_ifr v OR IRQ_CB1\<rparr> else v)
      | IER \<Rightarrow> (if flag x 0x80 then v\<lparr>via_ier := via_ier v OR (x AND 0x7F)\<rparr>
                else v\<lparr>via_ier := via_ier v AND NOT (x AND 0x7F)\<rparr>))"

definition via_write :: "int \<Rightarrow> u8 \<Rightarrow> via \<Rightarrow> via" where
  "via_write reg x v =
     (case via_reg_of_int reg of Some r \<Rightarrow> via_write_reg r x v | None \<Rightarrow> v)"


lemma via_reg_of_int_simps [simp]:
  "via_reg_of_int 0 = Some ORB" "via_reg_of_int 1 = Some ORA" "via_reg_of_int 2 = Some DDRB"
  "via_reg_of_int 3 = Some DDRA" "via_reg_of_int 4 = Some T1CL" "via_reg_of_int 5 = Some T1CH"
  "via_reg_of_int 6 = Some T1LL" "via_reg_of_int 7 = Some T1LH" "via_reg_of_int 8 = Some T2CL"
  "via_reg_of_int 9 = Some T2CH" "via_reg_of_int 10 = Some SR" "via_reg_of_int 11 = Some ACR"
  "via_reg_of_int 12 = Some PCR" "via_reg_of_int 13 = Some IFR" "via_reg_of_int 14 = Some IER"
  "via_reg_of_int 15 = Some ORA_NH"
  by (simp_all add: via_reg_of_int_def)


section \<open>The range invariant\<close>

text \<open>The C++ counters stay in the ranges their types and readers assume.  \<open>via_t1\<close> can
  exceed 16 bits by one: in free-run mode the reload value is latch + 1.\<close>

definition via_ok :: "via \<Rightarrow> bool" where
  "via_ok v \<longleftrightarrow> 0 \<le> via_t1 v \<and> via_t1 v \<le> 65536 \<and> 0 \<le> via_t2 v \<and> via_t2 v \<le> 65535 \<and>
     0 \<le> via_shiftCount v \<and> via_shiftCount v \<le> 16 \<and>
     0 \<le> via_extBits v \<and> via_extBits v \<le> 7 \<and> via_t2hold v \<le> kT2LoadTicks"


section \<open>Closed form of a tick\<close>

text \<open>Number of timer 1 underflows in \<open>n\<close> ticks, and the modulus the counter wraps at.\<close>

definition via_t1_mod :: "via \<Rightarrow> int" where
  "via_t1_mod v = (if flag (via_acr v) 0x40 then uint (via_t1latch v) + 2 else 65536)"

definition via_t1_after :: "int \<Rightarrow> via \<Rightarrow> int" where
  "via_t1_after n v = wrap_down (via_t1_mod v) n (via_t1 v)"

definition via_t1_underflows :: "int \<Rightarrow> via \<Rightarrow> int" where
  "via_t1_underflows n v = wrap_count (via_t1_mod v) n (via_t1 v)"

definition via_t1_hit :: "int \<Rightarrow> via \<Rightarrow> bool" where
  "via_t1_hit n v \<longleftrightarrow> via_t1 v < n \<and> (flag (via_acr v) 0x40 \<or> via_t1armed v)"

definition via_t1_arm_after :: "int \<Rightarrow> via \<Rightarrow> bool" where
  "via_t1_arm_after n v \<longleftrightarrow> (if via_t1 v < n then flag (via_acr v) 0x40 else via_t1armed v)"

definition via_pb7_after :: "int \<Rightarrow> via \<Rightarrow> bool" where
  "via_pb7_after n v \<longleftrightarrow>
     (if \<not> via_t1 v < n then via_t1Pb7 v
      else if \<not> flag (via_acr v) 0x40 then True
      else via_t1Pb7 v \<noteq> (via_t1latch v > 0 \<and> odd (via_t1_underflows n v)))"

lemma neg_div_step:
  assumes "(t::int) < 0" "0 < p"
  shows "(- (t + 1)) div p + 1 = - (t div p)" and "p - 1 - (- (t + 1)) mod p = t mod p"
proof -
  have "t = p * (t div p) + t mod p" by simp
  moreover have "0 \<le> t mod p" "t mod p < p" using assms by auto
  ultimately have e: "- (t + 1) = p * (- (t div p) - 1) + (p - 1 - t mod p)"
    by (simp add: algebra_simps)
  have d: "(- (t + 1)) div p = - (t div p) - 1"
    by (rule int_div_pos_eq [OF e]) (use \<open>t mod p < p\<close> \<open>0 \<le> t mod p\<close> in auto)
  have m: "(- (t + 1)) mod p = p - 1 - t mod p"
    by (rule int_mod_pos_eq [OF e]) (use \<open>t mod p < p\<close> \<open>0 \<le> t mod p\<close> in auto)
  show "(- (t + 1)) div p + 1 = - (t div p)" using d by simp
  show "p - 1 - (- (t + 1)) mod p = t mod p" using m by simp
qed

lemma via_t1_mod_pos: "0 < via_t1_mod v"
  by (simp add: via_t1_mod_def)

lemma via_tick_t1_eq:
  "via_tick_t1 n v =
     (v\<lparr>via_ifr := via_ifr v OR (if via_t1_hit n v then IRQ_TIMER1 else 0),
        via_t1armed := via_t1_arm_after n v, via_t1Pb7 := via_pb7_after n v,
        via_t1 := via_t1_after n v\<rparr>, via_t1_hit n v)"
proof (cases "via_t1 v < n")
  case under: True
  let ?t = "via_t1 v - n" and ?p = "uint (via_t1latch v) + 2"
  have t: "?t < 0" and p: "0 < ?p" using under by simp_all
  have d: "(- (?t + 1)) sdiv ?p + 1 = - (?t div ?p)"
    using neg_div_step(1) [OF t p] sdiv_nonneg [of "- (?t + 1)" ?p] t p by simp
  have m: "?p - 1 + ((?t + 1) smod ?p) = ?t mod ?p"
    using neg_div_step(2) [OF t p] smod_nonpos [of "?t + 1" ?p] t p by simp
  show ?thesis
    unfolding via_tick_t1_def Let_def d m
    using under
    by (auto simp: via_t1_hit_def via_t1_arm_after_def via_pb7_after_def via_t1_after_def
        via_t1_underflows_def via_t1_mod_def wrap_down_def wrap_count_def via_setIfr_def
        int_and_FFFF)
next
  case False
  then show ?thesis
    by (auto simp: via_tick_t1_def Let_def via_t1_hit_def via_t1_arm_after_def
        via_pb7_after_def via_t1_after_def wrap_down_def)
qed


definition via_t2_steps :: "int \<Rightarrow> via \<Rightarrow> int" where
  "via_t2_steps n v = (if flag (via_acr v) 0x20 then 0 else max 0 (n - uint (via_t2hold v)))"

definition via_t2_after :: "int \<Rightarrow> via \<Rightarrow> int" where
  "via_t2_after n v = wrap_down 65536 (via_t2_steps n v) (via_t2 v)"

definition via_hold_after :: "int \<Rightarrow> via \<Rightarrow> u8" where
  "via_hold_after n v =
     (if flag (via_acr v) 0x20 then via_t2hold v
      else word_of_int (max 0 (uint (via_t2hold v) - n)))"

definition via_t2_hit :: "int \<Rightarrow> via \<Rightarrow> bool" where
  "via_t2_hit n v \<longleftrightarrow> via_t2 v < via_t2_steps n v \<and> via_t2armed v"

definition via_shift_hit :: "int \<Rightarrow> via \<Rightarrow> bool" where
  "via_shift_hit n v \<longleftrightarrow> 0 < via_shiftCount v \<and> via_shiftCount v \<le> n"

definition via_shift_after :: "int \<Rightarrow> via \<Rightarrow> int" where
  "via_shift_after n v = (if 0 < via_shiftCount v then max 0 (via_shiftCount v - n) else via_shiftCount v)"

lemma via_tick_t2_eq:
  assumes "0 \<le> n" "0 \<le> via_t2 v"
  shows "via_tick_t2 n v =
     (v\<lparr>via_ifr := via_ifr v OR (if via_t2_hit n v then IRQ_TIMER2 else 0),
        via_t2hold := via_hold_after n v, via_t2armed := via_t2armed v \<and> \<not> via_t2_hit n v,
        via_t2 := via_t2_after n v\<rparr>, via_t2_hit n v)"
proof (cases "flag (via_acr v) 0x20")
  case True
  with assms show ?thesis
    by (simp add: via_tick_t2_def via_t2_hit_def via_t2_steps_def via_hold_after_def via_t2_after_def
        wrap_down_def)
next
  case False
  let ?h = "uint (via_t2hold v)"
  have h: "(if via_t2hold v \<noteq> 0 then min n ?h else 0) = min n ?h"
    using assms by auto
  have s: "n - min n ?h = via_t2_steps n v" and r: "?h - min n ?h = max 0 (?h - n)"
    using False by (simp_all add: via_t2_steps_def)
  have under: "via_t2 v - via_t2_steps n v < 0 \<longleftrightarrow> via_t2 v < via_t2_steps n v" by simp
  show ?thesis
    unfolding via_tick_t2_def Let_def h s r under
    using False
    by (auto simp: via_t2_hit_def via_t2_after_def wrap_down_def via_hold_after_def via_setIfr_def
        int_and_FFFF)
qed

lemma via_tick_shift_eq:
  "via_tick_shift n v =
     (v\<lparr>via_ifr := via_ifr v OR (if via_shift_hit n v then IRQ_SHIFT else 0),
        via_shiftCount := via_shift_after n v\<rparr>, via_shift_hit n v)"
  by (auto simp: via_tick_shift_def via_shift_hit_def via_shift_after_def via_setIfr_def Let_def)

lemmas via_tick_parts = via_t1_hit_def via_t1_arm_after_def via_pb7_after_def via_t1_after_def
  via_t1_underflows_def via_t1_mod_def via_t2_hit_def via_t2_steps_def via_t2_after_def
  via_hold_after_def via_shift_hit_def via_shift_after_def

definition via_tick_ifr :: "int \<Rightarrow> via \<Rightarrow> u8" where
  "via_tick_ifr n v =
     (if via_t1_hit n v then IRQ_TIMER1 else 0) OR (if via_t2_hit n v then IRQ_TIMER2 else 0) OR
     (if via_shift_hit n v then IRQ_SHIFT else 0)"

lemma via_tick_eq:
  assumes "via_ok v" "0 \<le> n"
  shows "via_tick n v =
     (v\<lparr>via_ifr := via_ifr v OR via_tick_ifr n v,
        via_t1armed := via_t1_arm_after n v, via_t1Pb7 := via_pb7_after n v,
        via_t1 := via_t1_after n v,
        via_t2hold := via_hold_after n v, via_t2armed := via_t2armed v \<and> \<not> via_t2_hit n v,
        via_t2 := via_t2_after n v, via_shiftCount := via_shift_after n v\<rparr>,
      via_t1_hit n v \<or> via_t2_hit n v \<or> via_shift_hit n v)"
proof -
  have t2: "0 \<le> via_t2 v" using assms by (simp add: via_ok_def)
  show ?thesis
    unfolding via_tick_def via_tick_t1_eq
    by (simp add: via_tick_t2_eq assms t2 via_tick_shift_eq via_tick_ifr_def or.assoc
        via_t2_hit_def via_t2_steps_def via_hold_after_def via_t2_after_def via_shift_hit_def
        via_shift_after_def)
qed



section \<open>Ticks compose\<close>

lemma via_ok_simps:
  assumes "via_ok v"
  shows "0 \<le> via_t1 v" "via_t1 v \<le> 65536" "0 \<le> via_t2 v" "via_t2 v \<le> 65535"
    "0 \<le> via_shiftCount v" "via_shiftCount v \<le> 16"
    "0 \<le> via_extBits v" "via_extBits v \<le> 7" "via_t2hold v \<le> kT2LoadTicks"
  using assms by (simp_all add: via_ok_def)

lemma uint_hold_after:
  assumes "0 \<le> n"
  shows "uint (via_hold_after n v) =
    (if flag (via_acr v) 0x20 then uint (via_t2hold v) else max 0 (uint (via_t2hold v) - n))"
proof -
  have "uint (word_of_int (max 0 (uint (via_t2hold v) - n)) :: u8) = max 0 (uint (via_t2hold v) - n)"
    using assms uint_lt2p [of "via_t2hold v"]
    by (simp add: uint_word_of_int mod_pos_pos_trivial)
  then show ?thesis by (simp add: via_hold_after_def)
qed

lemma via_t1_mod_le: "via_t1_mod v \<le> 65537"
  using uint_lt2p [of "via_t1latch v"] by (simp add: via_t1_mod_def)

lemma via_tick_ok:
  assumes "via_ok v" "0 \<le> n"
  shows "via_ok (fst (via_tick n v))"
proof -
  have "0 \<le> via_t2_steps n v" using assms by (simp add: via_t2_steps_def)
  then have t2: "0 \<le> via_t2_after n v" "via_t2_after n v \<le> 65535"
    using wrap_down_range [of 65536 "via_t2_steps n v" "via_t2 v"] via_ok_simps [OF assms(1)]
    by (auto simp: via_t2_after_def)
  have t1: "0 \<le> via_t1_after n v" "via_t1_after n v \<le> 65536"
    using wrap_down_range [of "via_t1_mod v" n "via_t1 v"] via_ok_simps [OF assms(1)]
      via_t1_mod_pos via_t1_mod_le [of v] assms by (auto simp: via_t1_after_def)
  have "uint (via_hold_after n v) \<le> uint (via_t2hold v)"
    using assms by (auto simp: uint_hold_after)
  then have h: "via_hold_after n v \<le> kT2LoadTicks"
    using via_ok_simps(9) [OF assms(1)] by (metis order_trans word_le_def)
  show ?thesis
    using assms t1 t2 h via_ok_simps [OF assms(1)]
    by (auto simp: via_tick_eq via_ok_def via_shift_after_def)
qed

text \<open>Each part of the closed form, split at an intermediate state that carries the first
  part's result.\<close>

lemma via_t1_parts_add:
  assumes "via_ok v" "0 \<le> m" "0 \<le> n"
    and w: "via_t1 w = via_t1_after m v" "via_acr w = via_acr v" "via_t1latch w = via_t1latch v"
      "via_t1armed w = via_t1_arm_after m v" "via_t1Pb7 w = via_pb7_after m v"
  shows "via_t1_after (m + n) v = via_t1_after n w"
    and "via_t1_hit (m + n) v \<longleftrightarrow> via_t1_hit m v \<or> via_t1_hit n w"
    and "via_t1_arm_after (m + n) v = via_t1_arm_after n w"
    and "via_pb7_after (m + n) v = via_pb7_after n w"
proof -
  have M: "via_t1_mod w = via_t1_mod v" using w by (simp add: via_t1_mod_def)
  note t = via_ok_simps(1) [OF assms(1)]
  note pos = via_t1_mod_pos [of v]
  show "via_t1_after (m + n) v = via_t1_after n w"
    using wrap_down_add [OF pos assms(2,3), of "via_t1 v"] w M by (simp add: via_t1_after_def)
  have under: "via_t1 v < m + n \<longleftrightarrow> via_t1 v < m \<or> via_t1 w < n"
    using wrap_under_add [OF pos assms(2,3) t] w assms t by (auto simp: via_t1_after_def wrap_down_def)
  show "via_t1_hit (m + n) v \<longleftrightarrow> via_t1_hit m v \<or> via_t1_hit n w"
    using under w by (auto simp: via_t1_hit_def via_t1_arm_after_def)
  show "via_t1_arm_after (m + n) v = via_t1_arm_after n w"
    using under w by (auto simp: via_t1_arm_after_def)
  have c: "via_t1_underflows (m + n) v = via_t1_underflows m v + via_t1_underflows n w"
    using wrap_count_add [OF pos assms(2,3), of "via_t1 v"] w M
    by (simp add: via_t1_underflows_def via_t1_after_def)
  have z: "\<not> via_t1 v < m \<Longrightarrow> via_t1_underflows m v = 0"
    "\<not> via_t1 w < n \<Longrightarrow> via_t1_underflows n w = 0"
    by (simp_all add: via_t1_underflows_def wrap_count_def)
  show "via_pb7_after (m + n) v = via_pb7_after n w"
    using under w c z by (auto simp: via_pb7_after_def)
qed

lemma via_t2_parts_add:
  assumes "via_ok v" "0 \<le> m" "0 \<le> n"
    and w: "via_t2 w = via_t2_after m v" "via_acr w = via_acr v"
      "via_t2hold w = via_hold_after m v" "via_t2armed w = (via_t2armed v \<and> \<not> via_t2_hit m v)"
  shows "via_t2_after (m + n) v = via_t2_after n w"
    and "via_t2_hit (m + n) v \<longleftrightarrow> via_t2_hit m v \<or> via_t2_hit n w"
    and "via_hold_after (m + n) v = via_hold_after n w"
proof -
  have steps: "via_t2_steps (m + n) v = via_t2_steps m v + via_t2_steps n w"
    using assms by (auto simp: via_t2_steps_def uint_hold_after)
  have nn: "0 \<le> via_t2_steps m v" "0 \<le> via_t2_steps n w"
    using assms by (simp_all add: via_t2_steps_def)
  show "via_t2_after (m + n) v = via_t2_after n w"
    using wrap_down_add [OF _ nn, of 65536 "via_t2 v"] w steps by (simp add: via_t2_after_def)
  have under: "via_t2 v < via_t2_steps (m + n) v \<longleftrightarrow>
      via_t2 v < via_t2_steps m v \<or> via_t2 w < via_t2_steps n w \<and> \<not> via_t2 v < via_t2_steps m v"
    using wrap_under_add [OF _ nn, of 65536 "via_t2 v"] via_ok_simps(3) [OF assms(1)] w steps
    by (simp add: via_t2_after_def)
  show "via_t2_hit (m + n) v \<longleftrightarrow> via_t2_hit m v \<or> via_t2_hit n w"
    using under w by (auto simp: via_t2_hit_def)
  show "via_hold_after (m + n) v = via_hold_after n w"
  proof (cases "flag (via_acr v) 0x20")
    case True
    then show ?thesis by (simp add: via_hold_after_def w)
  next
    case False
    then show ?thesis
      using assms uint_hold_after [of m v] unfolding via_hold_after_def
      by (auto simp: w intro!: arg_cong [where f = word_of_int])
  qed
qed

lemma via_shift_parts_add:
  assumes "via_ok v" "0 \<le> m" "0 \<le> n" and w: "via_shiftCount w = via_shift_after m v"
  shows "via_shift_after (m + n) v = via_shift_after n w"
    and "via_shift_hit (m + n) v \<longleftrightarrow> via_shift_hit m v \<or> via_shift_hit n w"
  using assms by (auto simp: via_shift_after_def via_shift_hit_def)

lemma via_tick_add:
  assumes "via_ok v" "0 \<le> m" "0 \<le> n"
  shows "via_tick (m + n) v =
    (let (v1, h1) = via_tick m v; (v2, h2) = via_tick n v1 in (v2, h1 \<or> h2))"
proof -
  obtain w where w0: "w = fst (via_tick m v)" by blast
  have ok: "via_ok w" unfolding w0 by (rule via_tick_ok [OF assms(1,2)])
  have w: "w = v\<lparr>via_ifr := via_ifr v OR via_tick_ifr m v,
        via_t1armed := via_t1_arm_after m v, via_t1Pb7 := via_pb7_after m v,
        via_t1 := via_t1_after m v,
        via_t2hold := via_hold_after m v, via_t2armed := via_t2armed v \<and> \<not> via_t2_hit m v,
        via_t2 := via_t2_after m v, via_shiftCount := via_shift_after m v\<rparr>"
    by (simp add: via_tick_eq [OF assms(1,2)] w0)
  have t1: "via_t1 w = via_t1_after m v" "via_acr w = via_acr v" "via_t1latch w = via_t1latch v"
      "via_t1armed w = via_t1_arm_after m v" "via_t1Pb7 w = via_pb7_after m v"
    and t2: "via_t2 w = via_t2_after m v" "via_t2hold w = via_hold_after m v"
      "via_t2armed w = (via_t2armed v \<and> \<not> via_t2_hit m v)"
    and sh: "via_shiftCount w = via_shift_after m v"
    by (simp_all add: w)
  note p1 = via_t1_parts_add [OF assms t1]
  note p2 = via_t2_parts_add [OF assms t2(1) t1(2) t2(2,3)]
  note p3 = via_shift_parts_add [OF assms sh]
  have ifr: "via_tick_ifr (m + n) v = via_tick_ifr m v OR via_tick_ifr n w"
    unfolding via_tick_ifr_def p1 p2 p3 or_if_disj by (simp only: or.assoc or.left_commute or.commute)
  have mn: "0 \<le> m + n" using assms by simp
  have upd: "w\<lparr>via_ifr := a, via_t1armed := b, via_t1Pb7 := c, via_t1 := d, via_t2hold := e,
        via_t2armed := f, via_t2 := g, via_shiftCount := h\<rparr> =
      v\<lparr>via_ifr := a, via_t1armed := b, via_t1Pb7 := c, via_t1 := d, via_t2hold := e,
        via_t2armed := f, via_t2 := g, via_shiftCount := h\<rparr>" for a b c d e f g h
    by (simp add: w)
  have "via_ifr w = via_ifr v OR via_tick_ifr m v" by (simp add: w)
  then have st: "fst (via_tick (m + n) v) = fst (via_tick n w)"
    unfolding via_tick_eq [OF assms(1) mn] via_tick_eq [OF ok assms(3)] p1 p2 p3 ifr fst_conv upd
    by (simp only: t2(3) or.assoc de_Morgan_disj conj_assoc)
  have hit: "snd (via_tick (m + n) v) \<longleftrightarrow> snd (via_tick m v) \<or> snd (via_tick n w)"
    unfolding via_tick_eq [OF assms(1) mn] via_tick_eq [OF ok assms(3)] via_tick_eq [OF assms(1,2)]
      p1 p2 p3 snd_conv by blast
  show ?thesis
    unfolding case_prod_beta Let_def w0 [symmetric] by (rule prod_eqI) (simp_all add: st hit)
qed



section \<open>The VIA is a timed device\<close>

lemma deadline_fold:
  fixes M x y z :: int
  shows "max (let best = M; best = (if a then min best x else best);
            best = (if b then min best y else best); best = (if c then min best z else best)
          in best) 1 =
    max 1 (min (if a then x else M) (min (if b then y else M) (min (if c then z else M) M)))"
  by (cases a; cases b; cases c)
    (simp_all only: Let_def if_True if_False min.commute min.left_commute min.idem max.commute
      min.left_idem)

lemma via_deadline_cases:
  "via_cyclesToNextEvent v =
     max 1 (min (if flag (via_acr v) 0x40 \<or> via_t1armed v then via_t1 v + 1 else 0x7fffffff)
       (min (if \<not> flag (via_acr v) 0x20 \<and> via_t2armed v
             then via_t2 v + 1 + uint (via_t2hold v) else 0x7fffffff)
         (min (if via_shiftCount v > 0 then via_shiftCount v else 0x7fffffff) 0x7fffffff)))"
  unfolding deadline_fold [symmetric] via_cyclesToNextEvent_def Let_def by (rule refl)

lemma via_tick_hit_iff:
  assumes "via_ok v" "0 \<le> n"
  shows "snd (via_tick n v) \<longleftrightarrow>
    (flag (via_acr v) 0x40 \<or> via_t1armed v) \<and> via_t1 v + 1 \<le> n \<or>
    (\<not> flag (via_acr v) 0x20 \<and> via_t2armed v) \<and> via_t2 v + 1 + uint (via_t2hold v) \<le> n \<or>
    0 < via_shiftCount v \<and> via_shiftCount v \<le> n"
  using via_ok_simps [OF assms(1)] assms
  by (auto simp: via_tick_eq via_t1_hit_def via_t2_hit_def via_t2_steps_def via_shift_hit_def)

lemma uint_hold_le: "via_ok v \<Longrightarrow> uint (via_t2hold v) \<le> 2"
  using via_ok_simps(9) [of v] by (simp add: kT2LoadTicks_def word_le_def)

lemma via_quiet:
  assumes "via_ok v" "0 \<le> n" "n < via_cyclesToNextEvent v"
  shows "\<not> snd (via_tick n v)"
  using assms via_ok_simps [OF assms(1)] unfolding via_tick_hit_iff [OF assms(1,2)] via_deadline_cases
  by (auto split: if_splits)

lemma min3_cases:
  assumes "max 1 (min a (min b (min c M))) < (M::int)" "1 \<le> a" "1 \<le> b" "1 \<le> c"
  shows "let d = max 1 (min a (min b (min c M))) in d = a \<and> a < M \<or> d = b \<and> b < M \<or> d = c \<and> c < M"
  using assms by (simp add: min_def max_def split: if_splits)

lemma via_due:
  assumes "via_ok v" "via_cyclesToNextEvent v < 0x7fffffff"
  shows "snd (via_tick (via_cyclesToNextEvent v) v)"
proof -
  note r = via_ok_simps [OF assms(1)]
  have d: "0 \<le> via_cyclesToNextEvent v" unfolding via_deadline_cases by simp
  have a: "1 \<le> (if flag (via_acr v) 0x40 \<or> via_t1armed v then via_t1 v + 1 else 0x7fffffff)"
    and b: "1 \<le> (if \<not> flag (via_acr v) 0x20 \<and> via_t2armed v
      then via_t2 v + 1 + uint (via_t2hold v) else 0x7fffffff)"
    and c: "1 \<le> (if via_shiftCount v > 0 then via_shiftCount v else 0x7fffffff)"
    using r by simp_all
  show ?thesis
    using min3_cases [OF assms(2) [unfolded via_deadline_cases] a b c]
    unfolding via_tick_hit_iff [OF assms(1) d] via_deadline_cases [symmetric] Let_def
    by (auto split: if_splits)
qed

lemma via_deadline_pos: "1 \<le> via_cyclesToNextEvent v"
  unfolding via_deadline_cases by simp

lemma via_tick_zero:
  assumes "via_ok v"
  shows "via_tick 0 v = (v, False)"
proof -
  note r = via_ok_simps [OF assms]
  have "via_hold_after 0 v = via_t2hold v"
    by (simp add: via_hold_after_def max_def)
  moreover have "via_t2_steps 0 v = 0" by (simp add: via_t2_steps_def)
  ultimately show ?thesis
    using r by (simp add: via_tick_eq assms via_tick_ifr_def via_t1_hit_def via_t2_hit_def
        via_shift_hit_def via_t1_arm_after_def via_pb7_after_def via_t1_after_def via_t2_after_def
        via_shift_after_def)
qed

interpretation via_dev: timed_device via_tick via_cyclesToNextEvent via_ok
  by unfold_locales
    (assumption | rule via_tick_ok via_tick_zero via_tick_add via_deadline_pos via_quiet via_due)+



section \<open>Every operation keeps the ranges\<close>

text \<open>One step of the device: any public operation, with the arguments its callers can pass.\<close>

inductive via_step :: "via \<Rightarrow> via \<Rightarrow> bool" where
  s_reset: "via_step v (via_reset v)"
| s_read: "via_step v (snd (via_read reg v))"
| s_write: "via_step v (via_write reg x v)"
| s_tick: "0 \<le> n \<Longrightarrow> via_step v (fst (via_tick n v))"
| s_setInA: "via_step v (via_setInA x v)"
| s_setInB: "via_step v (via_setInB x v)"
| s_raise: "bits \<in> {IRQ_CA1, IRQ_CA2, IRQ_CB1} \<Longrightarrow> via_step v (via_setIfr bits v)"
| s_setCb1: "via_step v (via_setCb1 level v)"
| s_setCb2: "via_step v (via_setCb2 level v)"
| s_loadSR: "via_step v (via_loadSR x v)"
| s_raiseShift: "via_step v (via_raiseShift v)"
| s_armShift: "0 \<le> n \<Longrightarrow> n \<le> 16 \<Longrightarrow> via_step v (via_armShiftComplete n v)"
| s_extShift: "via_step v (via_extShiftCB1 level b v)"
| s_pmuInt: "via_step v (via_pmuIntLevel level v)"
| s_extInt: "via_step v (via_extCb1Int level v)"
| s_loadSRDevice: "via_step v (via_loadSRDevice x v)"
| s_takeDone: "via_step v (snd (via_takeShiftDone v))"
| s_quirk: "via_step v (v\<lparr>via_mscShiftQuirk := q\<rparr>)"

inductive via_reachable :: "via \<Rightarrow> bool" where
  s_power_on: "via_reachable via_power_on"
| s_step: "via_reachable v \<Longrightarrow> via_step v w \<Longrightarrow> via_reachable w"

lemmas via_op_defs = via_reset_def via_setInA_def via_setInB_def via_setIfr_def
  via_setCb1_def via_setCb2_def via_loadSR_def via_raiseShift_def via_armShiftComplete_def
  via_pmuIntLevel_def via_extCb1Int_def via_loadSRDevice_def via_takeShiftDone_def
  via_clearCaFlags_def via_clearCbFlags_def

lemma via_ok_power_on: "via_ok via_power_on"
  by (simp add: via_ok_def via_power_on_def kT2LoadTicks_def)

lemma via_ok_clear [simp]:
  "via_ok (via_clearCaFlags v) = via_ok v" "via_ok (via_clearCbFlags v) = via_ok v"
  by (simp_all add: via_ok_def via_clearCaFlags_def via_clearCbFlags_def Let_def)

lemma via_ok_read: "via_ok v \<Longrightarrow> via_ok (snd (via_read reg v))"
  unfolding via_read_def via_read_reg_def
  by (cases "via_reg_of_int reg") (auto simp: Let_def via_ok_def via_clearCaFlags_def
      via_clearCbFlags_def split: via_reg.split)

lemma uint_latch_le: "uint (w :: u16) \<le> 65536"
  using uint_lt2p [of w] by simp

lemma uint_t2_load:
  "uint (push_bit 8 (ucast (x :: u8) :: u32) OR ucast (y :: u8)) = uint x * 256 + uint y"
proof -
  have "push_bit 8 (ucast x :: u32) OR ucast y = push_bit 8 (ucast x) + ucast y"
    by (rule disjunctive_add [symmetric]) (auto simp: bit_simps)
  moreover have "uint (push_bit 8 (ucast x :: u32) + ucast y) = uint x * 256 + uint y"
    using uint_lt2p [of x] uint_lt2p [of y]
    by (simp add: push_bit_eq_mult uint_word_ariths uint_up_ucast is_up)
  ultimately show ?thesis by simp
qed

lemma via_ok_write: "via_ok v \<Longrightarrow> via_ok (via_write reg x v)"
  using uint_lt2p [of x] uint_lt2p [of "via_t2ll v"]
  unfolding via_write_def via_write_reg_def
  by (cases "via_reg_of_int reg")
    (auto simp: Let_def via_ok_def uint_t2_load kT2LoadTicks_def uint_latch_le
      via_clearCaFlags_def via_clearCbFlags_def split: via_reg.split)


lemma via_ok_extShift: "via_ok v \<Longrightarrow> via_ok (via_extShiftCB1 level b v)"
  by (simp add: via_extShiftCB1_def via_extBitDone_def via_setIfr_def via_ok_def Let_def)

lemma via_ok_setInB: "via_ok v \<Longrightarrow> via_ok (via_setInB x v)"
  by (auto simp: via_setInB_def via_countPb6Pulse_def via_setIfr_def via_ok_def Let_def
      int_and_FFFF zmod_le_nonneg_dividend)

lemma via_ok_misc:
  assumes "via_ok v"
  shows "via_ok (via_reset v)" "via_ok (via_setInA x v)" "via_ok (via_setIfr x v)"
    "via_ok (via_setCb1 level v)" "via_ok (via_setCb2 level v)" "via_ok (via_loadSR x v)"
    "via_ok (via_raiseShift v)" "via_ok (via_pmuIntLevel level v)" "via_ok (via_extCb1Int level v)"
    "via_ok (via_loadSRDevice x v)" "via_ok (snd (via_takeShiftDone v))"
    "via_ok (v\<lparr>via_mscShiftQuirk := level\<rparr>)"
    "0 \<le> n \<Longrightarrow> n \<le> 16 \<Longrightarrow> via_ok (via_armShiftComplete n v)"
  using assms by (simp_all add: via_op_defs via_ok_def Let_def kT2LoadTicks_def)

lemma via_step_ok: "via_step v w \<Longrightarrow> via_ok v \<Longrightarrow> via_ok w"
  by (induction rule: via_step.induct)
    (simp_all only: via_ok_misc via_ok_read via_ok_write via_ok_extShift via_ok_setInB via_tick_ok)

lemma via_reachable_ok: "via_reachable v \<Longrightarrow> via_ok v"
  by (induction rule: via_reachable.induct) (auto intro: via_ok_power_on via_step_ok)



section \<open>Interrupt logic\<close>

lemma via_irqAsserted_bits: "via_irqAsserted v \<longleftrightarrow> (\<exists>k<7. bit (via_ifr v) k \<and> bit (via_ier v) k)"
proof -
  have "7 < (8 :: nat)" by simp
  have "via_ifr v AND via_ier v AND 0x7F \<noteq> 0 \<longleftrightarrow>
      (\<exists>k. bit (via_ifr v) k \<and> bit (via_ier v) k \<and> k < 7)"
    using mask_eq_exp_minus_1 [of 7, where 'a = u8]
    by (auto simp: bit_eq_iff bit_and_iff bit_mask_iff dest: bit_imp_le_length)
      (meson \<open>7 < (8 :: nat)\<close> less_trans)
  then show ?thesis by (auto simp: via_irqAsserted_def)
qed


section \<open>Properties\<close>

lemma bit_tick_ifr:
  "bit (via_tick_ifr n v) 5 = via_t2_hit n v" "bit (via_tick_ifr n v) 6 = via_t1_hit n v"
  by (simp_all add: via_tick_ifr_def bit_or_iff)

lemma via_tick_flags:
  assumes "via_ok v" "0 \<le> n"
  shows "flag (via_ifr (fst (via_tick n v))) IRQ_TIMER2 \<longleftrightarrow> flag (via_ifr v) IRQ_TIMER2 \<or> via_t2_hit n v"
    and "flag (via_ifr (fst (via_tick n v))) IRQ_TIMER1 \<longleftrightarrow> flag (via_ifr v) IRQ_TIMER1 \<or> via_t1_hit n v"
  by (simp_all add: via_tick_eq [OF assms] flag_simps bit_or_iff bit_tick_ifr)

text \<open>C17: delivering the elapsed time to the VIA in any sequence of batches is the same as
  delivering it at once: the state afterwards and whether an interrupt flag was raised depend
  only on the total.\<close>

theorem via_batching_invariance:
  assumes "via_reachable v" "list_all ((\<le>) 0) ns"
  shows "run_batches via_tick ns v = via_tick (sum_list ns) v"
  using via_dev.batching_invariance [OF via_reachable_ok [OF assms(1)] assms(2)] .

theorem via_batching_invariance_witness:
  "run_batches via_tick [3, 0, 5] (via_write 5 0 via_power_on) = via_tick 8 (via_write 5 0 via_power_on)"
  using via_batching_invariance [OF via_reachable.s_step [OF via_reachable.s_power_on via_step.s_write],
      of "[3, 0, 5]" 5 0] by simp

text \<open>C18: the deadline the VIA announces is exact: a tick raises an interrupt flag if and only
  if it reaches the announced number of cycles.\<close>

theorem via_deadline_exact:
  assumes "via_reachable v" "0 \<le> n" "n < 0x7fffffff"
  shows "snd (via_tick n v) \<longleftrightarrow> via_cyclesToNextEvent v \<le> n"
  using via_dev.event_iff_deadline [OF via_reachable_ok [OF assms(1)] assms(2,3)] .

theorem via_deadline_exact_witness:
  "snd (via_tick 300 (via_write 5 1 via_power_on)) \<longleftrightarrow>
     via_cyclesToNextEvent (via_write 5 1 via_power_on) \<le> 300"
  using via_deadline_exact [OF via_reachable.s_step [OF via_reachable.s_power_on via_step.s_write],
      of 300 5 1] by simp

text \<open>C33: loading timer 2 with \<open>N\<close> in timed mode sets its interrupt flag after exactly
  \<open>N + 3\<close> clocks: the two load clocks, \<open>N\<close> counts and the underflow.\<close>

theorem via_t2_latency:
  assumes "via_reachable v" "\<not> flag (via_acr v) 0x20" "0 \<le> n"
  shows "flag (via_ifr (fst (via_tick n (via_write 9 hi (via_write 8 lo v))))) IRQ_TIMER2 \<longleftrightarrow>
    uint hi * 256 + uint lo + 3 \<le> n"
proof -
  let ?w = "via_write 9 hi (via_write 8 lo v)"
  have ok: "via_ok ?w" by (intro via_ok_write via_reachable_ok assms)
  have w: "via_t2 ?w = uint hi * 256 + uint lo" "via_t2armed ?w" "via_t2hold ?w = 2"
    "via_acr ?w = via_acr v" "\<not> flag (via_ifr ?w) IRQ_TIMER2"
    using assms(2) by (simp_all add: via_write_def via_write_reg_def uint_t2_load kT2LoadTicks_def
        flag_simps bit_and_iff bit_not_iff)
  have "\<not> uint hi * 256 + uint lo < 0" by (simp add: not_less)
  then show ?thesis
    unfolding via_tick_flags(1) [OF ok assms(3)] via_t2_hit_def via_t2_steps_def
    using w assms(2) by (simp add: less_max_iff_disj) linarith
qed

theorem via_t2_latency_witness:
  "flag (via_ifr (fst (via_tick 261 (via_write 9 1 (via_write 8 2 via_power_on))))) IRQ_TIMER2"
  using via_t2_latency [OF via_reachable.s_power_on, of 261 1 2]
  by (simp add: via_power_on_def flag_simps)

text \<open>C34: in free-run mode, loading timer 1 with \<open>L\<close> gives the first interrupt after \<open>L + 1\<close>
  clocks and, however long ago that was, when the flag is cleared at a reload the next one comes
  after exactly \<open>L + 2\<close> clocks.\<close>

theorem via_t1_free_run:
  assumes "via_reachable v" "flag (via_acr v) 0x40" "0 \<le> k" "0 \<le> n"
    and w: "w = via_write 5 hi v" and L: "L = uint (via_t1latch w)"
  shows "(flag (via_ifr (fst (via_tick n w))) IRQ_TIMER1 \<longleftrightarrow> L + 1 \<le> n) \<and>
    (flag (via_ifr (fst (via_tick n (snd (via_read 4 (fst (via_tick (L + 1 + k * (L + 2)) w))))))) IRQ_TIMER1
      \<longleftrightarrow> L + 2 \<le> n)"
proof (intro conjI)
  have ok: "via_ok w" unfolding w by (intro via_ok_write via_reachable_ok assms)
  have wv: "via_t1 w = L" "via_acr w = via_acr v" "\<not> flag (via_ifr w) IRQ_TIMER1"
    unfolding L by (simp_all add: w via_write_def via_write_reg_def Let_def flag_simps bit_and_iff bit_not_iff)
  show "flag (via_ifr (fst (via_tick n w))) IRQ_TIMER1 \<longleftrightarrow> L + 1 \<le> n"
    unfolding via_tick_flags(2) [OF ok assms(4)] using wv assms(2) by (auto simp: via_t1_hit_def)
  let ?m = "L + 1 + k * (L + 2)"
  let ?u = "snd (via_read 4 (fst (via_tick ?m w)))"
  have "0 \<le> L" by (simp add: L)
  then have m: "0 \<le> ?m" "L < ?m" using assms(3) by (auto intro: add_strict_increasing)
  have okt: "via_ok ?u" by (intro via_ok_read via_tick_ok ok m(1))
  have "(L - ?m) mod (L + 2) = (- 1 + (- k) * (L + 2)) mod (L + 2)" by (simp add: algebra_simps)
  also have "\<dots> = (- 1) mod (L + 2)" by (rule mod_mult_self1)
  also have "\<dots> = L + 1" using \<open>0 \<le> L\<close> zmod_minus1 [of "L + 2"] by simp
  finally have "via_t1_after ?m w = L + 1"
    using m wv assms(2) L by (simp add: via_t1_after_def via_t1_mod_def wrap_down_def)
  then have u: "via_t1 ?u = L + 1" "via_acr ?u = via_acr v" "\<not> flag (via_ifr ?u) IRQ_TIMER1"
    using wv by (simp_all add: via_read_def via_read_reg_def via_tick_eq [OF ok m(1)] flag_simps
        bit_and_iff bit_not_iff)
  show "flag (via_ifr (fst (via_tick n ?u))) IRQ_TIMER1 \<longleftrightarrow> L + 2 \<le> n"
    unfolding via_tick_flags(2) [OF okt assms(4)] using u assms(2) by (auto simp: via_t1_hit_def)
qed

theorem via_t1_free_run_witness:
  "flag (via_ifr (fst (via_tick 257 (via_write 5 1 (via_write 11 0x40 via_power_on))))) IRQ_TIMER1"
  using via_t1_free_run [OF via_reachable.s_step [OF via_reachable.s_power_on via_step.s_write]
      _ _ _ refl refl, of 11 "0x40" 0 257 1]
  by (simp add: via_write_def via_write_reg_def via_power_on_def via_srMode_def flag_simps Let_def)

text \<open>One CB1 clock pulse of an external device that drives CB2 (shift in), and a train of pulses
  of a device that samples CB2 after each rising edge of CB1 (shift out).\<close>

definition via_pulse_in :: "via \<Rightarrow> bool \<Rightarrow> via" where
  "via_pulse_in v b = via_extShiftCB1 True b (via_extShiftCB1 False b v)"

fun via_pulses_out :: "nat \<Rightarrow> via \<Rightarrow> bool list \<times> via" where
  "via_pulses_out 0 v = ([], v)"
| "via_pulses_out (Suc n) v =
     (let v1 = via_extShiftCB1 True True (via_extShiftCB1 False True v);
          (bs, v2) = via_pulses_out n v1
      in (via_extShiftCB2Out v1 # bs, v2))"

definition via_shift_in_mode :: "via \<Rightarrow> bool" where
  "via_shift_in_mode v \<longleftrightarrow> via_srMode v = 3 \<or> via_mscShiftQuirk v \<and> via_srMode v = 0"

lemma via_pulse_in_sr:
  assumes "via_shift_in_mode v"
  shows "via_pulse_in v b = via_extBitDone (v\<lparr>via_extCb1 := True, via_sr := shift_in (via_sr v) b\<rparr>)"
  using assms by (auto simp: via_pulse_in_def via_extShiftCB1_def via_shift_in_mode_def via_srMode_def
      shift_in_def Let_def)

lemma via_extBitDone_simps [simp]:
  "via_sr (via_extBitDone v) = via_sr v"
  "via_shift_in_mode (via_extBitDone v) = via_shift_in_mode v"
  "via_srMode (via_extBitDone v) = via_srMode v"
  "via_extCb1 (via_extBitDone v) = via_extCb1 v"
  "via_acr (via_extBitDone v) = via_acr v"
  "via_mscShiftQuirk (via_extBitDone v) = via_mscShiftQuirk v"
  "via_extBits v < 7 \<Longrightarrow> via_extBits (via_extBitDone v) = via_extBits v + 1"
  "via_extBits v = 7 \<Longrightarrow> via_extBits (via_extBitDone v) = 0"
  "via_extBits v = 7 \<Longrightarrow> via_extByteDone (via_extBitDone v)"
  "via_extBits v = 7 \<Longrightarrow> flag (via_ifr (via_extBitDone v)) IRQ_SHIFT"
  by (simp_all add: via_extBitDone_def via_setIfr_def via_shift_in_mode_def via_srMode_def Let_def
      flag_simps bit_or_iff)

lemma via_pulse_in_simps:
  assumes "via_shift_in_mode v"
  shows "via_sr (via_pulse_in v b) = shift_in (via_sr v) b"
    "via_shift_in_mode (via_pulse_in v b)"
    "via_extBits v < 7 \<Longrightarrow> via_extBits (via_pulse_in v b) = via_extBits v + 1"
    "via_extBits v = 7 \<Longrightarrow> via_extBits (via_pulse_in v b) = 0"
    "via_extBits v = 7 \<Longrightarrow> via_extByteDone (via_pulse_in v b)"
    "via_extBits v = 7 \<Longrightarrow> flag (via_ifr (via_pulse_in v b)) IRQ_SHIFT"
  using assms unfolding via_pulse_in_sr [OF assms]
  by (simp_all add: via_shift_in_mode_def via_srMode_def)

text \<open>C35: eight clock pulses of an external device in shift-in mode leave exactly the eight
  presented bits in the shift register, most significant first, raise the shift interrupt, report
  the byte and leave the bit counter at zero for the next byte.\<close>

theorem via_external_shift_in:
  assumes "via_shift_in_mode v" "via_extBits v = 0"
  shows "let w = foldl via_pulse_in v (byte_bits x) in
    via_sr w = x \<and> flag (via_ifr w) IRQ_SHIFT \<and> via_extByteDone w \<and> via_extBits w = 0"
proof -
  have sr: "via_sr (foldl via_pulse_in v bs) = foldl shift_in (via_sr v) bs \<and>
      via_shift_in_mode (foldl via_pulse_in v bs)" for bs
    by (induction bs rule: rev_induct) (simp_all add: assms via_pulse_in_simps)
  have bits: "length bs \<le> 7 \<Longrightarrow> via_extBits (foldl via_pulse_in v bs) = int (length bs)" for bs
    by (induction bs rule: rev_induct) (simp_all add: assms via_pulse_in_simps sr)
  have bs: "byte_bits x = map (bit x) [7, 6, 5, 4, 3, 2, 1] @ [bit x 0]" by (simp add: byte_bits_def)
  let ?bs = "map (bit x) [7, 6, 5, 4, 3, 2, 1]"
  let ?w = "foldl via_pulse_in v ?bs"
  have "via_extBits ?w = 7" using bits [of ?bs] by simp
  moreover have "foldl via_pulse_in v (byte_bits x) = via_pulse_in ?w (bit x 0)"
    unfolding bs by simp
  moreover have "via_sr (foldl via_pulse_in v (byte_bits x)) = x" by (simp add: sr)
  ultimately show ?thesis
    using sr [of ?bs] by (simp add: Let_def via_pulse_in_simps)
qed

theorem via_external_shift_in_witness:
  "via_sr (foldl via_pulse_in (via_power_on\<lparr>via_acr := 0x0C\<rparr>) (byte_bits 0xA5)) = 0xA5"
  using via_external_shift_in [of "via_power_on\<lparr>via_acr := 0x0C\<rparr>" "0xA5"]
  by (simp add: via_shift_in_mode_def via_srMode_def via_power_on_def Let_def)

text \<open>Shift out: the register rotates on the falling edges of the second and later cells.\<close>

definition via_pulse_out :: "via \<Rightarrow> via" where
  "via_pulse_out v = via_extShiftCB1 True True (via_extShiftCB1 False True v)"

definition sr_rotate :: "u8 \<Rightarrow> u8" where
  "sr_rotate x = push_bit 1 x OR (drop_bit 7 x AND 1)"

lemma bit_sr_rotate: "n < 8 \<Longrightarrow> bit (sr_rotate x) n = (if n = 0 then bit x 7 else bit x (n - 1))"
  unfolding sr_rotate_def bit_or_iff bit_push_bit_iff bit_and_iff bit_drop_bit_eq bit_1_iff
  by auto

lemma via_pulse_out_eq:
  assumes "via_srMode v = 7" "via_extCb1 v \<or> via_extBits v = 0"
  shows "via_pulse_out v = via_extBitDone (v\<lparr>
    via_sr := (if 0 < via_extBits v then sr_rotate (via_sr v) else via_sr v), via_extCb1 := True\<rparr>)"
  using assms by (auto simp: via_pulse_out_def via_extShiftCB1_def via_srMode_def sr_rotate_def Let_def)

lemma via_extShiftCB2Out_bit: "via_extShiftCB2Out v = bit (via_sr v) 7"
proof -
  have "drop_bit 7 (via_sr v) AND 1 = of_bool (bit (via_sr v) 7)"
    by (simp add: and_one_eq bit_iff_odd_drop_bit odd_iff_mod_2_eq_one even_iff_mod_2_eq_zero)
  then show ?thesis by (simp add: via_extShiftCB2Out_def)
qed

lemma via_pulses_out_tail:
  assumes "via_srMode v = 7" "via_extCb1 v" "via_extBits v = 8 - int n" "n \<le> 7" "0 < n"
  shows "fst (via_pulses_out n v) = map (\<lambda>i. bit (via_sr v) (6 - i)) [0..<n] \<and>
    flag (via_ifr (snd (via_pulses_out n v))) IRQ_SHIFT \<and> via_extByteDone (snd (via_pulses_out n v)) \<and>
    via_extBits (snd (via_pulses_out n v)) = 0"
  using assms
proof (induction n arbitrary: v)
  case (Suc n)
  let ?w = "via_pulse_out v"
  have w: "?w = via_extBitDone (v\<lparr>via_sr := sr_rotate (via_sr v), via_extCb1 := True\<rparr>)"
    using Suc.prems by (simp add: via_pulse_out_eq)
  have mode: "via_srMode ?w = 7" "via_extCb1 ?w" "via_sr ?w = sr_rotate (via_sr v)"
    using Suc.prems by (simp_all add: w via_srMode_def)
  have out: "via_pulses_out (Suc n) v = (bit (via_sr v) 6 # fst (via_pulses_out n ?w), snd (via_pulses_out n ?w))"
    by (simp add: via_pulse_out_def [symmetric] via_extShiftCB2Out_bit mode bit_sr_rotate case_prod_beta Let_def)
  show ?case
  proof (cases "n = 0")
    case True
    then show ?thesis using Suc.prems unfolding out by (simp add: w)
  next
    case False
    then have "via_extBits ?w = 8 - int n" using Suc.prems by (simp add: w)
    note IH = Suc.IH [OF mode(1,2) this]
    have "map (\<lambda>i. bit (via_sr v) (6 - i)) [0..<Suc n] =
        bit (via_sr v) 6 # map (\<lambda>i. bit (via_sr ?w) (6 - i)) [0..<n]"
      unfolding upt_conv_Cons [OF zero_less_Suc] map_Suc_upt [symmetric] list.map map_map mode(3)
      using Suc.prems by (auto simp: bit_sr_rotate intro!: arg_cong [where f = "bit (via_sr v)"])
    then show ?thesis using IH Suc.prems False unfolding out by simp
  qed
qed simp

text \<open>After the host writes a byte to the shift register in external shift-out mode, a device
  that clocks CB1 and samples CB2 after each rising edge receives exactly that byte, most
  significant bit first, and the eighth pulse raises the shift interrupt.\<close>

theorem via_external_shift_out:
  assumes "via_srMode v = 7"
  shows "let (bs, w) = via_pulses_out 8 (via_write 10 x v) in
    bs = byte_bits x \<and> flag (via_ifr w) IRQ_SHIFT \<and> via_extByteDone w \<and> via_extBits w = 0"
proof -
  let ?v = "via_write 10 x v"
  let ?w = "via_pulse_out ?v"
  have v: "via_srMode ?v = 7" "via_extBits ?v = 0" "via_sr ?v = x"
    using assms by (simp_all add: via_write_def via_write_reg_def via_srMode_def Let_def)
  have w: "?w = via_extBitDone (?v\<lparr>via_sr := x, via_extCb1 := True\<rparr>)"
    using v by (simp add: via_pulse_out_eq)
  have m: "via_srMode ?w = 7" "via_extCb1 ?w" "via_sr ?w = x" "via_extBits ?w = 8 - int 7"
    using v by (simp_all add: w via_srMode_def)
  have "via_pulses_out (Suc 7) ?v = (bit x 7 # fst (via_pulses_out 7 ?w), snd (via_pulses_out 7 ?w))"
    unfolding via_pulses_out.simps via_pulse_out_def [symmetric] Let_def
    by (simp add: via_extShiftCB2Out_bit m case_prod_beta)
  moreover have "[0..<7] = [0::nat, 1, 2, 3, 4, 5, 6]" by (simp add: upt_rec)
  ultimately show ?thesis
    using via_pulses_out_tail [OF m(1,2,4)] m(3) by (simp add: byte_bits_def Let_def)
qed

theorem via_external_shift_out_witness:
  "fst (via_pulses_out 8 (via_write 10 0x2C (via_power_on\<lparr>via_acr := 0x1C\<rparr>))) =
    [False, False, True, False, True, True, False, False]"
  using via_external_shift_out [of "via_power_on\<lparr>via_acr := 0x1C\<rparr>" "0x2C"]
  by (simp add: via_srMode_def via_power_on_def Let_def case_prod_beta byte_bits_def)

text \<open>The PMU interrupt level: an operation that does not lower it leaves the CB1 flag set.\<close>

definition via_pmu_held :: "via \<Rightarrow> bool" where
  "via_pmu_held v \<longleftrightarrow> (via_pmuIntAsserted v \<longrightarrow> flag (via_ifr v) IRQ_CB1)"

lemma via_pmu_held_tick: "via_pmu_held v \<Longrightarrow> via_pmu_held (fst (via_tick n v))"
  by (auto simp: via_pmu_held_def via_tick_def via_tick_t1_def via_tick_t2_def via_tick_shift_def
      via_setIfr_def Let_def flag_simps bit_or_iff split: if_splits)

lemma via_pmu_held_clear:
  "via_pmu_held (via_clearCbFlags v)"
  "via_pmu_held v \<Longrightarrow> via_pmu_held (via_clearCaFlags v)"
  by (auto simp: via_pmu_held_def via_clearCbFlags_def via_clearCaFlags_def Let_def flag_simps
      bit_or_iff bit_and_iff bit_not_iff)

lemma via_pmu_held_read: "via_pmu_held v \<Longrightarrow> via_pmu_held (snd (via_read reg v))"
  using via_pmu_held_clear
  by (auto simp: via_read_def via_read_reg_def via_pmu_held_def Let_def flag_simps bit_and_iff
      bit_not_iff split: option.split via_reg.split)

lemma via_pmu_held_write: "via_pmu_held v \<Longrightarrow> via_pmu_held (via_write reg x v)"
  using via_pmu_held_clear(1) [of "v\<lparr>via_orb := x\<rparr>"] via_pmu_held_clear(2) [of "v\<lparr>via_ora := x\<rparr>"]
  by (auto simp: via_write_def via_write_reg_def via_pmu_held_def Let_def flag_simps bit_and_iff
      bit_or_iff bit_not_iff split: option.split via_reg.split)

lemma via_pmu_held_misc:
  assumes "via_pmu_held v"
  shows "via_pmu_held (via_setInA x v)" "via_pmu_held (via_setInB x v)" "via_pmu_held (via_setIfr x v)"
    "via_pmu_held (via_setCb1 level v)" "via_pmu_held (via_setCb2 level v)" "via_pmu_held (via_loadSR x v)"
    "via_pmu_held (via_raiseShift v)" "via_pmu_held (via_pmuIntLevel level v)"
    "via_pmu_held (via_extCb1Int level v)" "via_pmu_held (via_loadSRDevice x v)"
    "via_pmu_held (snd (via_takeShiftDone v))" "via_pmu_held (v\<lparr>via_mscShiftQuirk := level\<rparr>)"
    "via_pmu_held (via_armShiftComplete n v)" "via_pmu_held (via_extShiftCB1 level b v)"
  using assms by (simp_all add: via_op_defs via_pmu_held_def via_countPb6Pulse_def via_extShiftCB1_def
      via_extBitDone_def Let_def flag_simps bit_or_iff)

text \<open>C36: while the PMU drives its interrupt line, the CB1 flag reads set after every operation
  of the device: no acknowledge, port access or flag write the guest can make clears it.  The one
  exception is a device reset, which clears the flag and leaves the line asserted.\<close>

theorem via_pmu_level_held:
  assumes "via_step v w" "via_pmuIntAsserted v \<longrightarrow> flag (via_ifr v) IRQ_CB1"
  shows "w = via_reset v \<or> (via_pmuIntAsserted w \<longrightarrow> flag (via_ifr w) IRQ_CB1)"
proof -
  have "via_pmu_held v" using assms(2) by (simp add: via_pmu_held_def)
  with assms(1) have "w = via_reset v \<or> via_pmu_held w"
    by cases (simp_all add: via_pmu_held_misc via_pmu_held_read via_pmu_held_write via_pmu_held_tick)
  then show ?thesis by (simp add: via_pmu_held_def)
qed

theorem via_pmu_level_held_witness:
  "flag (via_ifr (via_write 13 0x7F (via_pmuIntLevel True via_power_on))) IRQ_CB1"
  using via_pmu_level_held [OF via_step.s_write [of "via_pmuIntLevel True via_power_on" 13 "0x7F"]]
  by (simp add: via_pmuIntLevel_def via_setIfr_def via_power_on_def via_write_def via_write_reg_def
      via_reset_def flag_simps Let_def)

text \<open>The interrupt output: bit 7 of the flag register reads set exactly when some flag is
  both raised and enabled, the low seven bits read the flags, and writing the flag register
  clears exactly the flags written as one (the PMU level apart).\<close>

theorem via_ifr_semantics:
  "(bit (fst (via_read 13 v)) 7 \<longleftrightarrow> (\<exists>k<7. bit (via_ifr v) k \<and> bit (via_ier v) k)) \<and>
   (\<forall>k<7. bit (fst (via_read 13 v)) k = bit (via_ifr v) k \<and>
     bit (via_ifr (via_write 13 x v)) k =
       (bit (via_ifr v) k \<and> \<not> bit x k \<or> k = 4 \<and> via_pmuIntAsserted v))"
  unfolding all_less_7 via_irqAsserted_bits [symmetric]
  by (simp add: via_read_def via_read_reg_def via_write_def via_write_reg_def Let_def
      bit_or_iff bit_and_iff bit_not_iff)

theorem via_ifr_semantics_witness:
  "bit (via_ifr (via_write 13 0x02 (via_setIfr 0x42 via_power_on))) 6"
  using via_ifr_semantics [of "via_setIfr 0x42 via_power_on" "0x02"]
  by (simp add: via_setIfr_def via_power_on_def)

end
