(* ===== verification/Via_Eclock.thy ===== *)
theory Via_Eclock
  imports Pom_Prelude
begin

text \<open>
  The E clock (\<^verbatim>\<open>src/src/ViaEClock.h\<close>): converting machine cycles to VIA clock cycles with a
  fractional accumulator, the grid the CPU stalls on, and the bridge that turns a VIA deadline
  into a machine-cycle deadline.

  The quantities are \<^verbatim>\<open>int64_t\<close> in the source, with results narrowed to \<^verbatim>\<open>int\<close>; both conversions
  are written out (\<open>i64\<close>, \<open>i32\<close>), and division is the truncating one.  What is shown: with a CPU clock
  of at least the E clock the ticker is exact whatever the total time; the grid is exact while twice
  the E-clock product fits 64 bits; the bridge is the exact inverse of the ticker and fits an
  \<^verbatim>\<open>int\<close> for every deadline a VIA announces.
\<close>

definition eclock_kHz :: int where
  "eclock_kHz = 783360"

definition cycleAt :: "int \<Rightarrow> int \<Rightarrow> int" where
  "cycleAt c cpuHz = (if cpuHz > 0 then i64 (c * eclock_kHz) sdiv cpuHz else 0)"

definition syncTarget :: "int \<Rightarrow> int \<Rightarrow> int" where
  "syncTarget c cpuHz =
     (if cpuHz \<le> 0 then c
      else i64 (i64 (2 * cycleAt c cpuHz + 3) * cpuHz) sdiv (2 * eclock_kHz) + 1)"

text \<open>The ticker: its state is the accumulator; a call returns the VIA cycles and the state.\<close>

definition ticker_advance :: "int \<Rightarrow> int \<Rightarrow> int \<Rightarrow> int \<times> int" where
  "ticker_advance machineCycles cpuHz acc =
     (if cpuHz \<le> 0 then (0, acc)
      else let acc = i64 (acc + machineCycles * eclock_kHz);
               n = i32 (acc sdiv cpuHz)
           in (n, i64 (acc - n * cpuHz)))"

definition ticker_cyclesToNext :: "int \<Rightarrow> int \<Rightarrow> int" where
  "ticker_cyclesToNext cpuHz acc =
     (if cpuHz \<le> 0 then 1
      else let need = i64 (cpuHz - acc) in i32 (i64 (need + eclock_kHz - 1) sdiv eclock_kHz))"

definition bridge :: "int \<Rightarrow> int \<Rightarrow> int \<Rightarrow> int" where
  "bridge eTicks acc cpuHz =
     (if eTicks = 0x7fffffff \<or> cpuHz \<le> 0 then eTicks
      else let need = i64 (eTicks * cpuHz - acc)
           in if need \<le> 0 then 1 else i32 (i64 (need + eclock_kHz - 1) sdiv eclock_kHz))"

text \<open>A sequence of calls, and the total it delivers.\<close>

fun ticker_run :: "int \<Rightarrow> int list \<Rightarrow> int \<Rightarrow> int \<times> int" where
  "ticker_run cpuHz [] acc = (0, acc)"
| "ticker_run cpuHz (c # cs) acc =
     (let (n, acc) = ticker_advance c cpuHz acc; (m, acc) = ticker_run cpuHz cs acc in (n + m, acc))"

text \<open>The clocks a CPU can have, and the slices an \<^verbatim>\<open>int\<close> can name.\<close>

definition clock_ok :: "int \<Rightarrow> bool" where
  "clock_ok cpuHz \<longleftrightarrow> eclock_kHz \<le> cpuHz \<and> cpuHz \<le> 2 ^ 62"

definition slice_ok :: "int \<Rightarrow> bool" where
  "slice_ok c \<longleftrightarrow> 0 \<le> c \<and> c < 2 ^ 31"

lemma ticker_advance_eq:
  assumes "clock_ok cpuHz" "0 \<le> acc" "acc < cpuHz" "slice_ok c"
  shows "ticker_advance c cpuHz acc =
    ((acc + c * eclock_kHz) div cpuHz, (acc + c * eclock_kHz) mod cpuHz)"
proof -
  let ?a = "acc + c * eclock_kHz"
  have hz: "0 < cpuHz" "783360 \<le> cpuHz" using assms(1) by (simp_all add: clock_ok_def eclock_kHz_def)
  have c: "0 \<le> c" "c \<le> 2147483647" using assms(4) by (simp_all add: slice_ok_def)
  have a: "0 \<le> ?a" "i64 ?a = ?a"
    using assms c by (simp_all add: clock_ok_def eclock_kHz_def)
  have "c * 783360 \<le> 2147483647 * cpuHz" using c hz by (intro mult_mono) simp_all
  then have "?a < 2147483648 * cpuHz" using assms(3) by (simp add: eclock_kHz_def)
  then have "?a div cpuHz < 2147483648" "0 \<le> ?a div cpuHz"
    using hz a(1) int_le_div_iff [of cpuHz 2147483648 ?a] by (simp_all add: pos_imp_zdiv_nonneg_iff)
  then have n: "i32 (?a sdiv cpuHz) = ?a div cpuHz" using a(1) hz by (simp add: sdiv_nonneg)
  have m: "?a - ?a div cpuHz * cpuHz = ?a mod cpuHz" by (rule minus_div_mult_eq_mod)
  have "0 \<le> ?a mod cpuHz" "?a mod cpuHz < cpuHz" using hz by simp_all
  then have "i64 (?a mod cpuHz) = ?a mod cpuHz" using assms(1) by (intro i64_id) (simp_all add: clock_ok_def)
  then show ?thesis using hz(1) by (simp add: ticker_advance_def Let_def a(2) n m)
qed

lemma div_carry: "0 < (k::int) \<Longrightarrow> x div k + (x mod k + y) div k = (x + y) div k"
proof -
  assume "0 < k"
  have "x + y = x mod k + y + x div k * k" by simp
  then have "(x + y) div k = (x mod k + y + x div k * k) div k" by (rule arg_cong)
  also have "\<dots> = x div k + (x mod k + y) div k" using \<open>0 < k\<close> by (intro div_mult_self1) simp
  finally show ?thesis by simp
qed

lemma ticker_run_eq:
  assumes "clock_ok cpuHz" "0 \<le> acc" "acc < cpuHz" "list_all slice_ok cs"
  shows "ticker_run cpuHz cs acc =
    ((acc + sum_list cs * eclock_kHz) div cpuHz, (acc + sum_list cs * eclock_kHz) mod cpuHz)"
  using assms
proof (induction cs arbitrary: acc)
  case (Cons c cs)
  let ?a = "acc + c * eclock_kHz"
  have hz: "0 < cpuHz" using Cons.prems(1) by (simp add: clock_ok_def eclock_kHz_def)
  then have r: "0 \<le> ?a mod cpuHz" "?a mod cpuHz < cpuHz" by auto
  have "ticker_run cpuHz (c # cs) acc =
      (?a div cpuHz + (?a mod cpuHz + sum_list cs * eclock_kHz) div cpuHz,
       (?a mod cpuHz + sum_list cs * eclock_kHz) mod cpuHz)"
    using Cons by (simp add: ticker_advance_eq Cons.IH r)
  then show ?case
    unfolding div_carry [OF hz] mod_add_left_eq by (simp add: algebra_simps)
qed simp

text \<open>C37: the ticker never drifts.  On a CPU clock of at least the E clock, after any sequence of calls,
  each with a slice an \<^verbatim>\<open>int\<close> holds and however long they are together, the E cycles delivered are
  the exact quotient of the total machine time, and the remainder stays below one E cycle.  As long as
  the product of \<^verbatim>\<open>cycleAt\<close> fits 64 bits they are also the phase \<^verbatim>\<open>cycleAt\<close> computes.\<close>

theorem ticker_no_drift:
  assumes "eclock_kHz \<le> cpuHz" "cpuHz \<le> 2 ^ 62" "list_all (\<lambda>c. 0 \<le> c \<and> c < 2 ^ 31) cs"
  shows "fst (ticker_run cpuHz cs 0) = sum_list cs * eclock_kHz div cpuHz \<and>
    0 \<le> snd (ticker_run cpuHz cs 0) \<and> snd (ticker_run cpuHz cs 0) < cpuHz \<and>
    (sum_list cs * eclock_kHz < 2 ^ 63 \<longrightarrow> fst (ticker_run cpuHz cs 0) = cycleAt (sum_list cs) cpuHz)"
proof -
  have hz: "0 < cpuHz" "clock_ok cpuHz" using assms by (simp_all add: clock_ok_def eclock_kHz_def)
  have "list_all slice_ok cs" using assms(3) by (simp add: list_all_iff slice_ok_def)
  then have r: "ticker_run cpuHz cs 0 = (sum_list cs * eclock_kHz div cpuHz, sum_list cs * eclock_kHz mod cpuHz)"
    using ticker_run_eq [OF hz(2), of 0 cs] hz(1) by simp
  have "0 \<le> sum_list cs"
    using assms(3) by (intro sum_list_nonneg) (simp add: list_all_iff)
  then have "0 \<le> sum_list cs * eclock_kHz" by (simp add: eclock_kHz_def)
  then have "sum_list cs * eclock_kHz < 2 ^ 63 \<Longrightarrow> cycleAt (sum_list cs) cpuHz = sum_list cs * eclock_kHz div cpuHz"
    using hz by (simp add: cycleAt_def sdiv_nonneg)
  then show ?thesis using r hz(1) by simp
qed

theorem ticker_no_drift_witness:
  "fst (ticker_run 25000000 [10, 22, 32, 0, 1000] 0) = 33 \<and> cycleAt 1064 25000000 = 33 \<and>
   fst (ticker_run 25000000 (replicate 6000 2000000000) 0) = 376012800000"
  using ticker_no_drift [of 25000000 "[10, 22, 32, 0, 1000]"]
    ticker_no_drift [of 25000000 "replicate 6000 2000000000"]
  by (simp add: cycleAt_def eclock_kHz_def sdiv_nonneg sum_list_replicate list_all_iff)

lemma ceil_le_iff:
  assumes "0 < (k::int)"
  shows "(a + k - 1) div k \<le> n \<longleftrightarrow> a \<le> n * k"
proof -
  have "(a + k - 1) div k \<le> n \<longleftrightarrow> \<not> n + 1 \<le> (a + k - 1) div k" by linarith
  also have "\<dots> \<longleftrightarrow> \<not> (n + 1) * k \<le> a + k - 1" using int_le_div_iff [OF assms] by simp
  also have "\<dots> \<longleftrightarrow> a \<le> n * k" by (auto simp: algebra_simps)
  finally show ?thesis .
qed

lemma mult_ge_self: "1 \<le> (e::int) \<Longrightarrow> 0 < k \<Longrightarrow> k \<le> e * k"
  using mult_right_mono [of 1 e k] by simp

text \<open>A deadline whose distance in machine cycles fits an \<^verbatim>\<open>int\<close>.\<close>

definition deadline_ok :: "int \<Rightarrow> int \<Rightarrow> bool" where
  "deadline_ok e cpuHz \<longleftrightarrow> 1 \<le> e \<and> e < 0x7fffffff \<and> e * cpuHz \<le> 0x7fffffff * eclock_kHz"

lemma bridge_le_iff:
  assumes "0 < cpuHz" "0 \<le> acc" "acc < cpuHz" "deadline_ok e cpuHz"
  shows "bridge e acc cpuHz \<le> n \<longleftrightarrow> e * cpuHz \<le> acc + n * eclock_kHz" "1 \<le> bridge e acc cpuHz"
    "bridge e acc cpuHz \<le> 0x7fffffff"
proof -
  define need where "need = e * cpuHz - acc"
  define k where "k = (need + eclock_kHz - 1) div eclock_kHz"
  have e: "1 \<le> e" "e \<noteq> 0x7fffffff" "e * cpuHz \<le> 0x7fffffff * 783360"
    using assms(4) by (simp_all add: deadline_ok_def eclock_kHz_def)
  have need: "0 < need" "need \<le> 0x7fffffff * eclock_kHz"
    using mult_ge_self [OF e(1) assms(1)] e(3) assms(2,3) unfolding need_def eclock_kHz_def by linarith+
  have up: "k \<le> 0x7fffffff" unfolding k_def by (subst ceil_le_iff) (use need in \<open>simp_all add: eclock_kHz_def\<close>)
  have "\<not> k \<le> 0" unfolding k_def by (subst ceil_le_iff) (use need in \<open>simp_all add: eclock_kHz_def\<close>)
  then have lo: "1 \<le> k" by simp
  have i: "i64 need = need" "i64 (need + eclock_kHz - 1) = need + eclock_kHz - 1" "0 \<le> need + eclock_kHz - 1"
    using need by (simp_all add: eclock_kHz_def)
  have s: "(need + eclock_kHz - 1) sdiv eclock_kHz = k"
    unfolding k_def using i(3) by (intro sdiv_nonneg) (simp_all add: eclock_kHz_def)
  have b: "bridge e acc cpuHz = k"
    using assms(1) e(2) need(1) lo up by (simp add: bridge_def need_def [symmetric] Let_def i s)
  then show "1 \<le> bridge e acc cpuHz" "bridge e acc cpuHz \<le> 0x7fffffff" using lo up by simp_all
  show "bridge e acc cpuHz \<le> n \<longleftrightarrow> e * cpuHz \<le> acc + n * eclock_kHz"
    unfolding b k_def using ceil_le_iff [of eclock_kHz need n] by (auto simp: eclock_kHz_def need_def)
qed

lemma advance_ge_iff:
  assumes "clock_ok cpuHz" "0 \<le> acc" "acc < cpuHz" "slice_ok n"
  shows "e \<le> fst (ticker_advance n cpuHz acc) \<longleftrightarrow> e * cpuHz \<le> acc + n * eclock_kHz"
proof -
  have "0 < cpuHz" using assms(1) by (simp add: clock_ok_def eclock_kHz_def)
  then show ?thesis using assms by (simp add: ticker_advance_eq int_le_div_iff)
qed

text \<open>The bridge is the exact inverse of the ticker: advancing by \<open>n\<close> machine cycles delivers
  the wanted number of E cycles if and only if \<open>n\<close> reaches the bridge.\<close>

theorem bridge_exact:
  assumes "clock_ok cpuHz" "0 \<le> acc" "acc < cpuHz" "deadline_ok e cpuHz" "slice_ok n"
  shows "e \<le> fst (ticker_advance n cpuHz acc) \<longleftrightarrow> bridge e acc cpuHz \<le> n"
proof -
  have "0 < cpuHz" using assms(1) by (simp add: clock_ok_def eclock_kHz_def)
  then show ?thesis using assms by (simp add: bridge_le_iff advance_ge_iff)
qed

theorem bridge_exact_witness:
  "3 \<le> fst (ticker_advance 95 25000000 1000000) \<and> \<not> 3 \<le> fst (ticker_advance 94 25000000 1000000) \<and>
   bridge 3 1000000 25000000 = 95"
  using bridge_exact [of 25000000 1000000 3 95] bridge_exact [of 25000000 1000000 3 94]
  by (simp add: bridge_def eclock_kHz_def sdiv_nonneg clock_ok_def deadline_ok_def slice_ok_def)

text \<open>\<open>cyclesToNext\<close> is the bridge to the next E cycle.\<close>

lemma cyclesToNext_bridge:
  "0 < cpuHz \<Longrightarrow> acc < cpuHz \<Longrightarrow> cpuHz - acc < 2 ^ 63 \<Longrightarrow> ticker_cyclesToNext cpuHz acc = bridge 1 acc cpuHz"
  by (simp add: ticker_cyclesToNext_def bridge_def Let_def)

text \<open>The deadline of a VIA is at most 65539 E cycles away (a 16-bit count, the underflow and the
  load clocks), so the bridge fits an \<^verbatim>\<open>int\<close> for every clock below 2 GHz.\<close>

lemma bridge_fits:
  assumes "0 < cpuHz" "cpuHz < 2000000000" "0 \<le> acc" "acc < cpuHz" "1 \<le> e" "e \<le> 65539"
  shows "1 \<le> bridge e acc cpuHz \<and> bridge e acc cpuHz \<le> 0x7fffffff"
proof -
  have "e * cpuHz \<le> 65539 * 2000000000" using assms by (intro mult_mono) auto
  then have "deadline_ok e cpuHz" using assms by (simp add: deadline_ok_def eclock_kHz_def)
  then show ?thesis using assms bridge_le_iff(2,3) by blast
qed

text \<open>The synchronisation stall: with the CPU clocked at more than twice the E clock, the
  stall target lies strictly in the future and inside the very next E cycle, as long as twice the
  product of the machine time with the E clock fits 64 bits.\<close>

theorem syncTarget_next_cycle:
  assumes "2 * eclock_kHz < cpuHz" "0 \<le> c" "2 * (c * eclock_kHz) + 5 * cpuHz < 2 ^ 63"
  shows "c < syncTarget c cpuHz \<and> cycleAt (syncTarget c cpuHz) cpuHz = cycleAt c cpuHz + 1"
proof -
  let ?k = eclock_kHz
  define q where "q = (c * ?k) div cpuHz"
  define t where "t = ((2 * q + 3) * cpuHz) div (2 * ?k)"
  have k: "0 < ?k" "0 < cpuHz" using assms(1) by (simp_all add: eclock_kHz_def)
  have ck: "0 \<le> c * ?k" "i64 (c * ?k) = c * ?k" using assms k by (simp_all add: eclock_kHz_def)
  have q: "cycleAt c cpuHz = q" "0 \<le> q"
    using ck k by (simp_all add: cycleAt_def q_def sdiv_nonneg pos_imp_zdiv_nonneg_iff)
  have qc: "q * cpuHz \<le> c * ?k" unfolding q_def using int_le_div_iff [OF k(2)] by blast
  have q3: "c * ?k < (q + 1) * cpuHz"
    using int_le_div_iff [OF k(2), of "q + 1" "c * ?k"] by (simp add: q_def not_le [symmetric])
  have m: "(2 * q + 3) * cpuHz = t * (2 * ?k) + (2 * q + 3) * cpuHz mod (2 * ?k)"
    unfolding t_def by (rule div_mult_mod_eq [symmetric])
  have b: "0 \<le> (2 * q + 3) * cpuHz mod (2 * ?k)" "(2 * q + 3) * cpuHz mod (2 * ?k) < 2 * ?k"
    using k by auto
  have lo: "(2 * q + 3) * cpuHz < (t + 1) * (2 * ?k)" and hi: "t * (2 * ?k) \<le> (2 * q + 3) * cpuHz"
    using m b by (auto simp: algebra_simps)
  have p: "(2 * q + 3) * cpuHz = 2 * (q * cpuHz) + 3 * cpuHz" by (simp add: algebra_simps)
  have "0 \<le> q * cpuHz" "q \<le> q * cpuHz" using q(2) k by (simp_all add: mult_ge_self mult_le_cancel_left1)
  then have i: "i64 (2 * q + 3) = 2 * q + 3" "i64 ((2 * q + 3) * cpuHz) = (2 * q + 3) * cpuHz" "0 \<le> (2 * q + 3) * cpuHz"
    using q(2) qc k assms(3) unfolding p by simp_all
  have s: "syncTarget c cpuHz = t + 1"
    using k q by (simp add: syncTarget_def t_def sdiv_nonneg i)
  have "c * ?k < (t + 1) * ?k" using lo q3 k by (simp add: algebra_simps)
  then have "c < t + 1" using k by (simp add: mult_less_cancel_right)
  moreover have "((t + 1) * ?k) div cpuHz = q + 1"
    by (rule int_div_pos_eq [where r = "(t + 1) * ?k - cpuHz * (q + 1)"])
      (use lo hi k assms(1) in \<open>auto simp: algebra_simps\<close>)
  moreover have "0 \<le> t" using k q(2) by (simp add: t_def pos_imp_zdiv_nonneg_iff)
  moreover have "0 \<le> (t + 1) * ?k" using \<open>0 \<le> t\<close> k by simp
  moreover have "(t + 1) * ?k < 2 ^ 63" using hi p qc k assms(1,3) by (simp add: algebra_simps)
  then have "i64 ((t + 1) * ?k) = (t + 1) * ?k" using \<open>0 \<le> (t + 1) * ?k\<close> by (intro i64_id) simp_all
  ultimately show ?thesis using k q(1) s by (simp add: cycleAt_def sdiv_nonneg)
qed

theorem syncTarget_next_cycle_witness:
  "100 < syncTarget 100 25000000 \<and> cycleAt (syncTarget 100 25000000) 25000000 = cycleAt 100 25000000 + 1"
  using syncTarget_next_cycle [of 25000000 100] by (simp add: eclock_kHz_def)

text \<open>Past that bound the grid is lost: at 25 MHz, \<open>6 * 10 ^ 12\<close> machine cycles (under three days) into a
  session, the target read from the wrapped product lies in the past, so the CPU is no longer
  stalled to the E clock.\<close>

lemma syncTarget_overflows: "syncTarget 6000000000000 25000000 < 6000000000000"
  by (simp add: syncTarget_def cycleAt_def eclock_kHz_def i64_def signed_divide_int_def signed_take_bit_int_eq_self)

end
