(* ===== verification/Mac_Rtc.thy ===== *)
theory Mac_Rtc
  imports Pom_Prelude
begin

text \<open>
  The real-time clock and parameter RAM chip (\<^verbatim>\<open>src/src/Rtc.h\<close>, \<^verbatim>\<open>src/src/Rtc.cpp\<close>).

  The chip hangs on three VIA port B lines and speaks a bit-serial protocol: a command byte,
  an optional second address byte for the extended commands, and a data byte in either
  direction, all moved on falling clock edges.  The record \<open>rtc\<close> holds the members of the class
  (the 256-byte array \<^verbatim>\<open>pram_\<close>, always indexed by a \<^verbatim>\<open>uint8_t\<close>, is a function on bytes;
  \<^verbatim>\<open>trace_\<close> only selects diagnostics and is left out).  The battery file is the list of bytes
  the file holds, \<open>None\<close> when it cannot be opened.

  What is shown: the bit-serial protocol refines register access (a whole transaction on the
  three lines has the effect of one \<^verbatim>\<open>readReg\<close> or \<^verbatim>\<open>writeReg\<close>, or of one extended access),
  what is written is read back, the write-protect latch guards clock and RAM on both doors, and
  the battery file round trip.
\<close>

unbundle bit_operations_syntax

section \<open>State\<close>

datatype rtc_phase = CMD | WRITE_DATA | READ_DATA | XP_ADDR | XP_WRITE | DONE

record rtc =
  rtc_seconds :: u32
  rtc_pram :: "u8 \<Rightarrow> u8"
  rtc_writeProtect :: bool
  rtc_phase :: rtc_phase
  rtc_bitCnt :: int
  rtc_shift :: u8
  rtc_cmd :: u8
  rtc_outData :: u8
  rtc_out :: u8
  rtc_xpAddr :: u8
  rtc_enabled :: bool
  rtc_lastClk :: bool
  rtc_appleTalkPram :: bool

definition rtc_power_on :: rtc where
  "rtc_power_on = \<lparr>rtc_seconds = 0, rtc_pram = (\<lambda>_. 0), rtc_writeProtect = False,
     rtc_phase = CMD, rtc_bitCnt = 0, rtc_shift = 0, rtc_cmd = 0, rtc_outData = 0, rtc_out = 1,
     rtc_xpAddr = 0, rtc_enabled = False, rtc_lastClk = False, rtc_appleTalkPram = False\<rparr>"

definition rtc_reset :: "rtc \<Rightarrow> rtc" where
  "rtc_reset r = r\<lparr>rtc_phase := CMD, rtc_bitCnt := 0, rtc_shift := 0, rtc_cmd := 0, rtc_out := 1,
     rtc_enabled := False, rtc_lastClk := False\<rparr>"

definition rtc_tickSecond :: "rtc \<Rightarrow> rtc" where
  "rtc_tickSecond r = r\<lparr>rtc_seconds := rtc_seconds r + 1\<rparr>"

definition rtc_setSeconds :: "u32 \<Rightarrow> rtc \<Rightarrow> rtc" where
  "rtc_setSeconds s r = r\<lparr>rtc_seconds := s\<rparr>"

definition rtc_setXpram :: "u8 \<Rightarrow> u8 \<Rightarrow> rtc \<Rightarrow> rtc" where
  "rtc_setXpram a v r = r\<lparr>rtc_pram := (rtc_pram r)(a := v)\<rparr>"

definition rtc_hadSig :: "(u8 \<Rightarrow> u8) \<Rightarrow> bool" where
  "rtc_hadSig p \<longleftrightarrow> p 0x0C = 0x4E \<and> p 0x0D = 0x75 \<and> p 0x0E = 0x4D \<and> p 0x0F = 0x63"

definition rtc_factoryDefaults :: "rtc \<Rightarrow> rtc" where
  "rtc_factoryDefaults r =
     (let p = (if rtc_hadSig (rtc_pram r) then rtc_pram r
               else (\<lambda>_. 0)(
                 0x0C := 0x4E, 0x0D := 0x75, 0x0E := 0x4D, 0x0F := 0x63, 0x01 := 0x80,
                 0x08 := 0x13, 0x09 := 0x88, 0x0A := 0x00, 0x0B := 0xCC,
                 0x10 := 0xA8, 0x11 := 0x00, 0x12 := 0x00, 0x13 := 0x22,
                 0x14 := 0xCC, 0x15 := 0x0A, 0x16 := 0xCC, 0x17 := 0x0A,
                 0x1C := 0x00, 0x1D := 0x02, 0x1E := 0x63, 0x1F := 0x00,
                 0x76 := 0x00, 0x77 := 0x01))
      in r\<lparr>rtc_pram := p(0x13 := if rtc_appleTalkPram r then 0x21 else 0x22)\<rparr>)"

text \<open>The battery file: short or missing is refused, otherwise the first 256 bytes are taken.\<close>

definition rtc_loadPram :: "u8 list option \<Rightarrow> rtc \<Rightarrow> rtc \<times> bool" where
  "rtc_loadPram file r =
     (case file of
        None \<Rightarrow> (r, False)
      | Some b \<Rightarrow> if length b < 256 then (r, False)
                  else (r\<lparr>rtc_pram := (\<lambda>a. b ! unat a)\<rparr>, True))"

definition rtc_savePram :: "rtc \<Rightarrow> u8 list" where
  "rtc_savePram r = map (\<lambda>n. rtc_pram r (of_nat n)) [0..<256]"


section \<open>Registers\<close>

definition rtc_addr :: "u8 \<Rightarrow> u8" where
  "rtc_addr cmd = drop_bit 2 cmd AND 0x1F"

definition rtc_readReg :: "u8 \<Rightarrow> rtc \<Rightarrow> u8" where
  "rtc_readReg cmd r =
     (let addr = rtc_addr cmd
      in if addr < 8 then ucast (drop_bit (8 * unat (addr AND 3)) (rtc_seconds r))
         else if addr < 12 then rtc_pram r addr
         else if addr < 16 then 0
         else rtc_pram r addr)"

definition rtc_writeReg :: "u8 \<Rightarrow> u8 \<Rightarrow> rtc \<Rightarrow> rtc" where
  "rtc_writeReg cmd v r =
     (let addr = rtc_addr cmd
      in if addr = 13 then r\<lparr>rtc_writeProtect := flag v 0x80\<rparr>
         else if addr = 12 then r
         else if rtc_writeProtect r then r
         else if addr < 8 then
           r\<lparr>rtc_seconds := (rtc_seconds r AND NOT (push_bit (8 * unat (addr AND 3)) 0xFF))
               OR push_bit (8 * unat (addr AND 3)) (ucast v)\<rparr>
         else if addr < 12 then r\<lparr>rtc_pram := (rtc_pram r)(addr := v)\<rparr>
         else if addr < 16 then r
         else r\<lparr>rtc_pram := (rtc_pram r)(addr := v)\<rparr>)"


section \<open>The serial engine\<close>

text \<open>A command, address or data byte is complete (the eighth bit has been shifted in).\<close>

definition rtc_byte_done :: "rtc \<Rightarrow> rtc" where
  "rtc_byte_done r =
     (case rtc_phase r of
        CMD \<Rightarrow>
          (let r = r\<lparr>rtc_cmd := rtc_shift r, rtc_shift := 0\<rparr>
           in if rtc_cmd r AND 0x78 = 0x38 then r\<lparr>rtc_phase := XP_ADDR\<rparr>
              else if flag (rtc_cmd r) 0x80 then
                r\<lparr>rtc_phase := READ_DATA, rtc_outData := rtc_readReg (rtc_cmd r) r, rtc_bitCnt := 8\<rparr>
              else r\<lparr>rtc_phase := WRITE_DATA\<rparr>)
      | XP_ADDR \<Rightarrow>
          (let r = r\<lparr>rtc_xpAddr := push_bit 5 (rtc_cmd r AND 7) OR drop_bit 2 (rtc_shift r AND 0x7C),
                     rtc_shift := 0\<rparr>
           in if flag (rtc_cmd r) 0x80 then
                r\<lparr>rtc_phase := READ_DATA, rtc_outData := rtc_pram r (rtc_xpAddr r), rtc_bitCnt := 8\<rparr>
              else r\<lparr>rtc_phase := XP_WRITE\<rparr>)
      | XP_WRITE \<Rightarrow>
          (let r = (if rtc_writeProtect r then r
                    else r\<lparr>rtc_pram := (rtc_pram r)(rtc_xpAddr r := rtc_shift r)\<rparr>)
           in r\<lparr>rtc_shift := 0, rtc_phase := DONE\<rparr>)
      | _ \<Rightarrow> (rtc_writeReg (rtc_cmd r) (rtc_shift r) r)\<lparr>rtc_shift := 0, rtc_phase := DONE\<rparr>)"

text \<open>A falling clock edge while the chip is selected.\<close>

definition rtc_edge :: "bool \<Rightarrow> rtc \<Rightarrow> rtc" where
  "rtc_edge dataOut r =
     (case rtc_phase r of
        READ_DATA \<Rightarrow>
          if rtc_bitCnt r > 0 then
            r\<lparr>rtc_bitCnt := rtc_bitCnt r - 1,
              rtc_out := drop_bit (nat (rtc_bitCnt r - 1)) (rtc_outData r) AND 1\<rparr>
          else r\<lparr>rtc_phase := DONE, rtc_out := 1\<rparr>
      | DONE \<Rightarrow> r
      | _ \<Rightarrow>
          (let r = r\<lparr>rtc_shift := push_bit 1 (rtc_shift r) OR b2w dataOut,
                     rtc_bitCnt := rtc_bitCnt r + 1\<rparr>
           in if rtc_bitCnt r < 8 then r else rtc_byte_done (r\<lparr>rtc_bitCnt := 0\<rparr>)))"

definition rtc_setLines :: "bool \<Rightarrow> bool \<Rightarrow> bool \<Rightarrow> rtc \<Rightarrow> rtc" where
  "rtc_setLines enable clock dataOut r =
     (if \<not> enable then
        r\<lparr>rtc_enabled := False, rtc_phase := CMD, rtc_bitCnt := 0, rtc_shift := 0, rtc_out := 1,
          rtc_lastClk := clock\<rparr>
      else
        let r = (if rtc_enabled r then r
                 else r\<lparr>rtc_enabled := True, rtc_phase := CMD, rtc_bitCnt := 0, rtc_shift := 0\<rparr>);
            falling = \<not> clock \<and> rtc_lastClk r;
            r = r\<lparr>rtc_lastClk := clock\<rparr>
        in if falling then rtc_edge dataOut r else r)"


section \<open>Transactions on the three lines\<close>

text \<open>What the host does: one clock pulse per bit, the byte most significant bit first; for a
  read it samples the data line after each falling edge.\<close>

definition rtc_pulse :: "rtc \<Rightarrow> bool \<Rightarrow> rtc" where
  "rtc_pulse r b = rtc_setLines True False b (rtc_setLines True True b r)"

definition rtc_send :: "u8 \<Rightarrow> rtc \<Rightarrow> rtc" where
  "rtc_send x r = foldl rtc_pulse r (byte_bits x)"

fun rtc_recv_bits :: "nat \<Rightarrow> rtc \<Rightarrow> bool list \<times> rtc" where
  "rtc_recv_bits 0 r = ([], r)"
| "rtc_recv_bits (Suc n) r =
     (let r1 = rtc_pulse r True; (bs, r2) = rtc_recv_bits n r1 in ((rtc_out r1 = 1) # bs, r2))"

definition rtc_recv :: "rtc \<Rightarrow> u8 \<times> rtc" where
  "rtc_recv r = (let (bs, r) = rtc_recv_bits 8 r in (foldl shift_in 0 bs, r))"

definition rtc_select :: "rtc \<Rightarrow> rtc" where
  "rtc_select r = rtc_setLines True False True (rtc_setLines False False True r)"

definition rtc_deselect :: "rtc \<Rightarrow> rtc" where
  "rtc_deselect = rtc_setLines False False True"

definition rtc_host_write :: "u8 \<Rightarrow> u8 \<Rightarrow> rtc \<Rightarrow> rtc" where
  "rtc_host_write cmd v r = rtc_deselect (rtc_send v (rtc_send cmd (rtc_select r)))"

definition rtc_host_read :: "u8 \<Rightarrow> rtc \<Rightarrow> u8 \<times> rtc" where
  "rtc_host_read cmd r =
     (let (x, r) = rtc_recv (rtc_send cmd (rtc_select r)) in (x, rtc_deselect r))"

definition rtc_host_xwrite :: "u8 \<Rightarrow> u8 \<Rightarrow> u8 \<Rightarrow> rtc \<Rightarrow> rtc" where
  "rtc_host_xwrite cmd a v r =
     rtc_deselect (rtc_send v (rtc_send a (rtc_send cmd (rtc_select r))))"

definition rtc_host_xread :: "u8 \<Rightarrow> u8 \<Rightarrow> rtc \<Rightarrow> u8 \<times> rtc" where
  "rtc_host_xread cmd a r =
     (let (x, r) = rtc_recv (rtc_send a (rtc_send cmd (rtc_select r))) in (x, rtc_deselect r))"


section \<open>The serial engine moves whole bytes\<close>

definition rtc_input_phase :: "rtc \<Rightarrow> bool" where
  "rtc_input_phase r \<longleftrightarrow> rtc_phase r \<in> {CMD, WRITE_DATA, XP_ADDR, XP_WRITE}"

text \<open>Ready to take a byte: selected, in an input phase, between two bytes.\<close>

definition rtc_ready :: "rtc \<Rightarrow> bool" where
  "rtc_ready r \<longleftrightarrow> rtc_enabled r \<and> rtc_input_phase r \<and> rtc_bitCnt r = 0 \<and> rtc_shift r = 0"

lemma rtc_pulse_edge:
  "rtc_enabled r \<Longrightarrow> rtc_pulse r b = rtc_edge b (r\<lparr>rtc_lastClk := False\<rparr>)"
  by (simp add: rtc_pulse_def rtc_setLines_def)

lemma rtc_edge_input:
  assumes "rtc_input_phase r"
  shows "rtc_edge b r =
    (let r = r\<lparr>rtc_shift := shift_in (rtc_shift r) b, rtc_bitCnt := rtc_bitCnt r + 1\<rparr>
     in if rtc_bitCnt r < 8 then r else rtc_byte_done (r\<lparr>rtc_bitCnt := 0\<rparr>))"
  using assms by (auto simp: rtc_input_phase_def rtc_edge_def shift_in_def Let_def)

lemma rtc_pulses:
  assumes "rtc_enabled r" "rtc_input_phase r" "rtc_bitCnt r + int (length bs) < 8" "bs \<noteq> []"
  shows "foldl rtc_pulse r bs = r\<lparr>rtc_lastClk := False, rtc_shift := foldl shift_in (rtc_shift r) bs,
    rtc_bitCnt := rtc_bitCnt r + int (length bs)\<rparr>"
  using assms
proof (induction bs rule: rev_induct)
  case (snoc b bs)
  show ?case
  proof (cases "bs = []")
    case True
    with snoc.prems show ?thesis
      by (simp add: rtc_pulse_edge rtc_edge_input rtc_input_phase_def Let_def)
  next
    case False
    with snoc have "foldl rtc_pulse r bs = r\<lparr>rtc_lastClk := False,
        rtc_shift := foldl shift_in (rtc_shift r) bs, rtc_bitCnt := rtc_bitCnt r + int (length bs)\<rparr>"
      by simp
    with snoc.prems show ?thesis
      by (simp add: rtc_pulse_edge rtc_edge_input rtc_input_phase_def Let_def)
  qed
qed simp

lemma rtc_send_ready:
  assumes "rtc_ready r"
  shows "rtc_send x r = rtc_byte_done (r\<lparr>rtc_lastClk := False, rtc_shift := x, rtc_bitCnt := 0\<rparr>)"
proof -
  let ?bs = "map (bit x) [7, 6, 5, 4, 3, 2, 1]"
  obtain bs where bs: "bs = ?bs" by blast
  have x: "byte_bits x = bs @ [bit x 0]" "length bs = 7" by (simp_all add: byte_bits_def bs)
  have r: "rtc_enabled r" "rtc_input_phase r" "rtc_bitCnt r = 0" "rtc_shift r = 0"
    using assms by (simp_all add: rtc_ready_def)
  have "foldl rtc_pulse r bs = r\<lparr>rtc_lastClk := False, rtc_shift := foldl shift_in 0 bs, rtc_bitCnt := 7\<rparr>"
    using rtc_pulses [of r bs] r x(2) by force
  then have "rtc_send x r = rtc_byte_done
      (r\<lparr>rtc_lastClk := False, rtc_shift := foldl shift_in 0 (bs @ [bit x 0]), rtc_bitCnt := 0\<rparr>)"
    unfolding rtc_send_def x foldl_append
    using r by (simp add: rtc_pulse_edge rtc_edge_input rtc_input_phase_def)
  then show ?thesis unfolding x(1) [symmetric] foldl_shift_in_byte .
qed

lemma rtc_ready_select: "rtc_ready (rtc_select r)"
  by (simp add: rtc_ready_def rtc_select_def rtc_setLines_def rtc_input_phase_def)

lemma drop_bit_and_1: "drop_bit n (x :: u8) AND 1 = (if bit x n then 1 else 0)"
  by (simp add: and_one_eq bit_iff_odd_drop_bit odd_iff_mod_2_eq_one even_iff_mod_2_eq_zero)

lemma rtc_recv_bits_eq:
  assumes "rtc_enabled r" "rtc_phase r = READ_DATA" "rtc_bitCnt r = int n"
  shows "fst (rtc_recv_bits n r) = map (bit (rtc_outData r)) (rev [0..<n]) \<and>
    (\<exists>c b k. snd (rtc_recv_bits n r) = r\<lparr>rtc_lastClk := c, rtc_bitCnt := k, rtc_out := b\<rparr>)"
  using assms
proof (induction n arbitrary: r)
  case 0
  have "snd (rtc_recv_bits 0 r) =
      r\<lparr>rtc_lastClk := rtc_lastClk r, rtc_bitCnt := rtc_bitCnt r, rtc_out := rtc_out r\<rparr>" by simp
  then have "\<exists>c b k. snd (rtc_recv_bits 0 r) = r\<lparr>rtc_lastClk := c, rtc_bitCnt := k, rtc_out := b\<rparr>"
    by blast
  then show ?case by (intro conjI) simp_all
next
  case (Suc n)
  let ?w = "r\<lparr>rtc_lastClk := False, rtc_bitCnt := int n,
      rtc_out := (if bit (rtc_outData r) n then 1 else 0)\<rparr>"
  have p: "rtc_pulse r True = ?w"
    using Suc.prems by (simp add: rtc_pulse_edge rtc_edge_def drop_bit_and_1)
  have w: "rtc_enabled ?w" "rtc_phase ?w = READ_DATA" "rtc_bitCnt ?w = int n" "rtc_outData ?w = rtc_outData r"
    "rtc_out ?w = 1 \<longleftrightarrow> bit (rtc_outData r) n"
    using Suc.prems by simp_all
  obtain c b k where ih: "snd (rtc_recv_bits n ?w) = ?w\<lparr>rtc_lastClk := c, rtc_bitCnt := k, rtc_out := b\<rparr>"
    "fst (rtc_recv_bits n ?w) = map (bit (rtc_outData r)) (rev [0..<n])"
    using Suc.IH [OF w(1,2,3)] w(4) by auto
  have "rtc_recv_bits (Suc n) r = (bit (rtc_outData r) n # fst (rtc_recv_bits n ?w), snd (rtc_recv_bits n ?w))"
    unfolding rtc_recv_bits.simps p Let_def w(5) by (simp add: case_prod_beta)
  then show ?case using ih by auto
qed

text \<open>The battery-backed contents: what a transaction is for.\<close>

record clock_chip =
  cc_time :: u32
  cc_ram :: "u8 \<Rightarrow> u8"
  cc_locked :: bool

definition rtc_chip :: "rtc \<Rightarrow> clock_chip" where
  "rtc_chip r = \<lparr>cc_time = rtc_seconds r, cc_ram = rtc_pram r, cc_locked = rtc_writeProtect r\<rparr>"

lemma rtc_chip_simps [simp]:
  "rtc_chip (r\<lparr>rtc_lastClk := a\<rparr>) = rtc_chip r" "rtc_chip (r\<lparr>rtc_shift := s\<rparr>) = rtc_chip r"
  "rtc_chip (r\<lparr>rtc_bitCnt := k\<rparr>) = rtc_chip r" "rtc_chip (r\<lparr>rtc_out := b\<rparr>) = rtc_chip r"
  "rtc_chip (r\<lparr>rtc_phase := p\<rparr>) = rtc_chip r" "rtc_chip (r\<lparr>rtc_cmd := s\<rparr>) = rtc_chip r"
  "rtc_chip (r\<lparr>rtc_enabled := e\<rparr>) = rtc_chip r" "rtc_chip (r\<lparr>rtc_outData := s\<rparr>) = rtc_chip r"
  "rtc_chip (r\<lparr>rtc_xpAddr := s\<rparr>) = rtc_chip r"
  by (simp_all add: rtc_chip_def)

lemma rtc_chip_lines [simp]: "rtc_chip (rtc_select r) = rtc_chip r" "rtc_chip (rtc_deselect r) = rtc_chip r"
  by (simp_all add: rtc_select_def rtc_deselect_def rtc_setLines_def)

lemma rtc_recv_eq:
  assumes "rtc_enabled r" "rtc_phase r = READ_DATA" "rtc_bitCnt r = 8"
  shows "fst (rtc_recv r) = rtc_outData r" "rtc_chip (snd (rtc_recv r)) = rtc_chip r"
proof -
  have "rev [0..<8] = [7, 6, 5, 4, 3, 2, 1, 0 :: nat]" by (simp add: upt_rec)
  then have "fst (rtc_recv_bits 8 r) = byte_bits (rtc_outData r)"
    using rtc_recv_bits_eq [of r 8] assms by (simp add: byte_bits_def)
  then show "fst (rtc_recv r) = rtc_outData r" by (simp add: rtc_recv_def case_prod_beta Let_def)
  obtain c b k where "snd (rtc_recv_bits 8 r) = r\<lparr>rtc_lastClk := c, rtc_bitCnt := k, rtc_out := b\<rparr>"
    using rtc_recv_bits_eq [of r 8] assms by auto
  then show "rtc_chip (snd (rtc_recv r)) = rtc_chip r" by (simp add: rtc_recv_def case_prod_beta Let_def)
qed

lemma rtc_readReg_chip: "rtc_chip r = rtc_chip q \<Longrightarrow> rtc_readReg cmd r = rtc_readReg cmd q"
  by (simp add: rtc_readReg_def rtc_chip_def Let_def)

lemma rtc_writeReg_chip:
  "rtc_chip r = rtc_chip q \<Longrightarrow> rtc_chip (rtc_writeReg cmd v r) = rtc_chip (rtc_writeReg cmd v q)"
  by (auto simp: rtc_writeReg_def rtc_chip_def Let_def)


section \<open>Transactions refine register access\<close>

definition rtc_cmd_sent :: "u8 \<Rightarrow> rtc \<Rightarrow> rtc" where
  "rtc_cmd_sent cmd r = rtc_send cmd (rtc_select r)"

lemma rtc_cmd_sent_eq:
  "rtc_cmd_sent cmd r = rtc_byte_done ((rtc_select r)\<lparr>rtc_lastClk := False, rtc_shift := cmd, rtc_bitCnt := 0\<rparr>)"
  by (simp add: rtc_cmd_sent_def rtc_send_ready rtc_ready_select)

lemma rtc_select_simps [simp]:
  "rtc_phase (rtc_select r) = CMD" "rtc_enabled (rtc_select r)"
  by (simp_all add: rtc_select_def rtc_setLines_def)

lemma rtc_host_write_chip:
  assumes "cmd AND 0x78 \<noteq> 0x38" "\<not> flag cmd 0x80"
  shows "rtc_chip (rtc_host_write cmd v r) = rtc_chip (rtc_writeReg cmd v r)"
proof -
  let ?q = "rtc_cmd_sent cmd r"
  have q: "rtc_ready ?q" "rtc_phase ?q = WRITE_DATA" "rtc_cmd ?q = cmd" "rtc_chip ?q = rtc_chip r"
    using assms by (simp_all add: rtc_cmd_sent_eq rtc_byte_done_def rtc_ready_def rtc_input_phase_def Let_def)
  have "rtc_chip (rtc_writeReg cmd v (?q\<lparr>rtc_lastClk := False, rtc_shift := v, rtc_bitCnt := 0\<rparr>)) =
      rtc_chip (rtc_writeReg cmd v r)"
    by (rule rtc_writeReg_chip) (simp add: q(4))
  then show ?thesis
    unfolding rtc_host_write_def rtc_cmd_sent_def [symmetric] rtc_send_ready [OF q(1)]
    by (simp add: rtc_byte_done_def q)
qed

lemma rtc_host_read_chip:
  assumes "cmd AND 0x78 \<noteq> 0x38" "flag cmd 0x80"
  shows "fst (rtc_host_read cmd r) = rtc_readReg cmd r" "rtc_chip (snd (rtc_host_read cmd r)) = rtc_chip r"
proof -
  let ?q = "rtc_cmd_sent cmd r"
  have c: "rtc_chip ?q = rtc_chip r"
    using assms by (simp add: rtc_cmd_sent_eq rtc_byte_done_def Let_def)
  have q: "rtc_enabled ?q" "rtc_phase ?q = READ_DATA" "rtc_bitCnt ?q = 8" "rtc_outData ?q = rtc_readReg cmd r"
    using assms by (auto simp: rtc_cmd_sent_eq rtc_byte_done_def Let_def intro: rtc_readReg_chip)
  show "fst (rtc_host_read cmd r) = rtc_readReg cmd r" "rtc_chip (snd (rtc_host_read cmd r)) = rtc_chip r"
    using rtc_recv_eq [OF q(1,2,3)] q(4) c
    by (simp_all add: rtc_host_read_def rtc_cmd_sent_def case_prod_beta)
qed

text \<open>The extended commands: the address is split over the command and the second byte.\<close>

definition rtc_xaddr :: "u8 \<Rightarrow> u8 \<Rightarrow> u8" where
  "rtc_xaddr cmd a = push_bit 5 (cmd AND 7) OR drop_bit 2 (a AND 0x7C)"

lemma rtc_xcmd_sent:
  assumes "cmd AND 0x78 = 0x38"
  shows "rtc_ready (rtc_cmd_sent cmd r)" "rtc_phase (rtc_cmd_sent cmd r) = XP_ADDR"
    "rtc_cmd (rtc_cmd_sent cmd r) = cmd" "rtc_chip (rtc_cmd_sent cmd r) = rtc_chip r"
  using assms by (simp_all add: rtc_cmd_sent_eq rtc_byte_done_def rtc_ready_def rtc_input_phase_def Let_def)

lemma rtc_host_xwrite_chip:
  assumes "cmd AND 0x78 = 0x38" "\<not> flag cmd 0x80"
  shows "rtc_chip (rtc_host_xwrite cmd a v r) =
    (if rtc_writeProtect r then rtc_chip r else rtc_chip (rtc_setXpram (rtc_xaddr cmd a) v r))"
proof -
  note s = rtc_xcmd_sent [OF assms(1), of r]
  let ?q = "rtc_send a (rtc_cmd_sent cmd r)"
  have q: "rtc_ready ?q" "rtc_phase ?q = XP_WRITE" "rtc_xpAddr ?q = rtc_xaddr cmd a" "rtc_chip ?q = rtc_chip r"
    using assms s
    by (simp_all add: rtc_send_ready rtc_byte_done_def rtc_ready_def rtc_input_phase_def rtc_xaddr_def Let_def)
  show ?thesis
    unfolding rtc_host_xwrite_def rtc_cmd_sent_def [symmetric] rtc_send_ready [OF q(1)]
    using q(3,4) by (simp add: rtc_byte_done_def q(2) rtc_chip_def rtc_setXpram_def rtc_deselect_def
        rtc_setLines_def)
qed

lemma rtc_host_xread_chip:
  assumes "cmd AND 0x78 = 0x38" "flag cmd 0x80"
  shows "fst (rtc_host_xread cmd a r) = rtc_pram r (rtc_xaddr cmd a)"
    "rtc_chip (snd (rtc_host_xread cmd a r)) = rtc_chip r"
proof -
  note s = rtc_xcmd_sent [OF assms(1), of r]
  let ?q = "rtc_send a (rtc_cmd_sent cmd r)"
  have "rtc_pram (rtc_cmd_sent cmd r) = rtc_pram r" using s(4) by (simp add: rtc_chip_def)
  then have q: "rtc_enabled ?q" "rtc_phase ?q = READ_DATA" "rtc_bitCnt ?q = 8"
    "rtc_outData ?q = rtc_pram r (rtc_xaddr cmd a)" "rtc_chip ?q = rtc_chip r"
    using assms s by (simp_all add: rtc_send_ready rtc_byte_done_def rtc_ready_def rtc_xaddr_def Let_def)
  show "fst (rtc_host_xread cmd a r) = rtc_pram r (rtc_xaddr cmd a)"
    "rtc_chip (snd (rtc_host_xread cmd a r)) = rtc_chip r"
    using rtc_recv_eq [OF q(1,2,3)] q(4,5)
    by (simp_all add: rtc_host_xread_def rtc_cmd_sent_def case_prod_beta)
qed

section \<open>Specification and properties\<close>

text \<open>What the chip promises its host, with no serial engine: a command is a read or write of a
  classic register or of an extended RAM byte.\<close>

datatype host_op = ReadReg u8 | WriteReg u8 u8 | ReadX u8 | WriteX u8 u8

definition cc_byte :: "u8 \<Rightarrow> u32 \<Rightarrow> u8" where
  "cc_byte k t = ucast (drop_bit (8 * unat k) t)"

definition cc_set_byte :: "u8 \<Rightarrow> u8 \<Rightarrow> u32 \<Rightarrow> u32" where
  "cc_set_byte k v t = (t AND NOT (push_bit (8 * unat k) 0xFF)) OR push_bit (8 * unat k) (ucast v)"

fun cc_exec :: "host_op \<Rightarrow> clock_chip \<Rightarrow> u8 \<times> clock_chip" where
  "cc_exec (ReadReg a) c =
     (if a < 8 then cc_byte (a AND 3) (cc_time c)
      else if a \<in> {12, 13, 14, 15} then 0 else cc_ram c a, c)"
| "cc_exec (WriteReg a v) c =
     (0, if a = 13 then c\<lparr>cc_locked := bit v 7\<rparr>
         else if cc_locked c \<or> a \<in> {12, 14, 15} then c
         else if a < 8 then c\<lparr>cc_time := cc_set_byte (a AND 3) v (cc_time c)\<rparr>
         else c\<lparr>cc_ram := (cc_ram c)(a := v)\<rparr>)"
| "cc_exec (ReadX a) c = (cc_ram c a, c)"
| "cc_exec (WriteX a v) c = (0, if cc_locked c then c else c\<lparr>cc_ram := (cc_ram c)(a := v)\<rparr>)"

text \<open>The same commands on the three lines, with the command bytes of the protocol.\<close>

fun rtc_exec :: "host_op \<Rightarrow> rtc \<Rightarrow> u8 \<times> rtc" where
  "rtc_exec (ReadReg a) r = rtc_host_read (0x81 OR push_bit 2 a) r"
| "rtc_exec (WriteReg a v) r = (0, rtc_host_write (0x01 OR push_bit 2 a) v r)"
| "rtc_exec (ReadX a) r = rtc_host_xread (0xB8 OR drop_bit 5 a) (push_bit 2 a AND 0x7C) r"
| "rtc_exec (WriteX a v) r = (0, rtc_host_xwrite (0x38 OR drop_bit 5 a) (push_bit 2 a AND 0x7C) v r)"

fun exec_all :: "(host_op \<Rightarrow> 's \<Rightarrow> u8 \<times> 's) \<Rightarrow> host_op list \<Rightarrow> 's \<Rightarrow> u8 list \<times> 's" where
  "exec_all f [] s = ([], s)"
| "exec_all f (x # xs) s = (let (v, s1) = f x s; (vs, s2) = exec_all f xs s1 in (v # vs, s2))"

text \<open>Classic register numbers are five bits; 14 and 15 share their command bytes with the
  extended sequence and cannot be addressed.\<close>

fun host_op_ok :: "host_op \<Rightarrow> bool" where
  "host_op_ok (ReadReg a) \<longleftrightarrow> a < 32 \<and> a \<noteq> 14 \<and> a \<noteq> 15"
| "host_op_ok (WriteReg a v) \<longleftrightarrow> a < 32 \<and> a \<noteq> 14 \<and> a \<noteq> 15"
| "host_op_ok _ \<longleftrightarrow> True"

lemma u8_lt_32: "(a :: u8) < 32 \<longleftrightarrow> \<not> bit a 5 \<and> \<not> bit a 6 \<and> \<not> bit a 7"
proof -
  have "a < 32 \<longleftrightarrow> take_bit 5 a = a"
    by (simp add: word_unat_eq_iff unsigned_take_bit_eq take_bit_nat_eq_self_iff word_less_nat_alt)
  also have "\<dots> \<longleftrightarrow> \<not> bit a 5 \<and> \<not> bit a 6 \<and> \<not> bit a 7"
    by (auto simp: u8_eq_iff bit_take_bit_iff)
  finally show ?thesis .
qed

lemma rtc_reg_cmd:
  assumes "(a :: u8) < 32" "a \<noteq> 14" "a \<noteq> 15"
  shows "(0x81 OR push_bit 2 a) AND 0x78 \<noteq> 0x38" "(0x01 OR push_bit 2 a) AND 0x78 \<noteq> 0x38"
    "flag (0x81 OR push_bit 2 a) 0x80" "\<not> flag (0x01 OR push_bit 2 a) 0x80"
    "rtc_addr (0x81 OR push_bit 2 a) = a" "rtc_addr (0x01 OR push_bit 2 a) = a"
  using assms unfolding u8_lt_32 rtc_addr_def
  by (auto simp: u8_eq_iff bit_simps flag_simps)

lemma rtc_x_cmd:
  fixes a :: u8
  shows "(0xB8 OR drop_bit 5 a) AND 0x78 = 0x38" "(0x38 OR drop_bit 5 a) AND 0x78 = 0x38"
    "flag (0xB8 OR drop_bit 5 a) 0x80" "\<not> flag (0x38 OR drop_bit 5 a) 0x80"
    "rtc_xaddr (0xB8 OR drop_bit 5 a) (push_bit 2 a AND 0x7C) = a"
    "rtc_xaddr (0x38 OR drop_bit 5 a) (push_bit 2 a AND 0x7C) = a"
  by (auto simp: rtc_xaddr_def u8_eq_iff bit_simps flag_simps)

lemma u8_12_16: "(a :: u8) < 16 \<Longrightarrow> \<not> a < 12 \<Longrightarrow> a \<in> {12, 13, 14, 15}"
proof -
  assume "a < 16" "\<not> a < 12"
  then have "unat a < 16" "12 \<le> unat a" by (simp_all add: word_less_nat_alt not_less)
  then have "unat a = 12 \<or> unat a = 13 \<or> unat a = 14 \<or> unat a = 15" by linarith
  then show ?thesis by (auto simp: word_unat_eq_iff)
qed

lemma rtc_readReg_cc: "rtc_readReg cmd r = fst (cc_exec (ReadReg (rtc_addr cmd)) (rtc_chip r))"
  using u8_12_16 [of "rtc_addr cmd"] by (auto simp: rtc_readReg_def rtc_chip_def cc_byte_def Let_def)

lemma rtc_writeReg_cc:
  "rtc_chip (rtc_writeReg cmd v r) = snd (cc_exec (WriteReg (rtc_addr cmd) v) (rtc_chip r))"
  using u8_12_16 [of "rtc_addr cmd"]
  by (auto simp: rtc_writeReg_def rtc_chip_def cc_set_byte_def Let_def flag_simps)

lemma rtc_setXpram_cc:
  "(if rtc_writeProtect r then rtc_chip r else rtc_chip (rtc_setXpram a v r)) =
    snd (cc_exec (WriteX a v) (rtc_chip r))"
  by (simp add: rtc_chip_def rtc_setXpram_def)

lemma rtc_exec_cc:
  assumes "host_op_ok x"
  shows "fst (rtc_exec x r) = fst (cc_exec x (rtc_chip r))"
    "rtc_chip (snd (rtc_exec x r)) = snd (cc_exec x (rtc_chip r))"
proof -
  have p: "rtc_pram r = cc_ram (rtc_chip r)" by (simp add: rtc_chip_def)
  show "fst (rtc_exec x r) = fst (cc_exec x (rtc_chip r))"
    using assms by (cases x) (simp_all add: rtc_host_read_chip rtc_host_xread_chip rtc_reg_cmd rtc_x_cmd
        rtc_readReg_cc p)
  show "rtc_chip (snd (rtc_exec x r)) = snd (cc_exec x (rtc_chip r))"
    using assms by (cases x) (simp_all add: rtc_host_read_chip rtc_host_xread_chip rtc_host_write_chip
        rtc_host_xwrite_chip rtc_reg_cmd rtc_x_cmd rtc_writeReg_cc rtc_setXpram_cc)
qed

text \<open>C21: the bit-serial protocol implements the register contract: any sequence of host
  transactions, clocked bit by bit over the enable, clock and data lines, returns the bytes and
  leaves the clock, the RAM and the lock exactly as the specification says.\<close>

theorem rtc_serial_refines:
  assumes "list_all host_op_ok ops"
  shows "fst (exec_all rtc_exec ops r) = fst (exec_all cc_exec ops (rtc_chip r)) \<and>
    rtc_chip (snd (exec_all rtc_exec ops r)) = snd (exec_all cc_exec ops (rtc_chip r))"
  using assms
  by (induction ops arbitrary: r) (simp_all add: rtc_exec_cc case_prod_beta Let_def)

theorem rtc_serial_refines_witness:
  "fst (exec_all rtc_exec [WriteX 0x8A 0x5C, ReadX 0x8A, WriteReg 13 0x80, WriteX 0x8A 1, ReadX 0x8A]
     rtc_power_on) = [0, 0x5C, 0, 0, 0x5C]"
  using rtc_serial_refines [of "[WriteX 0x8A 0x5C, ReadX 0x8A, WriteReg 13 0x80, WriteX 0x8A 1, ReadX 0x8A]"
      rtc_power_on]
  by (simp add: rtc_chip_def rtc_power_on_def)

text \<open>C38: with the write-protect latch set, no movement of the three lines changes the clock or
  any RAM byte, whatever transaction is in progress.\<close>

theorem rtc_write_protect:
  assumes "rtc_writeProtect r"
  shows "rtc_seconds (rtc_setLines e c d r) = rtc_seconds r \<and> rtc_pram (rtc_setLines e c d r) = rtc_pram r"
proof -
  have w: "rtc_seconds (rtc_writeReg x v q) = rtc_seconds q \<and> rtc_pram (rtc_writeReg x v q) = rtc_pram q"
    if "rtc_writeProtect q" for x v q
    using that by (simp add: rtc_writeReg_def Let_def)
  have b: "rtc_seconds (rtc_byte_done q) = rtc_seconds q \<and> rtc_pram (rtc_byte_done q) = rtc_pram q"
    if "rtc_writeProtect q" for q
    using that w [OF that] by (simp add: rtc_byte_done_def Let_def split: rtc_phase.split)
  have "rtc_seconds (rtc_edge d q) = rtc_seconds q \<and> rtc_pram (rtc_edge d q) = rtc_pram q"
    if "rtc_writeProtect q" for q
    using that by (simp add: rtc_edge_def Let_def b split: rtc_phase.split)
  then show ?thesis using assms by (simp add: rtc_setLines_def Let_def)
qed

theorem rtc_write_protect_witness:
  "rtc_pram (rtc_setLines True False True (rtc_power_on\<lparr>rtc_writeProtect := True\<rparr>)) 5 = 0"
  using rtc_write_protect [of "rtc_power_on\<lparr>rtc_writeProtect := True\<rparr>" True False True]
  by (simp add: rtc_power_on_def)

text \<open>The battery file: what one session saves the next one loads, byte for byte, and a
  missing or short file changes nothing.\<close>

theorem rtc_battery_roundtrip:
  "rtc_loadPram (Some (rtc_savePram r)) q = (q\<lparr>rtc_pram := rtc_pram r\<rparr>, True) \<and>
   rtc_loadPram None q = (q, False) \<and>
   (length b < 256 \<longrightarrow> rtc_loadPram (Some b) q = (q, False))"
proof -
  have "(\<lambda>a. rtc_savePram r ! unat a) = rtc_pram r"
    by (intro ext) (simp add: rtc_savePram_def unat_u8_less)
  then show ?thesis by (simp add: rtc_loadPram_def rtc_savePram_def)
qed

theorem rtc_battery_roundtrip_witness:
  "rtc_loadPram (Some [1, 2, 3]) rtc_power_on = (rtc_power_on, False)"
  using rtc_battery_roundtrip [where b = "[1, 2, 3]"] by simp

end
