(* ===== verification/Save_State.thy ===== *)
theory Save_State
  imports Pom_Prelude
begin

text \<open>
  The save-state archive (\<^verbatim>\<open>src/src/SaveState.h\<close>, \<^verbatim>\<open>src/src/SaveState.cpp\<close>): the writer and
  reader every device's \<^verbatim>\<open>visit\<close> method is instantiated with, the varint and zero-run codecs, the
  chunk container and the state fingerprint.

  The dispatch of the template \<^verbatim>\<open>one\<close> on the C++ type becomes recursion on a type description
  \<open>sav_ty\<close>: integers (enumerations and floating-point values travel as integers), booleans,
  fixed arrays, length-prefixed sequences, strings, the bulk buffers of \<^verbatim>\<open>blob\<close>, and records of
  fields for a class with a \<^verbatim>\<open>visit\<close> method.  The writer appends, so a write is the list of bytes
  it appends.  The reader is the record \<open>sav_reader\<close>.  \<^verbatim>\<open>std::size_t\<close> values are naturals and
  \<^verbatim>\<open>u64\<close> values are 64-bit words.

  What is shown: a value of any type reads back unchanged, with the cursor exactly behind it; no
  input can make the reader leave its buffer or recover from a failure; a truncated encoding is
  always refused; a chunk sequence is walked exactly.
\<close>

unbundle bit_operations_syntax

section \<open>Varints\<close>

function (sequential) write_varint :: "u64 \<Rightarrow> u8 list" where
  "write_varint v =
     (let byte = ucast (v AND 0x7F) :: u8; v = drop_bit 7 v
      in if v \<noteq> 0 then (byte OR 0x80) # write_varint v else [byte])"
  by pat_completeness auto

lemma drop_bit_7_less: "drop_bit 7 v \<noteq> 0 \<Longrightarrow> unat (drop_bit 7 (v :: u64)) < unat v"
proof -
  assume "drop_bit 7 v \<noteq> 0"
  then have "v \<noteq> 0" by (metis drop_bit_of_0)
  then have "0 < unat v" by (simp add: unat_gt_0)
  then show ?thesis by (simp add: drop_bit_eq_div unat_div)
qed

termination write_varint
  by (relation "measure unat") (auto simp: drop_bit_7_less)

declare write_varint.simps [simp del]

record sav_reader =
  rd_data :: "u8 list"
  rd_at :: nat
  rd_ok :: bool
  rd_reason :: string

definition mk_reader :: "u8 list \<Rightarrow> sav_reader" where
  "mk_reader bs = \<lparr>rd_data = bs, rd_at = 0, rd_ok = True, rd_reason = []\<rparr>"

definition rd_fail :: "sav_reader \<Rightarrow> sav_reader" where
  "rd_fail r = r\<lparr>rd_ok := False\<rparr>"

definition rd_fail_why :: "string \<Rightarrow> sav_reader \<Rightarrow> sav_reader" where
  "rd_fail_why why r =
     (if rd_ok r \<and> rd_reason r = [] then r\<lparr>rd_reason := why\<rparr> else r)\<lparr>rd_ok := False\<rparr>"

definition rd_remaining :: "sav_reader \<Rightarrow> nat" where
  "rd_remaining r = (if rd_ok r then length (rd_data r) - rd_at r else 0)"

definition rd_take :: "nat \<Rightarrow> sav_reader \<Rightarrow> bool \<times> sav_reader" where
  "rd_take n r =
     (if \<not> rd_ok r \<or> n > length (rd_data r) - rd_at r then (False, r\<lparr>rd_ok := False\<rparr>)
      else (True, r\<lparr>rd_at := rd_at r + n\<rparr>))"

text \<open>The bytes just taken.\<close>

definition rd_last :: "nat \<Rightarrow> sav_reader \<Rightarrow> u8 list" where
  "rd_last n r = take n (drop (rd_at r - n) (rd_data r))"

definition read_bytes :: "nat \<Rightarrow> sav_reader \<Rightarrow> u8 list \<times> sav_reader" where
  "read_bytes n r =
     (let (got, r) = rd_take n r in (if got then rd_last n r else replicate n 0, r))"

function (sequential) read_varint_from :: "nat \<Rightarrow> u64 \<Rightarrow> sav_reader \<Rightarrow> u64 \<times> sav_reader" where
  "read_varint_from shift v r =
     (if shift < 64 then
        let (got, r) = rd_take 1 r
        in if \<not> got then (0, r)
           else let byte = rd_data r ! (rd_at r - 1);
                    v = v OR push_bit shift (ucast (byte AND 0x7F))
                in if \<not> flag byte 0x80 then (v, r) else read_varint_from (shift + 7) v r
      else (0, rd_fail r))"
  by pat_completeness auto

termination read_varint_from
  by (relation "measure (\<lambda>(s, v, r). 64 - s)") auto

declare read_varint_from.simps [simp del]

definition read_varint :: "sav_reader \<Rightarrow> u64 \<times> sav_reader" where
  "read_varint = read_varint_from 0 0"


section \<open>Bulk buffers\<close>

definition kMinZeroRun :: nat where
  "kMinZeroRun = 4"

definition kMaxBlob :: nat where
  "kMaxBlob = 2 ^ 30"

definition zero_run :: "u8 list \<Rightarrow> nat" where
  "zero_run xs = length (takeWhile (\<lambda>x. x = 0) xs)"

text \<open>The length of the literal run at the head of the remaining buffer: it ends at a zero run
  worth breaking for.\<close>

function (sequential) literal_run :: "u8 list \<Rightarrow> nat" where
  "literal_run [] = 0"
| "literal_run (x # xs) =
     (if x = 0 then
        let k = zero_run (x # xs)
        in if k \<ge> kMinZeroRun then 0 else k + literal_run (drop k (x # xs))
      else 1 + literal_run xs)"
  by pat_completeness auto

termination literal_run
  by (relation "measure length") (auto simp: zero_run_def)

function (sequential) write_runs :: "u8 list \<Rightarrow> u8 list" where
  "write_runs [] = []"
| "write_runs (x # xs) =
     (let v = x # xs;
          z = zero_run v;
          v = drop z v;
          lit = literal_run v
      in write_varint (of_nat z) @ write_varint (of_nat lit) @ take lit v @ write_runs (drop lit v))"
  by pat_completeness auto

lemma literal_run_pos: "x \<noteq> 0 \<Longrightarrow> 0 < literal_run (x # xs)"
  by simp

lemma zero_run_pos: "0 < zero_run (0 # xs)"
  by (simp add: zero_run_def)

lemma runs_progress: "0 < zero_run (x # xs) \<or> 0 < literal_run (drop (zero_run (x # xs)) (x # xs))"
  by (cases "x = 0") (simp_all add: zero_run_def)

termination write_runs
proof (relation "measure length", goal_cases)
  case (2 x xs v z v' lit)
  have "0 < z \<or> 0 < lit" using 2 runs_progress by metis
  then show ?case using 2 by (auto simp: Suc_le_eq)
qed simp

declare write_runs.simps(2) [simp del] literal_run.simps(2) [simp del]

definition write_blob :: "u8 list \<Rightarrow> u8 list" where
  "write_blob v = write_varint (of_nat (length v)) @ write_runs v"

function (sequential) read_runs :: "nat \<Rightarrow> u8 list \<Rightarrow> sav_reader \<Rightarrow> u8 list \<times> sav_reader" where
  "read_runs tot out r =
     (if length out < tot then
        let (z, r) = read_varint r;
            (lit, r) = read_varint r
        in if \<not> rd_ok r then ([], r)
           else if unat z > tot - length out then ([], rd_fail r)
           else let out = out @ replicate (unat z) 0
                in if unat lit > tot - length out then ([], rd_fail r)
                   else let (bs, r) = read_bytes (unat lit) r;
                            out = out @ bs
                        in if \<not> rd_ok r then ([], r)
                           else if z = 0 \<and> lit = 0 then ([], rd_fail r)
                           else read_runs tot out r
      else (out, r))"
  by pat_completeness auto

lemma length_rd_last: "fst (rd_take n r) \<Longrightarrow> length (rd_last n (snd (rd_take n r))) = n"
  by (auto simp: rd_take_def rd_last_def split: if_splits)

lemma length_read_bytes [simp]: "length (fst (read_bytes n r)) = n"
  using length_rd_last [of n r] by (auto simp: read_bytes_def case_prod_beta)

termination read_runs
proof (relation "measure (\<lambda>(tot, out, r). tot - length out)", goal_cases)
  case (2 tot out r x z r1 y lit r2 out1 w bs r3 out2)
  have "length bs = unat lit" using 2 length_read_bytes by (metis fst_conv)
  moreover have "0 < unat z \<or> 0 < unat lit" using 2 by (auto simp: unat_gt_0)
  ultimately show ?case using 2 by auto
qed simp

declare read_runs.simps [simp del]

definition read_blob :: "sav_reader \<Rightarrow> u8 list \<times> sav_reader" where
  "read_blob r =
     (let (tot, r) = read_varint r
      in if \<not> rd_ok r \<or> unat tot > kMaxBlob then ([], rd_fail r)
         else read_runs (unat tot) [] r)"


section \<open>Values\<close>

datatype sav_ty =
    TInt nat bool            \<comment> \<open>width in bytes, signed\<close>
  | TBool
  | TArray nat sav_ty
  | TSeq sav_ty
  | TString
  | TBlob
  | TVisit "sav_ty list"

datatype sav_val = VInt int | VBool bool | VList "sav_val list" | VBytes "u8 list"

definition le_bytes :: "nat \<Rightarrow> nat \<Rightarrow> u8 list" where
  "le_bytes w v = map (\<lambda>i. of_nat (v div 256 ^ i)) [0..<w]"

fun le_value :: "u8 list \<Rightarrow> nat" where
  "le_value [] = 0"
| "le_value (b # bs) = unat b + 256 * le_value bs"

definition to_unsigned :: "nat \<Rightarrow> int \<Rightarrow> nat" where
  "to_unsigned w i = nat (i mod 256 ^ w)"

definition of_unsigned :: "nat \<Rightarrow> bool \<Rightarrow> nat \<Rightarrow> int" where
  "of_unsigned w sg n = (if sg \<and> 2 * n \<ge> 256 ^ w then int n - 256 ^ w else int n)"

text \<open>\<^verbatim>\<open>Writer::one\<close>; a value that does not have the type writes nothing (the template does not
  compile there).\<close>

fun write_one :: "sav_ty \<Rightarrow> sav_val \<Rightarrow> u8 list"
  and write_fields :: "sav_ty list \<Rightarrow> sav_val list \<Rightarrow> u8 list" where
  "write_one (TInt w sg) (VInt i) = le_bytes w (to_unsigned w i)"
| "write_one TBool (VBool b) = [if b then 1 else 0]"
| "write_one (TArray n t) (VList vs) = concat (map (write_one t) vs)"
| "write_one (TSeq t) (VList vs) = write_varint (of_nat (length vs)) @ concat (map (write_one t) vs)"
| "write_one TString (VBytes bs) = write_varint (of_nat (length bs)) @ bs"
| "write_one TBlob (VBytes bs) = write_blob bs"
| "write_one (TVisit ts) (VList vs) = write_fields ts vs"
| "write_one _ _ = []"
| "write_fields (t # ts) (v # vs) = write_one t v @ write_fields ts vs"
| "write_fields _ _ = []"

fun read_times :: "(sav_reader \<Rightarrow> 'a \<times> sav_reader) \<Rightarrow> nat \<Rightarrow> sav_reader \<Rightarrow> 'a list \<times> sav_reader" where
  "read_times f 0 r = ([], r)"
| "read_times f (Suc n) r = (let (v, r) = f r; (vs, r) = read_times f n r in (v # vs, r))"

definition read_int :: "nat \<Rightarrow> bool \<Rightarrow> sav_reader \<Rightarrow> int \<times> sav_reader" where
  "read_int w sg r =
     (let (got, r) = rd_take w r
      in if \<not> got then (0, r) else (of_unsigned w sg (le_value (rd_last w r)), r))"

definition read_string :: "sav_reader \<Rightarrow> u8 list \<times> sav_reader" where
  "read_string r =
     (let (n, r) = read_varint r
      in if \<not> rd_ok r \<or> unat n > rd_remaining r then ([], rd_fail r)
         else (take (unat n) (drop (rd_at r) (rd_data r)), snd (rd_take (unat n) r)))"

text \<open>\<^verbatim>\<open>Reader::one\<close>.\<close>

fun read_one :: "sav_ty \<Rightarrow> sav_reader \<Rightarrow> sav_val \<times> sav_reader"
  and read_fields :: "sav_ty list \<Rightarrow> sav_reader \<Rightarrow> sav_val list \<times> sav_reader" where
  "read_one (TInt w sg) r = (let (i, r) = read_int w sg r in (VInt i, r))"
| "read_one TBool r = (let (i, r) = read_int 1 False r in (VBool (i \<noteq> 0), r))"
| "read_one (TArray n t) r = (let (vs, r) = read_times (read_one t) n r in (VList vs, r))"
| "read_one (TSeq t) r =
     (let (n, r) = read_varint r
      in if \<not> rd_ok r \<or> unat n > rd_remaining r + 1 then (VList [], rd_fail r)
         else let (vs, r) = read_times (read_one t) (unat n) r in (VList vs, r))"
| "read_one TString r = (let (bs, r) = read_string r in (VBytes bs, r))"
| "read_one TBlob r = (let (bs, r) = read_blob r in (VBytes bs, r))"
| "read_one (TVisit ts) r = (let (vs, r) = read_fields ts r in (VList vs, r))"
| "read_fields [] r = ([], r)"
| "read_fields (t # ts) r = (let (v, r) = read_one t r; (vs, r) = read_fields ts r in (v # vs, r))"

text \<open>The values a C++ object of the type can hold.\<close>

fun sav_wt :: "sav_ty \<Rightarrow> sav_val \<Rightarrow> bool"
  and sav_wts :: "sav_ty list \<Rightarrow> sav_val list \<Rightarrow> bool" where
  "sav_wt (TInt w sg) (VInt i) \<longleftrightarrow> 0 < w \<and>
     (if sg then - (256 ^ w) \<le> 2 * i \<and> 2 * i < 256 ^ w else 0 \<le> i \<and> i < 256 ^ w)"
| "sav_wt TBool (VBool b) \<longleftrightarrow> True"
| "sav_wt (TArray n t) (VList vs) \<longleftrightarrow> length vs = n \<and> list_all (sav_wt t) vs"
| "sav_wt (TSeq t) (VList vs) \<longleftrightarrow> length vs < 2 ^ 64 \<and> list_all (sav_wt t) vs \<and>
     list_all (\<lambda>v. write_one t v \<noteq> []) vs"
| "sav_wt TString (VBytes bs) \<longleftrightarrow> length bs < 2 ^ 64"
| "sav_wt TBlob (VBytes bs) \<longleftrightarrow> length bs \<le> kMaxBlob"
| "sav_wt (TVisit ts) (VList vs) \<longleftrightarrow> sav_wts ts vs"
| "sav_wt _ _ \<longleftrightarrow> False"
| "sav_wts [] [] \<longleftrightarrow> True"
| "sav_wts (t # ts) (v # vs) \<longleftrightarrow> sav_wt t v \<and> sav_wts ts vs"
| "sav_wts _ _ \<longleftrightarrow> False"


section \<open>Chunks and fingerprint\<close>

text \<open>A chunk object appends the tag and a zero length, and patches the length when it dies: the
  body is what was appended in between.\<close>

definition chunk_open :: "u8 list \<Rightarrow> u8 list \<Rightarrow> u8 list \<times> nat" where
  "chunk_open b tag = (let b = b @ take 4 tag in (b @ replicate 4 0, length b))"

definition chunk_close :: "nat \<Rightarrow> u8 list \<Rightarrow> u8 list" where
  "chunk_close lenAt b =
     (let len = (length b - lenAt - 4) mod 2 ^ 32
      in fold (\<lambda>i b. b[lenAt + i := of_nat (len div 256 ^ i)]) [0..<4] b)"

definition write_chunk :: "u8 list \<Rightarrow> u8 list \<Rightarrow> u8 list \<Rightarrow> u8 list" where
  "write_chunk b tag body = (let (b, lenAt) = chunk_open b tag in chunk_close lenAt (b @ body))"

record chunk_view =
  ck_tag :: "u8 list"
  ck_data :: "u8 list"

text \<open>The cursor is the list of bytes still ahead.\<close>

definition nextChunk :: "u8 list \<Rightarrow> (chunk_view \<times> u8 list) option" where
  "nextChunk cur =
     (if length cur < 8 then None
      else let len = le_value (take 4 (drop 4 cur))
           in if length cur - 8 < len then None
              else Some (\<lparr>ck_tag = take 4 cur, ck_data = take len (drop 8 cur)\<rparr>, drop (8 + len) cur))"

definition sav_hash :: "u8 list \<Rightarrow> u64" where
  "sav_hash bs = foldl (\<lambda>h b. (h XOR ucast b) * 1099511628211) 1469598103934665603 bs"

definition sav_kVersion :: int where
  "sav_kVersion = 28"

definition sav_header_ty :: sav_ty where
  "sav_header_ty = TVisit [TInt 4 False, TInt 4 False, TInt 4 False, TInt 8 False, TInt 8 False, TInt 4 False]"


section \<open>What a reader sees\<close>

text \<open>The reader is sound and the next bytes are \<open>bs\<close>.\<close>

definition rd_sees :: "sav_reader \<Rightarrow> u8 list \<Rightarrow> bool" where
  "rd_sees r bs \<longleftrightarrow> rd_ok r \<and> (\<exists>post. drop (rd_at r) (rd_data r) = bs @ post) \<and> rd_at r \<le> length (rd_data r)"

definition rd_adv :: "nat \<Rightarrow> sav_reader \<Rightarrow> sav_reader" where
  "rd_adv n r = r\<lparr>rd_at := rd_at r + n\<rparr>"

lemma rd_adv_simps [simp]:
  "rd_ok (rd_adv n r) = rd_ok r" "rd_data (rd_adv n r) = rd_data r"
  "rd_at (rd_adv n r) = rd_at r + n" "rd_adv m (rd_adv n r) = rd_adv (n + m) r" "rd_adv 0 r = r"
  by (simp_all add: rd_adv_def)

lemma rd_sees_length: "rd_sees r bs \<Longrightarrow> length bs \<le> length (rd_data r) - rd_at r"
  by (metis rd_sees_def length_append length_drop le_add1)

lemma rd_sees_append:
  assumes "rd_sees r (a @ b)"
  shows "rd_sees r a" "rd_sees (rd_adv (length a) r) b"
proof -
  obtain post where p: "drop (rd_at r) (rd_data r) = a @ b @ post" and ok: "rd_ok r"
      and le: "rd_at r \<le> length (rd_data r)"
    using assms by (auto simp: rd_sees_def)
  show "rd_sees r a" using p ok le by (auto simp: rd_sees_def)
  have "drop (rd_at r + length a) (rd_data r) = drop (length a) (drop (rd_at r) (rd_data r))"
    by (simp add: add.commute)
  then have "drop (rd_at r + length a) (rd_data r) = b @ post" using p by simp
  moreover have "rd_at r + length a \<le> length (rd_data r)"
    using rd_sees_length [OF assms] le by simp
  ultimately show "rd_sees (rd_adv (length a) r) b" using ok by (auto simp: rd_sees_def)
qed

lemma rd_take_sees: "rd_sees r bs \<Longrightarrow> rd_take (length bs) r = (True, rd_adv (length bs) r)"
  using rd_sees_length [of r bs] by (auto simp: rd_take_def rd_adv_def rd_sees_def)

lemma rd_last_sees: "rd_sees r bs \<Longrightarrow> rd_last (length bs) (rd_adv (length bs) r) = bs"
  by (auto simp: rd_last_def rd_sees_def)

lemma read_bytes_sees: "rd_sees r bs \<Longrightarrow> read_bytes (length bs) r = (bs, rd_adv (length bs) r)"
  by (simp add: read_bytes_def rd_take_sees rd_last_sees)

lemma rd_byte_sees:
  assumes "rd_sees r (b # bs)"
  shows "rd_take 1 r = (True, rd_adv 1 r)" "rd_data r ! rd_at r = b"
proof -
  have "rd_sees r ([b] @ bs)" using assms by simp
  from rd_take_sees [OF rd_sees_append(1) [OF this]] show "rd_take 1 r = (True, rd_adv 1 r)" by simp
  obtain post where "drop (rd_at r) (rd_data r) = b # bs @ post" using assms by (auto simp: rd_sees_def)
  then show "rd_data r ! rd_at r = b"
    by (metis nth_via_drop)
qed


section \<open>Varint round trip\<close>

lemma take_bit_step:
  fixes v :: u64
  shows "take_bit s v OR push_bit s (ucast ((ucast (drop_bit s v AND 0x7F) :: u8) AND 0x7F)) = take_bit (s + 7) v"
  unfolding word_and_low_mask
  by (intro bit_word_eqI) (auto simp: bit_or_iff bit_take_bit_iff bit_push_bit_iff bit_unsigned_iff
      bit_drop_bit_eq dest: bit_imp_le_length)

lemma and_7F_or_80: "((ucast (w :: u64) :: u8) OR 0x80) AND 0x7F = (ucast w :: u8) AND 0x7F"
  by (simp add: u8_eq_iff bit_simps)

lemma varint_flag: "\<not> flag (ucast ((w :: u64) AND 0x7F) :: u8) 0x80" "flag ((x :: u8) OR 0x80) 0x80"
  unfolding word_and_low_mask by (simp_all add: flag_simps bit_simps)

lemma read_varint_from_write:
  assumes "rd_sees r (write_varint w)" "w = drop_bit s v" "acc = take_bit s v" "s < 64"
  shows "read_varint_from s acc r = (v, rd_adv (length (write_varint w)) r)"
  using assms
proof (induction w arbitrary: r s acc rule: write_varint.induct)
  case (1 w)
  let ?b = "ucast (w AND 0x7F) :: u8"
  have step: "acc OR push_bit s (ucast (?b AND 0x7F)) = take_bit (s + 7) v"
    using 1 by (simp only: take_bit_step)
  have d: "drop_bit 7 w = drop_bit (s + 7) v" using 1 by (simp add: ac_simps)
  show ?case
  proof (cases "drop_bit 7 w = 0")
    case True
    then have w: "write_varint w = [?b]" by (subst write_varint.simps) simp
    have "take_bit (s + 7) v = v"
      using bits_ident [of "s + 7" v] True d by simp
    moreover have "rd_sees r [?b]" using 1(2) w by simp
    ultimately show ?thesis
      using 1(5) rd_byte_sees [of r ?b "[]"] step
      by (subst read_varint_from.simps) (simp add: w varint_flag)
  next
    case False
    then have w: "write_varint w = (?b OR 0x80) # write_varint (drop_bit 7 w)"
      by (subst write_varint.simps) simp
    have s: "s + 7 < 64"
    proof (rule ccontr)
      assume "\<not> s + 7 < 64"
      then have "drop_bit (s + 7) v = 0" by (intro bit_word_eqI) (auto simp: bit_drop_bit_eq)
      with False d show False by simp
    qed
    have sees: "rd_sees (rd_adv 1 r) (write_varint (drop_bit 7 w))"
      using rd_sees_append(2) [of r "[?b OR 0x80]"] 1 w by simp
    have "read_varint_from (s + 7) (take_bit (s + 7) v) (rd_adv 1 r) =
        (v, rd_adv (length (write_varint (drop_bit 7 w))) (rd_adv 1 r))"
      by (rule 1(1) [OF refl refl False sees d refl s])
    moreover have "rd_sees r ((?b OR 0x80) # write_varint (drop_bit 7 w))" using 1(2) w by simp
    ultimately show ?thesis
      using 1(5) rd_byte_sees [of r "?b OR 0x80" "write_varint (drop_bit 7 w)"] step
      by (subst read_varint_from.simps) (simp add: w varint_flag and_7F_or_80)
  qed
qed

lemma read_varint_write:
  "rd_sees r (write_varint v) \<Longrightarrow> read_varint r = (v, rd_adv (length (write_varint v)) r)"
  by (simp add: read_varint_def read_varint_from_write [of r v 0 v])


section \<open>Round trips of the other encodings\<close>

lemma unat_of_nat_u64: "n < 2 ^ 64 \<Longrightarrow> unat (of_nat n :: u64) = n"
  by (simp add: unat_of_nat take_bit_nat_eq_self_iff)

lemma le_bytes_Suc: "le_bytes (Suc w) v = of_nat v # le_bytes w (v div 256)"
proof -
  have "[0..<Suc w] = 0 # map Suc [0..<w]" by (simp add: map_Suc_upt upt_conv_Cons)
  then show ?thesis by (simp add: le_bytes_def div_mult2_eq comp_def)
qed

lemma length_le_bytes [simp]: "length (le_bytes w v) = w"
  by (simp add: le_bytes_def)

lemma le_value_le_bytes: "le_value (le_bytes w v) = v mod 256 ^ w"
proof (induction w arbitrary: v)
  case 0
  then show ?case by (simp add: le_bytes_def)
next
  case (Suc w)
  have "unat (of_nat v :: u8) = v mod 256" by (simp add: unat_of_nat take_bit_eq_mod)
  then show ?case by (simp add: le_bytes_Suc Suc mod_mult2_eq)
qed

lemma of_unsigned_to_unsigned:
  assumes "sav_wt (TInt w sg) (VInt i)"
  shows "of_unsigned w sg (to_unsigned w i mod 256 ^ w) = i"
proof -
  let ?M = "256 ^ w :: int"
  have pos: "0 < ?M" by simp
  have u: "int (to_unsigned w i mod 256 ^ w) = i mod ?M"
    by (simp add: to_unsigned_def zmod_int)
  have ge: "2 * (to_unsigned w i mod 256 ^ w) \<ge> 256 ^ w \<longleftrightarrow> 2 * (i mod ?M) \<ge> ?M"
    unfolding u [symmetric] using of_nat_le_iff [of "256 ^ w" "2 * (to_unsigned w i mod 256 ^ w)", where 'a = int]
    by simp
  show ?thesis
  proof (cases "0 \<le> i")
    case True
    then have "i mod ?M = i" using assms by (auto split: if_splits intro!: mod_pos_pos_trivial)
    then show ?thesis using assms True ge by (auto simp: of_unsigned_def u)
  next
    case False
    then have sg: "sg" "- ?M \<le> 2 * i" using assms by (auto split: if_splits)
    then have "i mod ?M = i + ?M" using False by (intro int_mod_pos_eq [of _ _ "- 1"]) auto
    then show ?thesis using sg ge False by (auto simp: of_unsigned_def u)
  qed
qed

lemma read_int_write:
  assumes "rd_sees r (le_bytes w v)"
  shows "read_int w sg r = (of_unsigned w sg (v mod 256 ^ w), rd_adv w r)"
  using rd_take_sees [OF assms] rd_last_sees [OF assms] by (simp add: read_int_def le_value_le_bytes)

lemma zero_run_le: "zero_run xs \<le> length xs"
  by (simp add: zero_run_def length_takeWhile_le)

lemma zero_run_split: "xs = replicate (zero_run xs) 0 @ drop (zero_run xs) xs"
proof -
  have "takeWhile (\<lambda>x. x = 0) xs = replicate (zero_run xs) 0"
    unfolding zero_run_def by (rule replicate_eqI) (auto dest: set_takeWhileD)
  then show ?thesis
    by (metis append_take_drop_id zero_run_def takeWhile_eq_take)
qed

lemma literal_run_le: "literal_run xs \<le> length xs"
proof (induction xs rule: literal_run.induct)
  case (2 x xs)
  show ?case
  proof (cases "x = 0 \<and> zero_run (x # xs) < kMinZeroRun")
    case True
    then have "x = 0" "\<not> kMinZeroRun \<le> zero_run (x # xs)" by auto
    with 2(1) [OF this(1) refl this(2)] show ?thesis
      using zero_run_le [of "x # xs"] by (simp add: literal_run.simps(2) Let_def)
  next
    case False
    then show ?thesis using 2(2) by (auto simp: literal_run.simps(2) Let_def)
  qed
qed simp

lemma read_runs_write:
  assumes "rd_sees r (write_runs xs)" "tot = length out + length xs" "length xs < 2 ^ 64"
  shows "read_runs tot out r = (out @ xs, rd_adv (length (write_runs xs)) r)"
  using assms
proof (induction xs arbitrary: out r rule: write_runs.induct)
  case 1
  then show ?case by (subst read_runs.simps) simp
next
  case (2 x xs)
  let ?v = "x # xs"
  let ?z = "zero_run ?v"
  let ?v1 = "drop ?z ?v"
  let ?lit = "literal_run ?v1"
  let ?wz = "write_varint (of_nat ?z)" and ?wl = "write_varint (of_nat ?lit)"
  have w: "write_runs ?v = ?wz @ ?wl @ take ?lit ?v1 @ write_runs (drop ?lit ?v1)"
    by (simp add: write_runs.simps(2) Let_def)
  have z: "?z \<le> length ?v" by (rule zero_run_le)
  have l: "?lit \<le> length ?v1" by (rule literal_run_le)
  have bounds: "?z < 2 ^ 64" "?lit < 2 ^ 64" "length (drop ?lit ?v1) < 2 ^ 64"
    using z l 2(4) by auto
  note s1 = rd_sees_append [OF 2(2) [unfolded w]]
  note s2 = rd_sees_append [OF s1(2)]
  note s3 = rd_sees_append [OF s2(2)]
  have lt: "length (take ?lit ?v1) = ?lit" using l by simp
  let ?r3 = "rd_adv (length ?wz + length ?wl + ?lit) r"
  have b: "read_bytes ?lit (rd_adv (length ?wz + length ?wl) r) = (take ?lit ?v1, ?r3)"
    using read_bytes_sees [OF s3(1)] lt by simp
  have ok: "rd_ok r" using 2(2) by (simp add: rd_sees_def)
  have np: "\<not> (of_nat ?z = (0 :: u64) \<and> of_nat ?lit = (0 :: u64))"
    using runs_progress [of x xs] bounds unat_of_nat_u64 by (metis less_numeral_extra(3) unat_0)
  have "read_runs tot (out @ replicate ?z 0 @ take ?lit ?v1) ?r3 =
      ((out @ replicate ?z 0 @ take ?lit ?v1) @ drop ?lit ?v1,
       rd_adv (length (write_runs (drop ?lit ?v1))) ?r3)"
    using 2(1) [OF refl refl refl refl, of ?r3 "out @ replicate ?z 0 @ take ?lit ?v1"] s3(2) 2(3) bounds z l lt
    by (simp add: add.assoc)
  moreover have "read_runs tot out r = read_runs tot (out @ replicate ?z 0 @ take ?lit ?v1) ?r3"
    using 2(3) z l np read_varint_write [OF s1(1)] read_varint_write [OF s2(1)] b ok bounds
    by (subst read_runs.simps) (auto simp: unat_of_nat_u64)
  moreover have "replicate ?z 0 @ take ?lit ?v1 @ drop ?lit ?v1 = ?v"
    unfolding append_take_drop_id by (rule zero_run_split [symmetric])
  ultimately show ?case unfolding w length_append lt by (simp add: add.assoc)
qed

lemma read_blob_write:
  assumes "rd_sees r (write_blob xs)" "length xs \<le> kMaxBlob"
  shows "read_blob r = (xs, rd_adv (length (write_blob xs)) r)"
proof -
  have n: "length xs < 2 ^ 64" using assms(2) by (simp add: kMaxBlob_def)
  note s = rd_sees_append [OF assms(1) [unfolded write_blob_def]]
  have "rd_ok r" using assms(1) by (simp add: rd_sees_def)
  then show ?thesis
    using read_varint_write [OF s(1)] read_runs_write [OF s(2), of "length xs" "[]"] n assms(2)
    by (simp add: read_blob_def write_blob_def unat_of_nat_u64)
qed

lemma read_times_write:
  assumes "\<And>v r. v \<in> set vs \<Longrightarrow> rd_sees r (enc v) \<Longrightarrow> f r = (v, rd_adv (length (enc v)) r)"
    and "rd_sees r (concat (map enc vs))"
  shows "read_times f (length vs) r = (vs, rd_adv (length (concat (map enc vs))) r)"
  using assms
proof (induction vs arbitrary: r)
  case (Cons v vs)
  note s = rd_sees_append [OF Cons.prems(2) [unfolded list.map concat.simps]]
  have "f r = (v, rd_adv (length (enc v)) r)" using Cons.prems(1) s(1) by simp
  moreover have "read_times f (length vs) (rd_adv (length (enc v)) r) =
      (vs, rd_adv (length (concat (map enc vs))) (rd_adv (length (enc v)) r))"
    by (rule Cons.IH) (use Cons.prems(1) s(2) in auto)
  ultimately show ?case by simp
qed simp

lemma length_concat_ge: "list_all (\<lambda>v. enc v \<noteq> []) vs \<Longrightarrow> length vs \<le> length (concat (map enc vs))"
  by (induction vs) (auto simp: Suc_le_eq add_strict_mono intro: add_less_le_mono simp flip: length_greater_0_conv)

lemma read_string_write:
  assumes "rd_sees r (write_varint (of_nat (length bs)) @ bs)" "length bs < 2 ^ 64"
  shows "read_string r = (bs, rd_adv (length (write_varint (of_nat (length bs)) @ bs)) r)"
proof -
  note s = rd_sees_append [OF assms(1)]
  have "rd_ok r" using assms(1) by (simp add: rd_sees_def)
  moreover have "take (length bs) (drop (rd_at r + length (write_varint (of_nat (length bs)))) (rd_data r)) = bs"
    using s(2) by (auto simp: rd_sees_def)
  ultimately show ?thesis
    using read_varint_write [OF s(1)] rd_sees_length [OF s(2)] rd_take_sees [OF s(2)] assms(2)
    by (simp add: read_string_def unat_of_nat_u64 rd_remaining_def)
qed

lemma read_seq_write:
  assumes "\<And>v r. v \<in> set vs \<Longrightarrow> rd_sees r (write_one t v) \<Longrightarrow>
      read_one t r = (v, rd_adv (length (write_one t v)) r)"
    and "rd_sees r (write_one (TSeq t) (VList vs))" "sav_wt (TSeq t) (VList vs)"
  shows "read_one (TSeq t) r = (VList vs, rd_adv (length (write_one (TSeq t) (VList vs))) r)"
proof -
  note s = rd_sees_append [OF assms(2) [unfolded write_one.simps]]
  have "rd_ok r" using assms(2) by (simp add: rd_sees_def)
  moreover have "length vs \<le> rd_remaining (rd_adv (length (write_varint (of_nat (length vs)))) r)"
    using length_concat_ge [of "write_one t" vs] rd_sees_length [OF s(2)] assms(3) \<open>rd_ok r\<close>
    by (simp add: rd_remaining_def)
  moreover have "unat (of_nat (length vs) :: u64) = length vs" using assms(3) by (simp add: unat_of_nat_u64)
  ultimately show ?thesis
    using read_varint_write [OF s(1)] read_times_write [of vs "write_one t" "read_one t", OF assms(1) s(2)]
    by simp
qed

lemma read_one_write_one:
  "sav_wt t v \<Longrightarrow> rd_sees r (write_one t v) \<Longrightarrow> read_one t r = (v, rd_adv (length (write_one t v)) r)"
  "sav_wts ts vs \<Longrightarrow> rd_sees r (write_fields ts vs) \<Longrightarrow>
     read_fields ts r = (vs, rd_adv (length (write_fields ts vs)) r)"
proof (induction t v and ts vs arbitrary: r and r rule: write_one_write_fields.induct)
  case (1 w sg i)
  then show ?case
    using read_int_write [of r w "to_unsigned w i" sg] of_unsigned_to_unsigned [of w sg i] by simp
next
  case (2 b)
  have "le_bytes 1 (if b then 1 else 0) = [if b then 1 else 0]" by (simp add: le_bytes_def)
  then have "read_int 1 False r = (if b then 1 else 0, rd_adv 1 r)"
    using 2 read_int_write [of r 1 "if b then 1 else 0" False] by (simp add: of_unsigned_def)
  then show ?case by simp
next
  case (3 n t vs)
  then show ?case
    using read_times_write [of vs "write_one t" "read_one t" r] by (simp add: list_all_iff)
next
  case (4 t vs)
  then show ?case by (intro read_seq_write) (auto simp: list_all_iff)
next
  case (5 bs)
  then show ?case using read_string_write [of r bs] by simp
next
  case (6 bs)
  then show ?case using read_blob_write [of r bs] by simp
next
  case (9 t ts v vs)
  note s = rd_sees_append [OF 9(4) [unfolded write_fields.simps]]
  show ?case using 9(1) [OF _ s(1)] 9(2) [OF _ s(2)] 9(3) by simp
qed (auto elim: sav_wts.elims(2))


section \<open>Bounds-checked reading\<close>

definition rd_inv :: "sav_reader \<Rightarrow> bool" where
  "rd_inv r \<longleftrightarrow> rd_at r \<le> length (rd_data r)"

text \<open>More bytes behind the buffer.\<close>

definition rd_ext :: "u8 list \<Rightarrow> sav_reader \<Rightarrow> sav_reader" where
  "rd_ext c r = r\<lparr>rd_data := rd_data r @ c\<rparr>"

lemma rd_ext_simps [simp]:
  "rd_ok (rd_ext c r) = rd_ok r" "rd_at (rd_ext c r) = rd_at r" "rd_data (rd_ext c r) = rd_data r @ c"
  by (simp_all add: rd_ext_def)

lemma rd_fail_simps [simp]:
  "\<not> rd_ok (rd_fail r)" "rd_at (rd_fail r) = rd_at r" "rd_data (rd_fail r) = rd_data r"
  by (simp_all add: rd_fail_def)

text \<open>The contract of every operation of the reader: it stays inside its buffer, never turns a
  failed reader into a good one, and when it succeeds it has not looked behind the bytes it
  consumed.  The clients' conclusion: the encoding of a value cut short anywhere is refused.\<close>

locale reader_action =
  fixes act :: "sav_reader \<Rightarrow> 'a \<times> sav_reader"
  assumes keeps: "rd_inv r \<Longrightarrow> rd_inv (snd (act r)) \<and> rd_data (snd (act r)) = rd_data r \<and>
      rd_at r \<le> rd_at (snd (act r)) \<and> (rd_ok (snd (act r)) \<longrightarrow> rd_ok r)"
    and extends: "rd_inv r \<Longrightarrow> rd_ok (snd (act r)) \<Longrightarrow>
      act (rd_ext c r) = (fst (act r), rd_ext c (snd (act r)))"
begin

lemma truncated_fails:
  assumes "act (mk_reader (p @ c)) = (v, rd_adv (length (p @ c)) (mk_reader (p @ c)))" "c \<noteq> []"
  shows "\<not> rd_ok (snd (act (mk_reader p)))"
proof
  assume ok: "rd_ok (snd (act (mk_reader p)))"
  have inv: "rd_inv (mk_reader p)" by (simp add: rd_inv_def mk_reader_def)
  have "mk_reader (p @ c) = rd_ext c (mk_reader p)" by (simp add: mk_reader_def rd_ext_def)
  then have "rd_at (snd (act (mk_reader (p @ c)))) = rd_at (snd (act (mk_reader p)))"
    using extends [OF inv ok, of c] by simp
  then have "length (p @ c) = rd_at (snd (act (mk_reader p)))"
    using assms(1) by (simp add: mk_reader_def)
  moreover have "rd_at (snd (act (mk_reader p))) \<le> length p"
    using keeps [OF inv] by (auto simp: rd_inv_def mk_reader_def)
  moreover have "0 < length c" using assms(2) by simp
  ultimately show False by simp
qed

end

lemma reader_action_bind:
  assumes "reader_action f" "\<And>x. reader_action (g x)"
  shows "reader_action (\<lambda>r. case f r of (x, r1) \<Rightarrow> g x r1)"
proof (unfold_locales, goal_cases)
  case (1 r)
  show ?case
    using reader_action.keeps [OF assms(1) 1]
      reader_action.keeps [OF assms(2), of "snd (f r)" "fst (f r)"] by (auto simp: case_prod_beta)
next
  case (2 r c)
  let ?r1 = "snd (f r)"
  have inv: "rd_inv ?r1" using reader_action.keeps [OF assms(1) 2(1)] by simp
  have ok: "rd_ok (snd (g (fst (f r)) ?r1))" using 2(2) by (simp add: case_prod_beta)
  then have "rd_ok ?r1" using reader_action.keeps [OF assms(2) inv] by blast
  then show ?case
    using reader_action.extends [OF assms(1) 2(1)] reader_action.extends [OF assms(2) inv ok]
    by (simp add: case_prod_beta)
qed

lemma reader_action_return [simp]: "reader_action (\<lambda>r. (x, r))"
  by unfold_locales simp_all

lemma reader_action_map:
  "reader_action f \<Longrightarrow> reader_action (\<lambda>r. case f r of (x, r1) \<Rightarrow> (h x, r1))"
  by (rule reader_action_bind) simp_all

text \<open>A guard that refuses, and that a longer buffer does not make stricter.\<close>

lemma reader_action_guard:
  assumes "reader_action f" "\<And>r c. rd_inv r \<Longrightarrow> b r \<Longrightarrow> b (rd_ext c r)"
  shows "reader_action (\<lambda>r. if rd_ok r \<and> b r then f r else (x, rd_fail r))"
proof (unfold_locales, goal_cases)
  case (1 r)
  then show ?case using reader_action.keeps [OF assms(1) 1] by (auto simp: rd_inv_def)
next
  case (2 r c)
  then show ?case using reader_action.extends [OF assms(1) 2(1)] assms(2) by (auto split: if_splits)
qed

lemma reader_action_take: "reader_action (rd_take n)"
  by unfold_locales (auto simp: rd_take_def rd_inv_def rd_ext_def)

lemma rd_last_ext: "rd_inv r \<Longrightarrow> n \<le> rd_at r \<Longrightarrow> rd_last n (rd_ext c r) = rd_last n r"
  by (simp add: rd_last_def rd_inv_def)

lemma reader_action_take_then:
  assumes "\<And>r c. rd_inv r \<Longrightarrow> n \<le> rd_at r \<Longrightarrow> h (rd_ext c r) = h r"
  shows "reader_action (\<lambda>r. case rd_take n r of (got, r1) \<Rightarrow> (if got then h r1 else x, r1))"
proof (unfold_locales, goal_cases)
  case (1 r)
  then show ?case using reader_action.keeps [OF reader_action_take 1] by (simp add: case_prod_beta)
next
  case (2 r c)
  then have ok: "rd_ok (snd (rd_take n r))" by (simp add: case_prod_beta)
  then have t: "rd_take n r = (True, rd_adv n r)"
    by (auto simp: rd_take_def rd_adv_def split: if_splits)
  have "rd_inv (rd_adv n r)" using reader_action.keeps [OF reader_action_take 2(1), of n] t by simp
  then have "h (rd_ext c (rd_adv n r)) = h (rd_adv n r)" by (rule assms) simp
  moreover have "rd_take n (rd_ext c r) = (True, rd_ext c (rd_adv n r))"
    using reader_action.extends [OF reader_action_take 2(1) ok, of c] t by simp
  ultimately show ?case using t by simp
qed

lemma reader_action_bytes: "reader_action (read_bytes n)"
  using reader_action_take_then [of n "rd_last n" "replicate n 0"] rd_last_ext
  by (simp add: read_bytes_def [abs_def] Let_def)

lemma reader_action_int: "reader_action (read_int w sg)"
proof -
  have "read_int w sg = (\<lambda>r. case rd_take w r of (got, r1) \<Rightarrow>
      (if got then of_unsigned w sg (le_value (rd_last w r1)) else 0, r1))"
    by (auto simp: read_int_def Let_def fun_eq_iff split: prod.split)
  moreover have "reader_action (\<lambda>r. case rd_take w r of (got, r1) \<Rightarrow>
      (if got then of_unsigned w sg (le_value (rd_last w r1)) else 0, r1))"
    by (rule reader_action_take_then) (simp add: rd_last_ext)
  ultimately show ?thesis by simp
qed

lemma reader_action_varint_from: "reader_action (read_varint_from s v)"
proof (induction "64 - s" arbitrary: s v rule: less_induct)
  case less
  show ?case
  proof (cases "s < 64")
    case True
    let ?byte = "\<lambda>r. rd_data r ! (rd_at r - 1)"
    let ?f = "\<lambda>r. case rd_take 1 r of (got, r1) \<Rightarrow> (if got then Some (?byte r1) else None, r1)"
    let ?g = "\<lambda>x. case x of None \<Rightarrow> (\<lambda>r. (0, r)) | Some b \<Rightarrow>
      if \<not> flag b 0x80 then (\<lambda>r. (v OR push_bit s (ucast (b AND 0x7F)), r))
      else read_varint_from (s + 7) (v OR push_bit s (ucast (b AND 0x7F)))"
    have eq: "read_varint_from s v = (\<lambda>r. case ?f r of (x, r1) \<Rightarrow> ?g x r1)"
    proof
      fix r
      show "read_varint_from s v r = (case ?f r of (x, r1) \<Rightarrow> ?g x r1)"
        using True by (subst read_varint_from.simps) (auto simp: Let_def split: prod.split)
    qed
    have f: "reader_action ?f"
      by (rule reader_action_take_then) (auto simp: rd_inv_def nth_append)
    have g: "reader_action (?g x)" for x
      using True by (cases x) (simp_all add: less)
    show ?thesis by (subst eq) (rule reader_action_bind [OF f g])
  next
    case False
    then have "read_varint_from s v = (\<lambda>r. if rd_ok r \<and> False then (0, r) else (0, rd_fail r))"
      by (intro ext) (subst read_varint_from.simps, simp)
    then show ?thesis using reader_action_guard [of "\<lambda>r. (0, r)" "\<lambda>_. False" 0] by simp
  qed
qed

lemma reader_action_varint: "reader_action read_varint"
  by (simp add: read_varint_def reader_action_varint_from)

lemma reader_action_guard_const:
  assumes "B \<Longrightarrow> reader_action f"
  shows "reader_action (\<lambda>r. if rd_ok r \<and> B then f r else (x, rd_fail r))"
proof (cases B)
  case True
  then show ?thesis using reader_action_guard [of f "\<lambda>_. True" x] assms by simp
next
  case False
  then show ?thesis using reader_action_guard [of "\<lambda>r. (x, r)" "\<lambda>_. False" x] by simp
qed

lemma rd_fail_failed: "\<not> rd_ok r \<Longrightarrow> rd_fail r = r"
  by (simp add: rd_fail_def)

lemma reader_action_runs: "reader_action (read_runs tot out)"
proof (induction "tot - length out" arbitrary: out rule: less_induct)
  case less
  show ?case
  proof (cases "length out < tot")
    case True
    let ?o = "\<lambda>z :: u64. out @ replicate (unat z) 0"
    let ?last = "\<lambda>(z :: u64) (lit :: u64) bs r.
      if rd_ok r \<and> (\<not> (z = 0 \<and> lit = 0) \<and> length bs = unat lit)
      then read_runs tot (?o z @ bs) r else ([], rd_fail r)"
    let ?lit = "\<lambda>(z :: u64) (lit :: u64) r.
      if rd_ok r \<and> (unat z \<le> tot - length out \<and> unat lit \<le> tot - length (?o z))
      then case read_bytes (unat lit) r of (bs, r1) \<Rightarrow> ?last z lit bs r1 else ([], rd_fail r)"
    have eq: "read_runs tot out r = (case read_varint r of (z, r1) \<Rightarrow>
        case read_varint r1 of (lit, r2) \<Rightarrow> ?lit z lit r2)" for r
    proof -
      have "\<And>z lit r1 r2. read_varint r = (z, r1) \<Longrightarrow> read_varint r1 = (lit, r2) \<Longrightarrow>
          read_runs tot out r = ?lit z lit r2"
        using True length_read_bytes
        by (subst read_runs.simps) (auto simp: Let_def rd_fail_failed not_le case_prod_beta)
      then show ?thesis by (auto split: prod.split)
    qed
    have last: "reader_action (?last z lit bs)" for z lit bs
    proof (rule reader_action_guard_const, rule less)
      assume "\<not> (z = 0 \<and> lit = 0) \<and> length bs = unat lit"
      then have "0 < length (replicate (unat z) (0 :: u8) @ bs)" by (auto simp: unat_gt_0)
      then show "tot - length (?o z @ bs) < tot - length out" using True by (simp add: diff_less_mono2)
    qed
    let ?F = "\<lambda>r. case read_varint r of (z, r1) \<Rightarrow> case read_varint r1 of (lit, r2) \<Rightarrow> ?lit z lit r2"
    have "reader_action ?F"
      by (intro reader_action_bind reader_action_varint reader_action_guard_const reader_action_bytes last)
    moreover have "?F = read_runs tot out" by (rule ext) (rule eq [symmetric])
    ultimately show ?thesis by (rule subst [rotated])
  next
    case False
    then have "read_runs tot out = (\<lambda>r. (out, r))" by (intro ext) (subst read_runs.simps, simp)
    then show ?thesis by simp
  qed
qed

lemma reader_action_blob: "reader_action read_blob"
proof -
  have eq: "read_blob = (\<lambda>r. case read_varint r of (tot, r1) \<Rightarrow>
      if rd_ok r1 \<and> unat tot \<le> kMaxBlob then read_runs (unat tot) [] r1 else ([], rd_fail r1))"
    by (auto simp: read_blob_def Let_def fun_eq_iff split: prod.split)
  show ?thesis unfolding eq
    by (intro reader_action_bind reader_action_varint reader_action_guard_const reader_action_runs)
qed

lemma reader_action_string: "reader_action read_string"
proof -
  let ?b = "\<lambda>(n :: u64) r. unat n \<le> rd_remaining r"
  have eq: "read_string = (\<lambda>r. case read_varint r of (n, r1) \<Rightarrow>
      if rd_ok r1 \<and> ?b n r1 then read_bytes (unat n) r1 else ([], rd_fail r1))"
    by (auto simp: read_string_def read_bytes_def rd_take_def rd_last_def rd_remaining_def Let_def fun_eq_iff
        split: prod.split)
  have "?b n (rd_ext c r)" if "?b n r" for n r c
    using that by (auto simp: rd_remaining_def)
  then show ?thesis unfolding eq
    by (intro reader_action_bind reader_action_varint reader_action_guard reader_action_bytes)
qed

lemma reader_action_times: "reader_action f \<Longrightarrow> reader_action (read_times f n)"
proof (induction n)
  case 0
  have "read_times f 0 = (\<lambda>r. ([], r))" by (simp add: fun_eq_iff)
  then show ?case by simp
next
  case (Suc n)
  have "read_times f (Suc n) = (\<lambda>r. case f r of (v, r1) \<Rightarrow>
      case read_times f n r1 of (vs, r2) \<Rightarrow> (v # vs, r2))"
    by (simp add: fun_eq_iff)
  then show ?case using Suc by (simp add: reader_action_bind reader_action_map)
qed

lemma reader_action_fields:
  "(\<And>t. t \<in> set ts \<Longrightarrow> reader_action (read_one t)) \<Longrightarrow> reader_action (read_fields ts)"
proof (induction ts)
  case Nil
  have "read_fields [] = (\<lambda>r. ([], r))" by (simp add: fun_eq_iff)
  then show ?case by simp
next
  case (Cons t ts)
  have "read_fields (t # ts) = (\<lambda>r. case read_one t r of (v, r1) \<Rightarrow>
      case read_fields ts r1 of (vs, r2) \<Rightarrow> (v # vs, r2))"
    by (simp add: fun_eq_iff)
  then show ?case using Cons by (simp add: reader_action_bind reader_action_map)
qed

lemma reader_action_read: "reader_action (read_one t)"
proof (induction t)
  case (TInt w sg)
  have "read_one (TInt w sg) = (\<lambda>r. case read_int w sg r of (i, r1) \<Rightarrow> (VInt i, r1))"
    by (simp add: fun_eq_iff)
  then show ?case by (simp add: reader_action_map reader_action_int)
next
  case TBool
  have "read_one TBool = (\<lambda>r. case read_int 1 False r of (i, r1) \<Rightarrow> (VBool (i \<noteq> 0), r1))"
    by (simp add: fun_eq_iff)
  then show ?case using reader_action_map [OF reader_action_int, of "\<lambda>i. VBool (i \<noteq> 0)"] by simp
next
  case (TArray n t)
  have "read_one (TArray n t) = (\<lambda>r. case read_times (read_one t) n r of (vs, r1) \<Rightarrow> (VList vs, r1))"
    by (simp add: fun_eq_iff)
  then show ?case using TArray by (simp add: reader_action_map reader_action_times)
next
  case (TSeq t)
  let ?b = "\<lambda>(n :: u64) r. unat n \<le> rd_remaining r + 1"
  have eq: "read_one (TSeq t) = (\<lambda>r. case read_varint r of (n, r1) \<Rightarrow>
      if rd_ok r1 \<and> ?b n r1
      then case read_times (read_one t) (unat n) r1 of (vs, r2) \<Rightarrow> (VList vs, r2) else (VList [], rd_fail r1))"
    by (auto simp: Let_def fun_eq_iff split: prod.split)
  have "?b n (rd_ext c r)" if "?b n r" for n r c using that by (auto simp: rd_remaining_def)
  then show ?case unfolding eq
    by (intro reader_action_bind reader_action_varint reader_action_guard reader_action_map
        reader_action_times TSeq)
next
  case TString
  have "read_one TString = (\<lambda>r. case read_string r of (bs, r1) \<Rightarrow> (VBytes bs, r1))"
    by (simp add: fun_eq_iff)
  then show ?case by (simp add: reader_action_map reader_action_string)
next
  case TBlob
  have "read_one TBlob = (\<lambda>r. case read_blob r of (bs, r1) \<Rightarrow> (VBytes bs, r1))"
    by (simp add: fun_eq_iff)
  then show ?case by (simp add: reader_action_map reader_action_blob)
next
  case (TVisit ts)
  have "read_one (TVisit ts) = (\<lambda>r. case read_fields ts r of (vs, r1) \<Rightarrow> (VList vs, r1))"
    by (simp add: fun_eq_iff)
  then show ?case using reader_action_fields [OF TVisit] by (simp add: reader_action_map)
qed

interpretation rd_one: reader_action "read_one t" for t
  by (rule reader_action_read)


section \<open>Properties\<close>

lemma rd_sees_mk: "rd_sees (mk_reader (bs @ post)) bs"
  by (auto simp: rd_sees_def mk_reader_def)

text \<open>C19: every value a device can hold reads back from the archive unchanged, whatever follows it,
  and the reader stands exactly behind its encoding.\<close>

theorem archive_roundtrip:
  assumes "sav_wt t v"
  shows "read_one t (mk_reader (write_one t v @ post)) =
    (v, rd_adv (length (write_one t v)) (mk_reader (write_one t v @ post)))"
  using read_one_write_one(1) [OF assms rd_sees_mk] .

theorem archive_roundtrip_witness:
  "fst (read_one (TVisit [TInt 2 True, TBool, TSeq (TInt 1 False)])
     (mk_reader (write_one (TVisit [TInt 2 True, TBool, TSeq (TInt 1 False)])
       (VList [VInt (- 2), VBool True, VList [VInt 7, VInt 0]]) @ [9]))) =
   VList [VInt (- 2), VBool True, VList [VInt 7, VInt 0]]"
  using archive_roundtrip [of "TVisit [TInt 2 True, TBool, TSeq (TInt 1 False)]"
      "VList [VInt (- 2), VBool True, VList [VInt 7, VInt 0]]" "[9]"]
  by (simp add: le_bytes_def)

text \<open>C39: no input, however corrupt, makes a read of any type leave the buffer, and a reader that
  has failed once never reports success again.\<close>

theorem reader_stays_inside:
  assumes "rd_at r \<le> length (rd_data r)"
  shows "let r1 = snd (read_one t r) in
    rd_at r1 \<le> length (rd_data r1) \<and> rd_data r1 = rd_data r \<and> rd_at r \<le> rd_at r1 \<and>
    (\<not> rd_ok r \<longrightarrow> \<not> rd_ok r1)"
  using rd_one.keeps [of r t] assms by (auto simp: Let_def rd_inv_def)

theorem reader_stays_inside_witness:
  "rd_at (snd (read_one (TSeq TBool) (mk_reader [0xFF, 0xFF]))) \<le> 2"
  using reader_stays_inside [of "mk_reader [0xFF, 0xFF]" "TSeq TBool"] 
  by (auto simp: mk_reader_def Let_def simp del: read_one.simps)

text \<open>C20: a truncated snapshot is refused: reading the encoding of a value with any number of
  bytes missing at its end fails.\<close>

theorem truncated_archive_refused:
  assumes "sav_wt t v" "n < length (write_one t v)"
  shows "\<not> rd_ok (snd (read_one t (mk_reader (take n (write_one t v)))))"
proof -
  let ?w = "write_one t v"
  have w: "take n ?w @ drop n ?w = ?w" by simp
  have "read_one t (mk_reader ?w) = (v, rd_adv (length ?w) (mk_reader ?w))"
    using read_one_write_one(1) [OF assms(1), of "mk_reader ?w"] rd_sees_mk [of ?w "[]"] by simp
  then have "read_one t (mk_reader (take n ?w @ drop n ?w)) =
      (v, rd_adv (length (take n ?w @ drop n ?w)) (mk_reader (take n ?w @ drop n ?w)))"
    unfolding w .
  then show ?thesis by (rule rd_one.truncated_fails) (use assms(2) in simp)
qed

theorem truncated_archive_refused_witness:
  "\<not> rd_ok (snd (read_one (TInt 4 False) (mk_reader (take 3 (write_one (TInt 4 False) (VInt 77))))))"
  using truncated_archive_refused [of "TInt 4 False" "VInt 77" 3] by simp

text \<open>The container: what a chunk object leaves behind, and the walk over a container.\<close>

lemma list_update_4:
  "(xs @ [a0, a1, a2, a3] @ ys)[length xs + 0 := b0, length xs + 1 := b1, length xs + 2 := b2, length xs + 3 := b3] =
    xs @ [b0, b1, b2, b3] @ ys"
  by (simp add: list_update_append numeral_eq_Suc)

lemma write_chunk_eq:
  assumes "length tag = 4" "length body < 2 ^ 32"
  shows "write_chunk b tag body = b @ tag @ le_bytes 4 (length body) @ body"
proof -
  have r: "replicate 4 (0 :: u8) = [0, 0, 0, 0]" by (simp add: numeral_eq_Suc)
  have "le_bytes 4 n = [of_nat (n div 256 ^ 0), of_nat (n div 256 ^ 1), of_nat (n div 256 ^ 2), of_nat (n div 256 ^ 3)]"
    for n by (simp add: le_bytes_def upt_rec)
  moreover have "[0..<4] = [0, 1, 2, 3 :: nat]" by (simp add: upt_rec)
  ultimately show ?thesis
    using assms list_update_4 [of "b @ tag" 0 0 0 0 body]
    by (simp add: write_chunk_def chunk_open_def chunk_close_def Let_def r)
qed

lemma nextChunk_write:
  assumes "length tag = 4" "length body < 2 ^ 32"
  shows "nextChunk (tag @ le_bytes 4 (length body) @ body @ rest) =
    Some (\<lparr>ck_tag = tag, ck_data = body\<rparr>, rest)"
proof -
  have "le_value (le_bytes 4 (length body)) = length body" using assms(2) by (simp add: le_value_le_bytes)
  then show ?thesis using assms by (simp add: nextChunk_def Let_def)
qed

function walk_chunks :: "u8 list \<Rightarrow> chunk_view list \<times> u8 list" where
  "walk_chunks cur =
     (case nextChunk cur of None \<Rightarrow> ([], cur)
      | Some (c, rest) \<Rightarrow> (let (cs, r) = walk_chunks rest in (c # cs, r)))"
  by pat_completeness auto

lemma nextChunk_shorter: "nextChunk cur = Some (c, rest) \<Longrightarrow> length rest + 8 \<le> length cur"
  by (auto simp: nextChunk_def Let_def split: if_splits)

termination walk_chunks
  by (relation "measure length") (auto dest: nextChunk_shorter)

declare walk_chunks.simps [simp del]

text \<open>C40: a container written chunk by chunk is walked back to exactly those chunks in order, with
  nothing left over; cut anywhere inside the last chunk it yields all the others and reports the
  cut chunk as not there.\<close>

theorem chunks_roundtrip:
  assumes "list_all (\<lambda>(tag, body). length tag = 4 \<and> length body < 2 ^ 32) cs"
    and "length tag = 4" "length body < 2 ^ 32" "n < 8 + length body"
  shows "let file = foldl (\<lambda>b (tag, body). write_chunk b tag body) [] cs;
      views = map (\<lambda>(tag, body). \<lparr>ck_tag = tag, ck_data = body\<rparr>) cs
    in walk_chunks file = (views, []) \<and>
       fst (walk_chunks (take (length file + n) (write_chunk file tag body))) = views"
proof -
  have walk: "walk_chunks (foldl (\<lambda>b (tag, body). write_chunk b tag body) [] cs @ rest) =
      (map (\<lambda>(tag, body). \<lparr>ck_tag = tag, ck_data = body\<rparr>) cs @ fst (walk_chunks rest), snd (walk_chunks rest))"
    for rest
    using assms(1)
  proof (induction cs arbitrary: rest rule: rev_induct)
    case (snoc c cs)
    obtain t d where c: "c = (t, d)" by fastforce
    have td: "length t = 4" "length d < 2 ^ 32" using snoc.prems c by simp_all
    show ?case
      using snoc td
      by (simp add: c write_chunk_eq walk_chunks.simps [of "t @ _"] nextChunk_write [OF td, unfolded append_assoc]
          case_prod_beta)
  qed simp
  have e: "walk_chunks [] = ([], [])" by (simp add: walk_chunks.simps nextChunk_def)
  have cut: "nextChunk (take n (tag @ le_bytes 4 (length body) @ body)) = None"
  proof (cases "n < 8")
    case True
    then show ?thesis using assms by (simp add: nextChunk_def)
  next
    case False
    have "le_value (le_bytes 4 (length body)) = length body" using assms(3) by (simp add: le_value_le_bytes)
    then show ?thesis using False assms(2,4) by (simp add: nextChunk_def Let_def)
  qed
  obtain t where t: "t = take n (tag @ le_bytes 4 (length body) @ body)" by blast
  have "walk_chunks t = ([], t)" unfolding t by (subst walk_chunks.simps) (simp only: cut option.case)
  moreover have "take (length b + n) (write_chunk b tag body) = b @ t" for b
    unfolding write_chunk_eq [OF assms(2,3)] t by simp
  ultimately show ?thesis
    using walk [of "[]"] walk [of t] e by (simp add: Let_def)
qed

theorem chunks_roundtrip_witness:
  "fst (walk_chunks (write_chunk [] [86, 73, 65, 49] [1, 2])) = [\<lparr>ck_tag = [86, 73, 65, 49], ck_data = [1, 2]\<rparr>]"
  using chunks_roundtrip [of "[([86, 73, 65, 49], [1, 2])]" "[1, 2, 3, 4]" "[]" 0] by (simp add: Let_def)

end
