(* ===== verification/Scsi_Bus.thy ===== *)
theory Scsi_Bus
  imports Pom_Prelude
begin

text \<open>
  What sits on the SCSI bus: the target interface (\<^verbatim>\<open>src/src/ScsiTarget.h\<close>), the guest agent's
  mailbox (\<^verbatim>\<open>src/src/ScsiAgentMailbox.h\<close>) and the media-free agent target
  (\<^verbatim>\<open>src/src/ScsiAgentTarget.h\<close>).

  A class that implements the interface is a record of functions \<open>scsi_ops\<close> over its own state;
  a pointer and length become the list of bytes.  The mailbox's mutex makes its operations atomic;
  each is one function here.
\<close>

unbundle bit_operations_syntax

section \<open>The target interface\<close>

record 'd scsi_ops =
  t_present :: "'d \<Rightarrow> bool"
  t_selectLun :: "u8 \<Rightarrow> 'd \<Rightarrow> 'd"
  t_command :: "u8 list \<Rightarrow> u8 list \<Rightarrow> 'd \<Rightarrow> u8 \<times> u8 list \<times> 'd"
  t_writeByteCount :: "u8 list \<Rightarrow> 'd \<Rightarrow> int"
  t_extendDataOut :: "u8 list \<Rightarrow> u8 list \<Rightarrow> nat \<Rightarrow> 'd \<Rightarrow> nat"

definition kNoIdentify :: u8 where
  "kNoIdentify = 0xFF"

text \<open>The base class's default: the CDB said everything there was to say.\<close>

definition default_extendDataOut :: "u8 list \<Rightarrow> u8 list \<Rightarrow> nat \<Rightarrow> 'd \<Rightarrow> nat" where
  "default_extendDataOut cdb sofar expected d = expected"

text \<open>A byte of a CDB; the code indexes only below a length it has checked.\<close>

definition byte_at :: "u8 list \<Rightarrow> nat \<Rightarrow> u8" where
  "byte_at bs i = (if i < length bs then bs ! i else 0)"


section \<open>The guest agent's mailbox\<close>

record agent_snapshot =
  ag_polls :: u32
  ag_pending :: bool
  ag_pendingKind :: u8
  ag_pendingId :: u8
  ag_lastKind :: u8
  ag_lastId :: u8
  ag_lastErr :: "16 word"
  ag_lastDrive :: int
  ag_lastText :: "u8 list"
  ag_reported :: bool

record agent_mailbox =
  mb_s :: agent_snapshot
  mb_seq :: u8

definition mailbox_init :: agent_mailbox where
  "mailbox_init = \<lparr>mb_s = \<lparr>ag_polls = 0, ag_pending = False, ag_pendingKind = 0, ag_pendingId = 0,
     ag_lastKind = 0, ag_lastId = 0, ag_lastErr = 0, ag_lastDrive = 0, ag_lastText = [],
     ag_reported = False\<rparr>, mb_seq = 0\<rparr>"

definition kPoll :: u8 where "kPoll = 0xC0"
definition kReport :: u8 where "kReport = 0xC1"
definition kPayload :: nat where "kPayload = 64"

definition mailbox_handles :: "u8 list \<Rightarrow> bool" where
  "mailbox_handles cdb \<longleftrightarrow> 6 \<le> length cdb \<and> (byte_at cdb 0 = kPoll \<or> byte_at cdb 0 = kReport)"

definition mailbox_writeByteCount :: "u8 list \<Rightarrow> int" where
  "mailbox_writeByteCount cdb =
     (if 6 \<le> length cdb \<and> byte_at cdb 0 = kReport then uint (byte_at cdb 4) else 0)"

definition mailbox_post :: "u8 \<Rightarrow> int \<Rightarrow> agent_mailbox \<Rightarrow> agent_mailbox" where
  "mailbox_post kind sid m =
     (let m = m\<lparr>mb_s := (mb_s m)\<lparr>ag_pending := True, ag_pendingKind := kind, ag_pendingId := word_of_int sid\<rparr>,
                mb_seq := mb_seq m + 1\<rparr>
      in if mb_seq m = 0 then m\<lparr>mb_seq := mb_seq m + 1\<rparr> else m)"

text \<open>\<^verbatim>\<open>std::vector::resize\<close>: cut, or filled up with zeros.\<close>

definition vec_resize :: "nat \<Rightarrow> u8 list \<Rightarrow> u8 list" where
  "vec_resize n xs = take n xs @ replicate (n - length xs) 0"

definition mailbox_poll_reply :: "agent_mailbox \<Rightarrow> u8 list" where
  "mailbox_poll_reply m =
     (let s = mb_s m
      in [0x50, 0x4F, 0x4D, 0x41, 1,
          if ag_pending s then ag_pendingKind s else 0,
          if ag_pending s then ag_pendingId s else 0,
          if ag_pending s then mb_seq m else 0] @ replicate (kPayload - 8) 0)"

definition mailbox_report :: "u8 list \<Rightarrow> agent_mailbox \<Rightarrow> agent_mailbox" where
  "mailbox_report dataIn m =
     (let s = (mb_s m)\<lparr>
            ag_reported := True,
            ag_lastKind := byte_at dataIn 5,
            ag_lastId := byte_at dataIn 6,
            ag_lastErr := push_bit 8 (ucast (byte_at dataIn 8)) OR ucast (byte_at dataIn 9),
            ag_lastDrive := uint (push_bit 8 (ucast (byte_at dataIn 10) :: 16 word) OR ucast (byte_at dataIn 11)),
            ag_lastText :=
              (if length dataIn > 12
               then let n = unat (byte_at dataIn 12);
                        n = (if n > length dataIn - 13 then length dataIn - 13 else n)
                    in take n (drop 13 dataIn)
               else [])\<rparr>;
          s = (if ag_pending s \<and> byte_at dataIn 7 = mb_seq m then s\<lparr>ag_pending := False\<rparr> else s)
      in m\<lparr>mb_s := s\<rparr>)"

definition mailbox_command :: "u8 list \<Rightarrow> u8 list \<Rightarrow> agent_mailbox \<Rightarrow> u8 \<times> u8 list \<times> agent_mailbox" where
  "mailbox_command cdb dataIn m =
     (if \<not> mailbox_handles cdb then (0x02, [], m)
      else if byte_at cdb 0 = kPoll then
        let m = m\<lparr>mb_s := (mb_s m)\<lparr>ag_polls := ag_polls (mb_s m) + 1\<rparr>\<rparr>;
            alloc = (if byte_at cdb 4 \<noteq> 0 then unat (byte_at cdb 4) else kPayload);
            alloc = (if alloc > kPayload then kPayload else alloc)
        in (0x00, vec_resize alloc (mailbox_poll_reply m), m)
      else if length dataIn < 12 \<or> take 4 dataIn \<noteq> [0x50, 0x4F, 0x4D, 0x52] then (0x02, [], m)
      else (0x00, [], mailbox_report dataIn m))"


section \<open>The agent target\<close>

record agent_target =
  at_lun :: u8
  at_sense :: u8

definition agent_target_init :: agent_target where
  "agent_target_init = \<lparr>at_lun = kNoIdentify, at_sense = 0\<rparr>"

definition agent_target_reset :: "agent_target \<Rightarrow> agent_target" where
  "agent_target_reset d = d\<lparr>at_lun := kNoIdentify, at_sense := 0\<rparr>"

text \<open>The vendor, product and revision fields, as bytes.\<close>

definition agent_inquiry_text :: "u8 list" where
  "agent_inquiry_text = map (\<lambda>c. of_nat (of_char c)) ''POM68K  Guest control   0001''"

definition agent_target_command :: "u8 list \<Rightarrow> u8 list \<Rightarrow> agent_target \<Rightarrow> u8 \<times> u8 list \<times> agent_target" where
  "agent_target_command cdb dataIn d =
     (if length cdb < 6 then (2, [], d)
      else
        let lun = (if at_lun d = kNoIdentify then drop_bit 5 (byte_at cdb 1) else at_lun d)
        in if byte_at cdb 0 = 0x12 then
             if byte_at cdb 1 AND 3 \<noteq> 0 then (2, [], d\<lparr>at_sense := 0x24\<rparr>)
             else let out = [if lun \<noteq> 0 then 0x7F else 3, 0, 2, 2, 31, 0, 0, 0] @ agent_inquiry_text
                  in (0, vec_resize (min (length out) (unat (byte_at cdb 4))) out, d)
           else if byte_at cdb 0 = 3 then
             let out = (replicate 18 0)[0 := 0x70, 7 := 10, 2 := (if at_sense d \<noteq> 0 then 5 else 0),
                          12 := at_sense d]
             in (0, vec_resize (min (length out) (unat (byte_at cdb 4))) out, d\<lparr>at_sense := 0\<rparr>)
           else if lun = 0 \<and> byte_at cdb 0 = 0 then (0, [], d)
           else (2, [], d\<lparr>at_sense := (if lun \<noteq> 0 then 0x25 else 0x20)\<rparr>))"

definition agent_ops :: "agent_target scsi_ops" where
  "agent_ops = \<lparr>t_present = (\<lambda>_. True), t_selectLun = (\<lambda>l d. d\<lparr>at_lun := l\<rparr>),
     t_command = agent_target_command, t_writeByteCount = (\<lambda>_ _. 0),
     t_extendDataOut = default_extendDataOut\<rparr>"


section \<open>The mailbox protocol\<close>

lemma length_poll_reply [simp]: "length (mailbox_poll_reply m) = 64"
  by (simp add: mailbox_poll_reply_def Let_def kPayload_def)

lemma mailbox_seq_nonzero: "mb_seq (mailbox_post kind sid m) \<noteq> 0"
  by (simp add: mailbox_post_def Let_def)

text \<open>The mailbox protocol: after the host posts a request, a poll with room for the payload
  returns a 64-byte answer that names the kind, the target and a non-zero sequence number; the
  matching report closes the request, and a report that quotes any other sequence number leaves
  it pending.\<close>

theorem mailbox_protocol:
  assumes "length cdb = 6" "byte_at cdb 0 = kPoll" "byte_at cdb 4 = 0 \<or> 64 \<le> byte_at cdb 4"
    and "length rcdb = 6" "byte_at rcdb 0 = kReport"
    and "12 \<le> length rep" "take 4 rep = [0x50, 0x4F, 0x4D, 0x52]"
  shows "let m1 = mailbox_post kind sid m;
             (st, reply, m2) = mailbox_command cdb [] m1;
             (st2, out2, m3) = mailbox_command rcdb rep m2
         in st = 0 \<and> length reply = 64 \<and> take 8 reply = [0x50, 0x4F, 0x4D, 0x41, 1, kind, word_of_int sid, mb_seq m1] \<and>
            mb_seq m1 \<noteq> 0 \<and> st2 = 0 \<and> out2 = [] \<and>
            (ag_pending (mb_s m3) \<longleftrightarrow> rep ! 7 \<noteq> reply ! 7)"
proof -
  have "kReport \<noteq> kPoll" by (simp add: kReport_def kPoll_def)
  moreover have "(if byte_at cdb 4 \<noteq> 0 then unat (byte_at cdb 4) else kPayload) \<ge> 64"
    using assms(3) by (auto simp: kPayload_def word_le_nat_alt)
  ultimately show ?thesis
    using assms mailbox_seq_nonzero [of kind sid m]
    by (auto simp: Let_def mailbox_command_def mailbox_handles_def mailbox_report_def vec_resize_def
        mailbox_poll_reply_def kPayload_def byte_at_def mailbox_post_def nth_append split: if_splits)
qed

theorem mailbox_protocol_witness:
  "ag_pending (mb_s (snd (snd (mailbox_command [0xC1, 0, 0, 0, 12, 0]
      [0x50, 0x4F, 0x4D, 0x52, 1, 1, 3, 9, 0, 0, 0, 0]
      (snd (snd (mailbox_command [0xC0, 0, 0, 0, 64, 0] [] (mailbox_post 1 3 mailbox_init)))))))) "
  using mailbox_protocol [of "[0xC0, 0, 0, 0, 64, 0]" "[0xC1, 0, 0, 0, 12, 0]"
      "[0x50, 0x4F, 0x4D, 0x52, 1, 1, 3, 9, 0, 0, 0, 0]" 1 3 mailbox_init]
  by (simp add: byte_at_def kPoll_def kReport_def Let_def case_prod_beta mailbox_post_def mailbox_init_def
      mailbox_command_def mailbox_handles_def kPayload_def vec_resize_def mailbox_poll_reply_def)

end
