(* ===== verification/Ncr_5380.thy ===== *)
theory Ncr_5380
  imports Scsi_Bus
begin

text \<open>
  The NCR 5380 SCSI controller (\<^verbatim>\<open>src/src/Ncr5380.h\<close>, \<^verbatim>\<open>src/src/Ncr5380.cpp\<close>): the register
  file, the bus phase engine driven by register writes, the REQ/ACK handshake, pseudo-DMA and hot
  plugging.

  Targets are objects: the bus slots and the selected target are addresses into a store of target
  states, as the source has pointers.  The operations of a target are the parameter \<open>ops\<close>.  The
  debug hooks \<^verbatim>\<open>onCommand\<close> and \<^verbatim>\<open>onAccess\<close> observe and are left out; the debug counters are kept.
\<close>

unbundle bit_operations_syntax

section \<open>State\<close>

datatype ncr_phase = BUS_FREE | ARBITRATION | SELECTION | COMMAND | DATA_IN | DATA_OUT | STATUS
  | MSG_IN | MSG_OUT

abbreviation (input) ICR_ATN :: u8 where "ICR_ATN \<equiv> 0x02"
abbreviation (input) ICR_SEL :: u8 where "ICR_SEL \<equiv> 0x04"
abbreviation (input) ICR_BSY :: u8 where "ICR_BSY \<equiv> 0x08"
abbreviation (input) ICR_ACK :: u8 where "ICR_ACK \<equiv> 0x10"
abbreviation (input) ICR_AIP :: u8 where "ICR_AIP \<equiv> 0x40"
abbreviation (input) ICR_RST :: u8 where "ICR_RST \<equiv> 0x80"
abbreviation (input) ICR_WRITE :: u8 where "ICR_WRITE \<equiv> 0x9F"
abbreviation (input) MODE_ARBITRATE :: u8 where "MODE_ARBITRATE \<equiv> 0x01"
abbreviation (input) MODE_DMA :: u8 where "MODE_DMA \<equiv> 0x02"
abbreviation (input) MODE_TARGET :: u8 where "MODE_TARGET \<equiv> 0x40"

record 'd ncr =
  nc_agent :: agent_mailbox
  nc_store :: "nat \<Rightarrow> 'd"
  nc_targets :: "nat \<Rightarrow> nat option"
  nc_disk :: "nat option"
  nc_odr :: u8
  nc_icr :: u8
  nc_mode :: u8
  nc_tcr :: u8
  nc_selEnable :: u8
  nc_phase :: ncr_phase
  nc_req :: bool
  nc_reqGap :: bool
  nc_irq :: bool
  nc_cmd :: "u8 list"
  nc_dataIn :: "u8 list"
  nc_dataOut :: "u8 list"
  nc_dataPos :: nat
  nc_dataOutExpected :: nat
  nc_cmdLen :: int
  nc_status :: u8
  nc_reads :: int
  nc_writes :: int
  nc_selects :: int
  nc_commands :: int
  nc_dmaBytes :: int
  nc_lastCmd :: u8

definition ncr_init :: "(nat \<Rightarrow> 'd) \<Rightarrow> 'd ncr" where
  "ncr_init st = \<lparr>nc_agent = mailbox_init, nc_store = st, nc_targets = (\<lambda>_. None), nc_disk = None,
     nc_odr = 0, nc_icr = 0, nc_mode = 0, nc_tcr = 0, nc_selEnable = 0, nc_phase = BUS_FREE,
     nc_req = False, nc_reqGap = False, nc_irq = False, nc_cmd = [], nc_dataIn = [], nc_dataOut = [],
     nc_dataPos = 0, nc_dataOutExpected = 0, nc_cmdLen = 0, nc_status = 0, nc_reads = 0,
     nc_writes = 0, nc_selects = 0, nc_commands = 0, nc_dmaBytes = 0, nc_lastCmd = 0\<rparr>"

definition ncr_reset :: "'d ncr \<Rightarrow> 'd ncr" where
  "ncr_reset s = s\<lparr>nc_odr := 0, nc_icr := 0, nc_mode := 0, nc_tcr := 0, nc_selEnable := 0,
     nc_phase := BUS_FREE, nc_req := False, nc_reqGap := False, nc_irq := False, nc_disk := None,
     nc_cmd := [], nc_dataIn := [], nc_dataPos := 0, nc_cmdLen := 0, nc_status := 0\<rparr>"


section \<open>Plugging\<close>

definition ncr_attach :: "nat option \<Rightarrow> int \<Rightarrow> 'd ncr \<Rightarrow> 'd ncr" where
  "ncr_attach p sid s =
     (if 0 \<le> sid \<and> sid < 7 then s\<lparr>nc_targets := (nc_targets s)(nat sid := p)\<rparr> else s)"

definition ncr_target :: "int \<Rightarrow> 'd ncr \<Rightarrow> nat option" where
  "ncr_target sid s = (if 0 \<le> sid \<and> sid < 7 then nc_targets s (nat sid) else None)"

definition ncr_sessionOn :: "int \<Rightarrow> 'd ncr \<Rightarrow> bool" where
  "ncr_sessionOn sid s \<longleftrightarrow> 0 \<le> sid \<and> sid < 7 \<and> nc_targets s (nat sid) \<noteq> None \<and>
     nc_disk s = nc_targets s (nat sid) \<and> nc_phase s \<noteq> BUS_FREE"

definition ncr_detach :: "int \<Rightarrow> 'd ncr \<Rightarrow> bool \<times> 'd ncr" where
  "ncr_detach sid s =
     (if sid < 0 \<or> sid \<ge> 7 \<or> nc_targets s (nat sid) = None \<or> ncr_sessionOn sid s then (False, s)
      else let s = (if nc_disk s = nc_targets s (nat sid) then s\<lparr>nc_disk := None\<rparr> else s)
           in (True, s\<lparr>nc_targets := (nc_targets s)(nat sid := None)\<rparr>))"


section \<open>The phase engine\<close>

definition cdbLength :: "u8 \<Rightarrow> int" where
  "cdbLength op =
     (let g = drop_bit 5 op
      in if g = 0 then 6 else if g = 1 \<or> g = 2 then 10 else if g = 5 then 12 else 6)"

definition ncr_phaseSignals :: "'d ncr \<Rightarrow> u8" where
  "ncr_phaseSignals s =
     (case nc_phase s of
        COMMAND \<Rightarrow> 0x08 | DATA_IN \<Rightarrow> 0x04 | DATA_OUT \<Rightarrow> 0 | STATUS \<Rightarrow> 0x0C | MSG_IN \<Rightarrow> 0x1C
      | MSG_OUT \<Rightarrow> 0x18 | _ \<Rightarrow> 0)"

definition ncr_targetPhase :: "'d ncr \<Rightarrow> bool" where
  "ncr_targetPhase s \<longleftrightarrow> nc_phase s \<in> {COMMAND, DATA_IN, DATA_OUT, STATUS, MSG_IN}"

definition ncr_enterCommand :: "'d ncr \<Rightarrow> 'd ncr" where
  "ncr_enterCommand s =
     s\<lparr>nc_irq := False, nc_phase := COMMAND, nc_cmd := [], nc_cmdLen := 0, nc_req := True\<rparr>"

definition ncr_enterBusFree :: "'d ncr \<Rightarrow> 'd ncr" where
  "ncr_enterBusFree s = s\<lparr>nc_phase := BUS_FREE, nc_req := False\<rparr>"

definition ncr_enterStatus :: "'d ncr \<Rightarrow> 'd ncr" where
  "ncr_enterStatus s =
     (if flag (nc_mode s) MODE_DMA then s\<lparr>nc_irq := True\<rparr> else s)
       \<lparr>nc_phase := STATUS, nc_dataPos := 0, nc_req := True\<rparr>"

definition ncr_enterMsgIn :: "'d ncr \<Rightarrow> 'd ncr" where
  "ncr_enterMsgIn s = s\<lparr>nc_phase := MSG_IN, nc_req := True\<rparr>"

definition ncr_dispatch :: "'d scsi_ops \<Rightarrow> u8 list \<Rightarrow> 'd ncr \<Rightarrow> u8 \<times> u8 list \<times> 'd ncr" where
  "ncr_dispatch ops inp s =
     (case nc_disk s of
        None \<Rightarrow> (0x02, [], s)
      | Some a \<Rightarrow>
          if mailbox_handles (nc_cmd s) then
            let (st, out, m) = mailbox_command (nc_cmd s) inp (nc_agent s)
            in (st, out, s\<lparr>nc_agent := m\<rparr>)
          else
            let (st, out, d) = t_command ops (nc_cmd s) inp (nc_store s a)
            in (st, out, s\<lparr>nc_store := (nc_store s)(a := d)\<rparr>))"

definition ncr_extendDataOut :: "'d scsi_ops \<Rightarrow> 'd ncr \<Rightarrow> 'd ncr" where
  "ncr_extendDataOut ops s =
     (case nc_disk s of
        None \<Rightarrow> s
      | Some a \<Rightarrow>
          if nc_cmd s = [] \<or> mailbox_handles (nc_cmd s) then s
          else s\<lparr>nc_dataOutExpected :=
                   t_extendDataOut ops (nc_cmd s) (nc_dataOut s) (nc_dataOutExpected s) (nc_store s a)\<rparr>)"

definition ncr_wbytes :: "'d scsi_ops \<Rightarrow> 'd ncr \<Rightarrow> int" where
  "ncr_wbytes ops s =
     (case nc_disk s of
        None \<Rightarrow> 0
      | Some a \<Rightarrow>
          if mailbox_handles (nc_cmd s) then mailbox_writeByteCount (nc_cmd s)
          else t_writeByteCount ops (nc_cmd s) (nc_store s a))"

definition ncr_execute :: "'d scsi_ops \<Rightarrow> 'd ncr \<Rightarrow> 'd ncr" where
  "ncr_execute ops s =
     (let s = s\<lparr>nc_commands := nc_commands s + 1,
                nc_lastCmd := (case nc_cmd s of [] \<Rightarrow> 0 | op # _ \<Rightarrow> op)\<rparr>;
          wbytes = ncr_wbytes ops s
      in if wbytes > 0 then
           s\<lparr>nc_phase := DATA_OUT, nc_dataOut := [], nc_dataOutExpected := nat wbytes, nc_req := True\<rparr>
         else
           let s = s\<lparr>nc_dataIn := [], nc_dataPos := 0\<rparr>;
               (st, out, s) = ncr_dispatch ops [] s;
               s = s\<lparr>nc_dataIn := out, nc_status := st\<rparr>
           in if nc_dataIn s \<noteq> [] then s\<lparr>nc_phase := DATA_IN, nc_dataPos := 0, nc_req := True\<rparr>
              else ncr_enterStatus s)"

definition ncr_finishWrite :: "'d scsi_ops \<Rightarrow> 'd ncr \<Rightarrow> 'd ncr" where
  "ncr_finishWrite ops s =
     (let (st, readback, s) = ncr_dispatch ops (nc_dataOut s) s
      in ncr_enterStatus (s\<lparr>nc_status := st\<rparr>))"

text \<open>The search for the lowest selected identifier that answers.\<close>

fun ncr_select_from :: "'d scsi_ops \<Rightarrow> nat list \<Rightarrow> u8 \<Rightarrow> 'd ncr \<Rightarrow> 'd ncr" where
  "ncr_select_from ops [] targets s = ncr_enterBusFree s"
| "ncr_select_from ops (i # is) targets s =
     (case nc_targets s i of
        Some a \<Rightarrow>
          if bit targets i \<and> t_present ops (nc_store s a) then
            ncr_enterCommand
              (s\<lparr>nc_disk := Some a,
                 nc_store := (nc_store s)(a := t_selectLun ops kNoIdentify (nc_store s a))\<rparr>)
          else ncr_select_from ops is targets s
      | None \<Rightarrow> ncr_select_from ops is targets s)"

definition ncr_trySelect :: "'d scsi_ops \<Rightarrow> 'd ncr \<Rightarrow> 'd ncr" where
  "ncr_trySelect ops s =
     ncr_select_from ops [0..<7] (nc_odr s AND 0x7F) (s\<lparr>nc_selects := nc_selects s + 1\<rparr>)"

definition ncr_push_cmd :: "u8 \<Rightarrow> 'd ncr \<Rightarrow> 'd ncr" where
  "ncr_push_cmd v s =
     (let s = s\<lparr>nc_cmd := nc_cmd s @ [v]\<rparr>
      in if length (nc_cmd s) = 1 then s\<lparr>nc_cmdLen := cdbLength (nc_cmd s ! 0)\<rparr> else s)"

definition ncr_ackRising :: "'d ncr \<Rightarrow> 'd ncr" where
  "ncr_ackRising s =
     (if nc_phase s = COMMAND then ncr_push_cmd (nc_odr s) s
      else if nc_phase s = DATA_OUT then s\<lparr>nc_dataOut := nc_dataOut s @ [nc_odr s]\<rparr>
      else s\<lparr>nc_dataPos := nc_dataPos s + 1\<rparr>)\<lparr>nc_req := False\<rparr>"

definition ncr_ackFalling :: "'d scsi_ops \<Rightarrow> 'd ncr \<Rightarrow> 'd ncr" where
  "ncr_ackFalling ops s =
     (case nc_phase s of
        COMMAND \<Rightarrow>
          if nc_cmdLen s > 0 \<and> int (length (nc_cmd s)) \<ge> nc_cmdLen s then ncr_execute ops s
          else s\<lparr>nc_req := True\<rparr>
      | DATA_IN \<Rightarrow>
          if nc_dataPos s \<ge> length (nc_dataIn s) then ncr_enterStatus s else s\<lparr>nc_req := True\<rparr>
      | DATA_OUT \<Rightarrow>
          (let s = ncr_extendDataOut ops s
           in if length (nc_dataOut s) \<ge> nc_dataOutExpected s then ncr_finishWrite ops s
              else s\<lparr>nc_req := True\<rparr>)
      | STATUS \<Rightarrow> ncr_enterMsgIn s
      | MSG_IN \<Rightarrow> ncr_enterBusFree s
      | _ \<Rightarrow> s)"


section \<open>Registers\<close>

definition ncr_liveBusStatus :: "'d ncr \<Rightarrow> u8" where
  "ncr_liveBusStatus s =
     (let rst = (if flag (nc_icr s) ICR_RST then 0x80 else 0)
      in if nc_phase s = BUS_FREE then rst
         else if nc_phase s = ARBITRATION \<or> nc_phase s = SELECTION then rst OR 0x40
         else let v = rst OR 0x40 OR ncr_phaseSignals s
              in if nc_req s then v OR 0x20 else v)"

definition ncr_phaseMatch :: "'d ncr \<Rightarrow> bool" where
  "ncr_phaseMatch s \<longleftrightarrow> ncr_targetPhase s \<and>
     ncr_phaseSignals s AND 0x1C = push_bit 2 (nc_tcr s AND 0x07) AND 0x1C"

definition ncr_drqActive :: "'d ncr \<Rightarrow> bool" where
  "ncr_drqActive s \<longleftrightarrow>
     (if \<not> flag (nc_mode s) MODE_DMA then False
      else if nc_phase s = DATA_IN then nc_dataPos s < length (nc_dataIn s)
      else if nc_phase s = DATA_OUT then length (nc_dataOut s) < nc_dataOutExpected s
      else if nc_phase s \<noteq> STATUS \<and> nc_phase s \<noteq> MSG_IN \<and> nc_phase s \<noteq> COMMAND then False
      else nc_req s \<and> (ncr_phaseMatch s \<or> \<not> flag (nc_tcr s) 0x01))"

definition ncr_busAndStatus :: "'d ncr \<Rightarrow> u8" where
  "ncr_busAndStatus s =
     (if ncr_phaseMatch s then 0x08 else 0) OR (if ncr_drqActive s then 0x40 else 0) OR
     (if nc_irq s then 0x10 else 0) OR (if flag (nc_icr s) ICR_ACK then 0x01 else 0) OR
     (if flag (nc_icr s) ICR_ATN then 0x02 else 0)"

definition ncr_bus_byte :: "'d ncr \<Rightarrow> u8 option" where
  "ncr_bus_byte s =
     (if nc_phase s = DATA_IN \<and> nc_dataPos s < length (nc_dataIn s)
      then Some (nc_dataIn s ! nc_dataPos s) else None)"

definition ncr_read_csr :: "'d ncr \<Rightarrow> u8 \<times> 'd ncr" where
  "ncr_read_csr s =
     (let v = ncr_liveBusStatus s
      in (v, if nc_reqGap s then
               let s = s\<lparr>nc_reqGap := False\<rparr>
               in if nc_phase s = DATA_IN \<and> nc_dataPos s < length (nc_dataIn s) then s\<lparr>nc_req := True\<rparr>
                  else if nc_phase s = DATA_OUT \<and> length (nc_dataOut s) < nc_dataOutExpected s
                  then s\<lparr>nc_req := True\<rparr> else s
             else s))"

definition ncr_read :: "int \<Rightarrow> 'd ncr \<Rightarrow> u8 \<times> 'd ncr" where
  "ncr_read reg s =
     (let s = s\<lparr>nc_reads := nc_reads s + 1\<rparr>
      in if reg = 0 then
           (case ncr_bus_byte s of Some b \<Rightarrow> b
            | None \<Rightarrow> if nc_phase s = STATUS then nc_status s
                       else if nc_phase s = MSG_IN then 0 else nc_odr s, s)
         else if reg = 1 then (nc_icr s OR (if nc_phase s = ARBITRATION then ICR_AIP else 0), s)
         else if reg = 2 then (nc_mode s, s)
         else if reg = 3 then (nc_tcr s, s)
         else if reg = 4 then ncr_read_csr s
         else if reg = 5 then (ncr_busAndStatus s, s)
         else if reg = 6 then (case ncr_bus_byte s of Some b \<Rightarrow> b | None \<Rightarrow> 0, s)
         else if reg = 7 then (0, s\<lparr>nc_irq := False\<rparr>)
         else (0xFF, s))"

definition ncr_write_icr :: "'d scsi_ops \<Rightarrow> u8 \<Rightarrow> 'd ncr \<Rightarrow> 'd ncr" where
  "ncr_write_icr ops x s =
     (let v = x AND ICR_WRITE;
          old = nc_icr s;
          s = s\<lparr>nc_icr := v\<rparr>;
          dif = old XOR v
      in if flag v ICR_RST then
           (let s = (if \<not> flag old ICR_RST then (ncr_reset s)\<lparr>nc_irq := True\<rparr> else s)
            in s\<lparr>nc_icr := v\<rparr>)
         else
           let s = (if flag v ICR_SEL \<and> \<not> flag v ICR_BSY \<and>
                       (nc_phase s = BUS_FREE \<or> nc_phase s = ARBITRATION)
                    then ncr_trySelect ops s else s)
           in if ncr_targetPhase s then
                let s = (if flag (dif AND v) ICR_ACK then ncr_ackRising s else s)
                in if flag (dif AND NOT v) ICR_ACK then ncr_ackFalling ops s else s
              else s)"

definition ncr_write_mode :: "u8 \<Rightarrow> 'd ncr \<Rightarrow> 'd ncr" where
  "ncr_write_mode v s =
     (let old = nc_mode s;
          s = s\<lparr>nc_mode := v\<rparr>;
          s = (if flag v MODE_ARBITRATE \<and> nc_phase s = BUS_FREE then s\<lparr>nc_phase := ARBITRATION\<rparr> else s)
      in if flag (old AND NOT v) MODE_ARBITRATE \<and> nc_phase s = ARBITRATION
         then s\<lparr>nc_phase := BUS_FREE\<rparr> else s)"

definition ncr_write :: "'d scsi_ops \<Rightarrow> int \<Rightarrow> u8 \<Rightarrow> 'd ncr \<Rightarrow> 'd ncr" where
  "ncr_write ops reg v s =
     (let s = s\<lparr>nc_writes := nc_writes s + 1\<rparr>
      in if reg = 0 then s\<lparr>nc_odr := v\<rparr>
         else if reg = 1 then ncr_write_icr ops v s
         else if reg = 2 then ncr_write_mode v s
         else if reg = 3 then s\<lparr>nc_tcr := v\<rparr>
         else if reg = 4 then s\<lparr>nc_selEnable := v\<rparr>
         else if reg = 7 \<and> flag (nc_mode s) MODE_DMA \<and> \<not> flag (nc_mode s) MODE_TARGET
         then s\<lparr>nc_irq := False\<rparr>
         else s)"


section \<open>Pseudo-DMA\<close>

definition ncr_dmaRead :: "'d ncr \<Rightarrow> u8 \<times> 'd ncr" where
  "ncr_dmaRead s =
     (if nc_phase s = DATA_IN then
        let b = (case ncr_bus_byte s of Some b \<Rightarrow> b | None \<Rightarrow> 0);
            s = s\<lparr>nc_dmaBytes := nc_dmaBytes s + 1, nc_dataPos := nc_dataPos s + 1\<rparr>
        in (b, if nc_dataPos s \<ge> length (nc_dataIn s) then ncr_enterStatus s
               else s\<lparr>nc_req := False, nc_reqGap := True\<rparr>)
      else if nc_phase s = STATUS then
        if \<not> ncr_drqActive s then (nc_status s, s) else (nc_status s, ncr_enterMsgIn s)
      else if nc_phase s = MSG_IN then
        if \<not> ncr_drqActive s then (0, s) else (0, ncr_enterBusFree s)
      else (0, s))"

definition ncr_dmaWrite :: "'d scsi_ops \<Rightarrow> u8 \<Rightarrow> 'd ncr \<Rightarrow> 'd ncr" where
  "ncr_dmaWrite ops v s =
     (if nc_phase s = COMMAND then
        let s = ncr_push_cmd v s
        in if nc_cmdLen s > 0 \<and> int (length (nc_cmd s)) \<ge> nc_cmdLen s then ncr_execute ops s else s
      else if nc_phase s = DATA_OUT then
        let s = ncr_extendDataOut ops (s\<lparr>nc_dataOut := nc_dataOut s @ [v]\<rparr>)
        in if length (nc_dataOut s) \<ge> nc_dataOutExpected s then ncr_finishWrite ops s
           else s\<lparr>nc_req := False, nc_reqGap := True\<rparr>
      else s)"


section \<open>Reachable states\<close>

text \<open>One step: any public operation, a request posted to the mailbox, or a change of the targets'
  own states by the machine around the controller.\<close>

inductive ncr_step :: "'d scsi_ops \<Rightarrow> 'd ncr \<Rightarrow> 'd ncr \<Rightarrow> bool" for ops where
  st_reset: "ncr_step ops s (ncr_reset s)"
| st_attach: "ncr_step ops s (ncr_attach p sid s)"
| st_detach: "ncr_step ops s (snd (ncr_detach sid s))"
| st_read: "ncr_step ops s (snd (ncr_read reg s))"
| st_write: "ncr_step ops s (ncr_write ops reg v s)"
| st_dmaRead: "ncr_step ops s (snd (ncr_dmaRead s))"
| st_dmaWrite: "ncr_step ops s (ncr_dmaWrite ops v s)"
| st_post: "ncr_step ops s (s\<lparr>nc_agent := mailbox_post kind sid (nc_agent s)\<rparr>)"
| st_targets: "ncr_step ops s (s\<lparr>nc_store := st\<rparr>)"

inductive ncr_reachable :: "'d scsi_ops \<Rightarrow> 'd ncr \<Rightarrow> bool" for ops where
  st_init: "ncr_reachable ops (ncr_init st)"
| st_step: "ncr_reachable ops s \<Longrightarrow> ncr_step ops s s' \<Longrightarrow> ncr_reachable ops s'"

definition ncr_ack :: "'d ncr \<Rightarrow> bool" where
  "ncr_ack s \<longleftrightarrow> bit (nc_icr s) 4"

text \<open>A transfer phase belongs to a selected target; a CDB, a read buffer and a write buffer are
  never exceeded, and are complete only between the two edges of an ACK pulse.\<close>

definition ncr_cmd_ok :: "'d ncr \<Rightarrow> bool" where
  "ncr_cmd_ok s \<longleftrightarrow>
     (if nc_cmd s = [] then nc_cmdLen s = 0
      else nc_cmdLen s = cdbLength (nc_cmd s ! 0) \<and> int (length (nc_cmd s)) \<le> nc_cmdLen s \<and>
        (int (length (nc_cmd s)) = nc_cmdLen s \<longrightarrow> ncr_ack s))"

definition ncr_in_ok :: "'d ncr \<Rightarrow> bool" where
  "ncr_in_ok s \<longleftrightarrow> nc_dataPos s \<le> length (nc_dataIn s) \<and>
     (nc_dataPos s = length (nc_dataIn s) \<longrightarrow> ncr_ack s)"

definition ncr_out_ok :: "'d ncr \<Rightarrow> bool" where
  "ncr_out_ok s \<longleftrightarrow> length (nc_dataOut s) \<le> nc_dataOutExpected s \<and>
     (length (nc_dataOut s) = nc_dataOutExpected s \<longrightarrow> ncr_ack s)"

definition ncr_inv :: "'d ncr \<Rightarrow> bool" where
  "ncr_inv s \<longleftrightarrow>
     (case nc_phase s of
        BUS_FREE \<Rightarrow> True
      | ARBITRATION \<Rightarrow> True
      | COMMAND \<Rightarrow> nc_disk s \<noteq> None \<and> ncr_cmd_ok s
      | DATA_IN \<Rightarrow> nc_disk s \<noteq> None \<and> ncr_in_ok s
      | DATA_OUT \<Rightarrow> nc_disk s \<noteq> None \<and> ncr_out_ok s
      | STATUS \<Rightarrow> nc_disk s \<noteq> None
      | MSG_IN \<Rightarrow> nc_disk s \<noteq> None
      | _ \<Rightarrow> False)"

lemmas ncr_ok_defs = ncr_cmd_ok_def ncr_in_ok_def ncr_out_ok_def ncr_ack_def

lemma cdbLength_range: "6 \<le> cdbLength op"
  by (simp add: cdbLength_def Let_def)

lemma ncr_dispatch_keeps:
  assumes "ncr_dispatch ops inp s = (st, out, s')"
  shows "nc_phase s' = nc_phase s" "nc_disk s' = nc_disk s" "nc_cmd s' = nc_cmd s" "nc_icr s' = nc_icr s"
    "nc_mode s' = nc_mode s" "nc_commands s' = nc_commands s" "nc_cmdLen s' = nc_cmdLen s"
    "nc_dataOut s' = nc_dataOut s" "nc_dataOutExpected s' = nc_dataOutExpected s"
    "nc_targets s' = nc_targets s" "nc_dataPos s' = nc_dataPos s"
  using assms by (auto simp: ncr_dispatch_def split: option.splits if_splits prod.splits)

lemma ncr_enterStatus_simps [simp]:
  "nc_phase (ncr_enterStatus s) = STATUS" "nc_disk (ncr_enterStatus s) = nc_disk s"
  "nc_commands (ncr_enterStatus s) = nc_commands s" "nc_cmd (ncr_enterStatus s) = nc_cmd s"
  "nc_icr (ncr_enterStatus s) = nc_icr s" "nc_store (ncr_enterStatus s) = nc_store s"
  "nc_status (ncr_enterStatus s) = nc_status s" "nc_mode (ncr_enterStatus s) = nc_mode s"
  "nc_targets (ncr_enterStatus s) = nc_targets s" "nc_agent (ncr_enterStatus s) = nc_agent s"
  by (simp_all add: ncr_enterStatus_def)

lemma ncr_execute_keeps:
  assumes "nc_disk s \<noteq> None"
  shows "ncr_inv (ncr_execute ops s)" "nc_commands (ncr_execute ops s) = nc_commands s + 1"
    "nc_cmd (ncr_execute ops s) = nc_cmd s" "nc_disk (ncr_execute ops s) = nc_disk s"
    "nc_icr (ncr_execute ops s) = nc_icr s"
  using assms
  by (auto simp: ncr_execute_def Let_def ncr_inv_def ncr_ok_defs ncr_dispatch_keeps split: prod.split)

lemma ncr_finishWrite_keeps:
  assumes "nc_disk s \<noteq> None"
  shows "ncr_inv (ncr_finishWrite ops s)" "nc_commands (ncr_finishWrite ops s) = nc_commands s"
  using assms
  by (auto simp: ncr_finishWrite_def Let_def ncr_inv_def ncr_dispatch_keeps split: prod.split)

lemma ncr_extendDataOut_keeps [simp]:
  "nc_phase (ncr_extendDataOut ops s) = nc_phase s" "nc_disk (ncr_extendDataOut ops s) = nc_disk s"
  "nc_dataOut (ncr_extendDataOut ops s) = nc_dataOut s" "nc_commands (ncr_extendDataOut ops s) = nc_commands s"
  "nc_icr (ncr_extendDataOut ops s) = nc_icr s" "nc_cmd (ncr_extendDataOut ops s) = nc_cmd s"
  by (simp_all add: ncr_extendDataOut_def split: option.split)

lemma ncr_select_from_keeps:
  "ncr_inv (ncr_select_from ops is t s)" "nc_commands (ncr_select_from ops is t s) = nc_commands s"
  "nc_icr (ncr_select_from ops is t s) = nc_icr s"
  "nc_phase (ncr_select_from ops is t s) \<in> {BUS_FREE, COMMAND}"
  "nc_phase (ncr_select_from ops is t s) = COMMAND \<Longrightarrow> nc_cmd (ncr_select_from ops is t s) = []"
  by (induction "is") (auto simp: ncr_enterBusFree_def ncr_enterCommand_def ncr_inv_def ncr_ok_defs
      split: option.split)

text \<open>The same bounds without the ACK line: strict (nothing complete) and weak (nothing exceeded).\<close>

definition ncr_bounds :: "bool \<Rightarrow> 'd ncr \<Rightarrow> bool" where
  "ncr_bounds strict s \<longleftrightarrow>
     (case nc_phase s of
        BUS_FREE \<Rightarrow> True
      | ARBITRATION \<Rightarrow> True
      | COMMAND \<Rightarrow> nc_disk s \<noteq> None \<and>
          (if nc_cmd s = [] then nc_cmdLen s = 0
           else nc_cmdLen s = cdbLength (nc_cmd s ! 0) \<and> int (length (nc_cmd s)) \<le> nc_cmdLen s \<and>
             (strict \<longrightarrow> int (length (nc_cmd s)) < nc_cmdLen s))
      | DATA_IN \<Rightarrow> nc_disk s \<noteq> None \<and> nc_dataPos s \<le> length (nc_dataIn s) \<and>
          (strict \<longrightarrow> nc_dataPos s < length (nc_dataIn s))
      | DATA_OUT \<Rightarrow> nc_disk s \<noteq> None \<and> length (nc_dataOut s) \<le> nc_dataOutExpected s \<and>
          (strict \<longrightarrow> length (nc_dataOut s) < nc_dataOutExpected s)
      | STATUS \<Rightarrow> nc_disk s \<noteq> None
      | MSG_IN \<Rightarrow> nc_disk s \<noteq> None
      | _ \<Rightarrow> False)"

lemma ncr_inv_bounds: "ncr_inv s \<longleftrightarrow> ncr_bounds (\<not> ncr_ack s) s"
  by (auto simp: ncr_inv_def ncr_bounds_def ncr_cmd_ok_def ncr_in_ok_def ncr_out_ok_def
      split: ncr_phase.split)

lemma ncr_bounds_mono: "ncr_bounds True s \<Longrightarrow> ncr_bounds b s"
  by (auto simp: ncr_bounds_def split: ncr_phase.splits)

lemma ncr_bounds_weaken: "ncr_bounds b s \<Longrightarrow> ncr_bounds False s"
  by (cases b) (auto intro: ncr_bounds_mono)

text \<open>What every operation guarantees: the invariant, and that a command is started at most once
  and only with a complete CDB.\<close>

definition ncr_good :: "int \<Rightarrow> 'd ncr \<Rightarrow> bool" where
  "ncr_good n s \<longleftrightarrow> ncr_inv s \<and>
     (nc_commands s = n \<or>
      nc_commands s = n + 1 \<and> 6 \<le> length (nc_cmd s) \<and> cdbLength (nc_cmd s ! 0) \<le> int (length (nc_cmd s)))"

lemma ncr_good_same: "ncr_inv s \<Longrightarrow> nc_commands s = n \<Longrightarrow> ncr_good n s"
  by (simp add: ncr_good_def)

lemma ncr_good_execute:
  assumes "nc_disk s \<noteq> None" "cdbLength (nc_cmd s ! 0) \<le> int (length (nc_cmd s))"
  shows "ncr_good (nc_commands s) (ncr_execute ops s)"
  using ncr_execute_keeps [OF assms(1), of ops] assms(2) cdbLength_range [of "nc_cmd s ! 0"]
  by (simp add: ncr_good_def)

lemma ncr_good_finishWrite:
  "nc_disk s \<noteq> None \<Longrightarrow> ncr_good (nc_commands s) (ncr_finishWrite ops s)"
  by (simp add: ncr_good_def ncr_finishWrite_keeps)

lemma ncr_push_cmd_eq:
  "ncr_push_cmd v s = s\<lparr>nc_cmd := nc_cmd s @ [v],
     nc_cmdLen := (if nc_cmd s = [] then cdbLength v else nc_cmdLen s)\<rparr>"
  by (simp add: ncr_push_cmd_def Let_def)

lemma ncr_ackRising_good:
  assumes "ncr_bounds True s" "ncr_ack s" "ncr_targetPhase s"
  shows "ncr_good (nc_commands s) (ncr_ackRising s)"
  using assms cdbLength_range [of "nc_odr s"]
  by (auto simp: ncr_targetPhase_def ncr_ackRising_def ncr_push_cmd_eq ncr_bounds_def ncr_ack_def nth_append
      ncr_inv_bounds intro!: ncr_good_same)

lemma ncr_ackFalling_good:
  assumes "ncr_bounds False s" "ncr_targetPhase s"
  shows "ncr_good (nc_commands s) (ncr_ackFalling ops s)"
proof -
  have d: "nc_disk s \<noteq> None" using assms by (auto simp: ncr_bounds_def ncr_targetPhase_def)
  consider "nc_phase s = COMMAND" | "nc_phase s = DATA_IN" | "nc_phase s = DATA_OUT" | "nc_phase s = STATUS"
    | "nc_phase s = MSG_IN" using assms(2) by (auto simp: ncr_targetPhase_def)
  then show ?thesis
  proof cases
    case 1
    show ?thesis
    proof (cases "nc_cmdLen s > 0 \<and> int (length (nc_cmd s)) \<ge> nc_cmdLen s")
      case True
      then have "cdbLength (nc_cmd s ! 0) \<le> int (length (nc_cmd s))"
        using assms(1) 1 by (auto simp: ncr_bounds_def split: if_splits)
      then show ?thesis using True 1 ncr_good_execute [OF d] by (simp add: ncr_ackFalling_def)
    next
      case False
      then show ?thesis
        using 1 assms(1) cdbLength_range [of "nc_cmd s ! 0"]
        by (auto simp: ncr_ackFalling_def ncr_inv_def ncr_ok_defs ncr_bounds_def intro!: ncr_good_same
            split: if_splits)
    qed
  next
    case 2
    then show ?thesis
      using assms(1) by (auto simp: ncr_ackFalling_def ncr_inv_def ncr_ok_defs ncr_bounds_def intro!: ncr_good_same)
  next
    case 3
    then show ?thesis
      using d ncr_good_finishWrite [of "ncr_extendDataOut ops s" ops]
      by (auto simp: ncr_ackFalling_def Let_def ncr_inv_def ncr_ok_defs intro!: ncr_good_same)
  next
    case 4
    then show ?thesis using d
      by (auto simp: ncr_ackFalling_def ncr_enterMsgIn_def ncr_inv_def intro!: ncr_good_same)
  next
    case 5
    then show ?thesis
      by (auto simp: ncr_ackFalling_def ncr_enterBusFree_def ncr_inv_def intro!: ncr_good_same)
  qed
qed

lemma ncr_reset_inv [simp]: "ncr_inv (ncr_reset s)" "nc_commands (ncr_reset s) = nc_commands s"
  by (simp_all add: ncr_reset_def ncr_inv_def)

lemma ncr_trySelect_strict:
  "ncr_bounds True (ncr_trySelect ops s)" "nc_commands (ncr_trySelect ops s) = nc_commands s"
  "nc_icr (ncr_trySelect ops s) = nc_icr s"
proof -
  have *: "ncr_bounds True (ncr_select_from ops is t q)" for "is" t q
  proof -
    have "ncr_bounds True (ncr_enterBusFree q)" "nc_disk r \<noteq> None \<Longrightarrow> ncr_bounds True (ncr_enterCommand r)"
      for q r :: "'a ncr"
      by (simp_all add: ncr_enterBusFree_def ncr_enterCommand_def ncr_bounds_def)
    then show ?thesis by (induction "is") (auto split: option.split)
  qed
  show "ncr_bounds True (ncr_trySelect ops s)" "nc_commands (ncr_trySelect ops s) = nc_commands s"
    "nc_icr (ncr_trySelect ops s) = nc_icr s"
    by (simp_all add: ncr_trySelect_def * ncr_select_from_keeps)
qed

text \<open>The ACK edges of one write to the initiator command register, with the bus already selected
  and the new register value in place.\<close>

lemma ncr_edges_good:
  assumes "ncr_bounds True q \<or> ncr_bounds (\<not> bit old 4) q" "nc_icr q = v" "ncr_targetPhase q"
  shows "ncr_good (nc_commands q)
    (let q = (if flag ((old XOR v) AND v) ICR_ACK then ncr_ackRising q else q)
     in if flag ((old XOR v) AND NOT v) ICR_ACK then ncr_ackFalling ops q else q)"
proof -
  have f: "flag ((old XOR v) AND v) ICR_ACK \<longleftrightarrow> \<not> bit old 4 \<and> bit v 4"
    "flag ((old XOR v) AND NOT v) ICR_ACK \<longleftrightarrow> bit old 4 \<and> \<not> bit v 4"
    by (auto simp: flag_simps bit_and_iff bit_xor_iff bit_not_iff)
  have a: "ncr_ack q \<longleftrightarrow> bit v 4" using assms(2) by (simp add: ncr_ack_def)
  consider (rise) "\<not> bit old 4" "bit v 4" | (fall) "bit old 4" "\<not> bit v 4" | (none) "bit old 4 = bit v 4" by blast
  then show ?thesis
  proof cases
    case rise
    then have "ncr_bounds True q" using assms(1) by simp
    then show ?thesis using rise a assms(3) by (simp add: f ncr_ackRising_good)
  next
    case fall
    have "ncr_bounds False q" using assms(1) ncr_bounds_weaken by blast
    then show ?thesis using fall assms(3) by (simp add: f ncr_ackFalling_good)
  next
    case none
    then have "ncr_inv q" using assms(1) a by (auto simp: ncr_inv_bounds intro: ncr_bounds_mono)
    then show ?thesis using none by (simp add: f ncr_good_same)
  qed
qed

lemma ncr_bounds_icr [simp]: "ncr_bounds b (s\<lparr>nc_icr := v\<rparr>) = ncr_bounds b s"
  by (cases "nc_phase s") (simp_all add: ncr_bounds_def)

lemma ncr_inv_other [simp]:
  "ncr_inv (s\<lparr>nc_writes := n\<rparr>) = ncr_inv s" "ncr_inv (s\<lparr>nc_reads := n\<rparr>) = ncr_inv s"
  "ncr_inv (s\<lparr>nc_dmaBytes := n\<rparr>) = ncr_inv s" "ncr_inv (s\<lparr>nc_req := r\<rparr>) = ncr_inv s"
  "ncr_inv (s\<lparr>nc_reqGap := r\<rparr>) = ncr_inv s" "ncr_inv (s\<lparr>nc_irq := r\<rparr>) = ncr_inv s"
  "ncr_inv (s\<lparr>nc_odr := v\<rparr>) = ncr_inv s" "ncr_inv (s\<lparr>nc_tcr := v\<rparr>) = ncr_inv s"
  "ncr_inv (s\<lparr>nc_selEnable := v\<rparr>) = ncr_inv s" "ncr_inv (s\<lparr>nc_mode := v\<rparr>) = ncr_inv s"
  "ncr_inv (s\<lparr>nc_targets := t\<rparr>) = ncr_inv s" "ncr_inv (s\<lparr>nc_store := st\<rparr>) = ncr_inv s"
  "ncr_inv (s\<lparr>nc_agent := m\<rparr>) = ncr_inv s"
  by (cases "nc_phase s"; simp add: ncr_inv_def ncr_ok_defs)+

lemma ncr_inv_idle: "nc_phase s \<in> {BUS_FREE, ARBITRATION} \<Longrightarrow> ncr_inv s"
  by (auto simp: ncr_inv_def)

lemma ncr_bounds_not_target: "ncr_bounds b s \<Longrightarrow> \<not> ncr_targetPhase s \<Longrightarrow> ncr_inv s"
  by (auto simp: ncr_bounds_def ncr_targetPhase_def ncr_inv_def split: ncr_phase.splits)

text \<open>While the initiator asserts RST the bus is idle.\<close>

definition ncr_rst_ok :: "'d ncr \<Rightarrow> bool" where
  "ncr_rst_ok s \<longleftrightarrow> (bit (nc_icr s) 7 \<longrightarrow> nc_phase s = BUS_FREE \<or> nc_phase s = ARBITRATION)"

lemma ncr_write_icr_good:
  assumes "ncr_inv s" "ncr_rst_ok s"
  shows "ncr_good (nc_commands s) (ncr_write_icr ops x s)"
proof -
  let ?v = "x AND ICR_WRITE" and ?old = "nc_icr s"
  let ?s = "s\<lparr>nc_icr := ?v\<rparr>"
  let ?q = "if flag ?v ICR_SEL \<and> \<not> flag ?v ICR_BSY \<and> (nc_phase ?s = BUS_FREE \<or> nc_phase ?s = ARBITRATION)
    then ncr_trySelect ops ?s else ?s"
  have b: "ncr_bounds (\<not> bit ?old 4) s" using assms by (simp add: ncr_inv_bounds ncr_ack_def)
  obtain q where qd: "q = ?q" by blast
  have q: "ncr_bounds True q \<or> ncr_bounds (\<not> bit ?old 4) q" "nc_icr q = ?v" "nc_commands q = nc_commands s"
    using b by (simp_all add: qd ncr_trySelect_strict)
  show ?thesis
  proof (cases "flag ?v ICR_RST")
    case rst: True
    then show ?thesis
      using assms(2)
      by (auto simp: ncr_write_icr_def Let_def ncr_good_def ncr_inv_def ncr_reset_def ncr_rst_ok_def flag_simps)
  next
    case False
    have "ncr_good (nc_commands s)
      (if ncr_targetPhase q then
         let q = (if flag ((?old XOR ?v) AND ?v) ICR_ACK then ncr_ackRising q else q)
         in if flag ((?old XOR ?v) AND NOT ?v) ICR_ACK then ncr_ackFalling ops q else q
       else q)"
    proof (cases "ncr_targetPhase q")
      case True
      then show ?thesis using ncr_edges_good [OF q(1,2) True, of ops] unfolding q(3) by simp
    next
      case False
      then show ?thesis using q(1,3) ncr_bounds_not_target [OF _ False] by (auto intro: ncr_good_same)
    qed
    then show ?thesis using False unfolding ncr_write_icr_def Let_def qd by (simp only: if_False)
  qed
qed

lemma ncr_execute_icr [simp]: "nc_icr (ncr_execute ops s) = nc_icr s"
  by (auto simp: ncr_execute_def Let_def ncr_dispatch_keeps split: prod.split)

lemma ncr_finishWrite_icr [simp]: "nc_icr (ncr_finishWrite ops s) = nc_icr s"
  by (auto simp: ncr_finishWrite_def Let_def ncr_dispatch_keeps split: prod.split)

lemma ncr_ack_icr [simp]: "nc_icr (ncr_ackRising s) = nc_icr s" "nc_icr (ncr_ackFalling ops s) = nc_icr s"
  by (simp_all add: ncr_ackRising_def ncr_push_cmd_eq ncr_ackFalling_def ncr_enterMsgIn_def ncr_enterBusFree_def
      Let_def split: ncr_phase.split)

lemma ncr_write_icr_rst: "ncr_rst_ok s \<Longrightarrow> ncr_rst_ok (ncr_write_icr ops x s)"
proof (cases "bit (x AND ICR_WRITE) 7")
  case True
  assume "ncr_rst_ok s"
  with True show ?thesis
    by (auto simp: ncr_write_icr_def Let_def flag_simps ncr_rst_ok_def ncr_reset_def)
next
  case False
  then have "\<not> bit (nc_icr (ncr_write_icr ops x s)) 7"
    by (simp add: ncr_write_icr_def Let_def flag_simps ncr_trySelect_strict)
  then show ?thesis by (simp add: ncr_rst_ok_def)
qed

lemma ncr_dmaRead_good:
  assumes "ncr_inv s" "ncr_rst_ok s"
  shows "ncr_good (nc_commands s) (snd (ncr_dmaRead s)) \<and> ncr_rst_ok (snd (ncr_dmaRead s))"
proof (cases "nc_phase s = DATA_IN")
  case True
  then show ?thesis
    using assms
    by (auto simp: ncr_dmaRead_def Let_def ncr_good_def ncr_inv_def ncr_ok_defs ncr_rst_ok_def)
next
  case False
  then show ?thesis
    using assms
    by (auto simp: ncr_dmaRead_def ncr_enterMsgIn_def ncr_enterBusFree_def ncr_good_def ncr_rst_ok_def)
      (auto simp: ncr_inv_def)
qed

lemma ncr_dmaWrite_good:
  assumes "ncr_inv s" "ncr_rst_ok s"
  shows "ncr_good (nc_commands s) (ncr_dmaWrite ops v s) \<and> ncr_rst_ok (ncr_dmaWrite ops v s)"
proof -
  consider "nc_phase s = COMMAND" | "nc_phase s = DATA_OUT" | "nc_phase s \<noteq> COMMAND" "nc_phase s \<noteq> DATA_OUT"
    by blast
  then show ?thesis
  proof cases
    case 1
    let ?q = "ncr_push_cmd v s"
    have d: "nc_disk ?q \<noteq> None" "nc_phase ?q = COMMAND" "nc_commands ?q = nc_commands s" "\<not> bit (nc_icr ?q) 7"
      using assms 1 by (auto simp: ncr_push_cmd_eq ncr_inv_def ncr_rst_ok_def)
    have L: "nc_cmdLen ?q = cdbLength (nc_cmd ?q ! 0)"
      using assms(1) 1 by (auto simp: ncr_push_cmd_eq ncr_inv_def ncr_ok_defs nth_append)
    show ?thesis
    proof (cases "int (length (nc_cmd ?q)) \<ge> nc_cmdLen ?q")
      case True
      then have "ncr_dmaWrite ops v s = ncr_execute ops ?q"
        using 1 L cdbLength_range [of "nc_cmd ?q ! 0"] by (simp add: ncr_dmaWrite_def Let_def)
      then show ?thesis using ncr_good_execute [OF d(1), of ops] True L d by (simp add: ncr_rst_ok_def)
    next
      case False
      then have "ncr_dmaWrite ops v s = ?q" using 1 by (simp add: ncr_dmaWrite_def Let_def)
      moreover have "nc_cmd ?q \<noteq> []" by (simp add: ncr_push_cmd_eq)
      ultimately show ?thesis using False L d by (simp add: ncr_good_def ncr_inv_def ncr_cmd_ok_def ncr_rst_ok_def)
    qed
  next
    case 2
    let ?q = "ncr_extendDataOut ops (s\<lparr>nc_dataOut := nc_dataOut s @ [v]\<rparr>)"
    have d: "nc_disk ?q \<noteq> None" "nc_phase ?q = DATA_OUT" "nc_commands ?q = nc_commands s" "\<not> bit (nc_icr ?q) 7"
      using assms 2 by (auto simp: ncr_inv_def ncr_rst_ok_def)
    show ?thesis
    proof (cases "length (nc_dataOut ?q) \<ge> nc_dataOutExpected ?q")
      case True
      then have "ncr_dmaWrite ops v s = ncr_finishWrite ops ?q" using 2 by (simp add: ncr_dmaWrite_def Let_def)
      then show ?thesis using ncr_good_finishWrite [OF d(1), of ops] d by (simp add: ncr_rst_ok_def)
    next
      case False
      then have "ncr_dmaWrite ops v s = ?q\<lparr>nc_req := False, nc_reqGap := True\<rparr>"
        using 2 by (simp add: ncr_dmaWrite_def Let_def)
      then show ?thesis using False d by (simp add: ncr_good_def ncr_inv_def ncr_out_ok_def ncr_rst_ok_def)
    qed
  next
    case 3
    then show ?thesis using assms by (simp add: ncr_dmaWrite_def ncr_good_def)
  qed
qed

lemma ncr_write_good:
  assumes "ncr_inv s" "ncr_rst_ok s"
  shows "ncr_good (nc_commands s) (ncr_write ops reg v s) \<and> ncr_rst_ok (ncr_write ops reg v s)"
proof -
  let ?s = "s\<lparr>nc_writes := nc_writes s + 1\<rparr>"
  have w: "ncr_inv ?s" "ncr_rst_ok ?s" using assms by (simp_all add: ncr_rst_ok_def)
  have m: "ncr_inv (ncr_write_mode v ?s)" "ncr_rst_ok (ncr_write_mode v ?s)" "nc_commands (ncr_write_mode v ?s) = nc_commands s"
    using assms by (auto simp: ncr_write_mode_def Let_def ncr_rst_ok_def) (auto simp: ncr_inv_def)
  show ?thesis
    using ncr_write_icr_good [OF w, of ops v] ncr_write_icr_rst [OF w(2), of ops v] m assms
    by (auto simp: ncr_write_def Let_def ncr_good_def ncr_rst_ok_def)
qed

lemma ncr_read_good:
  assumes "ncr_inv s" "ncr_rst_ok s"
  shows "ncr_good (nc_commands s) (snd (ncr_read reg s)) \<and> ncr_rst_ok (snd (ncr_read reg s))"
  using assms by (auto simp: ncr_read_def ncr_read_csr_def Let_def ncr_good_def ncr_rst_ok_def)

lemma ncr_detach_good:
  assumes "ncr_inv s" "ncr_rst_ok s"
  shows "ncr_good (nc_commands s) (snd (ncr_detach sid s)) \<and> ncr_rst_ok (snd (ncr_detach sid s))"
proof (cases "fst (ncr_detach sid s)")
  case False
  then show ?thesis using assms by (auto simp: ncr_detach_def Let_def ncr_good_def split: if_splits)
next
  case True
  then have "nc_disk s = nc_targets s (nat sid) \<longrightarrow> nc_phase s = BUS_FREE"
    by (auto simp: ncr_detach_def ncr_sessionOn_def split: if_splits)
  then show ?thesis
    using assms by (auto simp: ncr_detach_def Let_def ncr_good_def ncr_rst_ok_def) (auto simp: ncr_inv_def)
qed

lemma ncr_misc_good:
  assumes "ncr_inv s" "ncr_rst_ok s"
  shows "ncr_good (nc_commands s) (ncr_reset s) \<and> ncr_rst_ok (ncr_reset s)"
    "ncr_good (nc_commands s) (ncr_attach p sid s) \<and> ncr_rst_ok (ncr_attach p sid s)"
    "ncr_good (nc_commands s) (s\<lparr>nc_agent := m\<rparr>) \<and> ncr_rst_ok (s\<lparr>nc_agent := m\<rparr>)"
    "ncr_good (nc_commands s) (s\<lparr>nc_store := st\<rparr>) \<and> ncr_rst_ok (s\<lparr>nc_store := st\<rparr>)"
  using assms by (simp_all add: ncr_good_def ncr_attach_def ncr_rst_ok_def) (simp add: ncr_reset_def)

lemma ncr_step_good:
  "ncr_step ops s s' \<Longrightarrow> ncr_inv s \<Longrightarrow> ncr_rst_ok s \<Longrightarrow> ncr_good (nc_commands s) s' \<and> ncr_rst_ok s'"
  by (induction rule: ncr_step.induct)
    (rule ncr_misc_good ncr_dmaRead_good ncr_dmaWrite_good ncr_write_good ncr_read_good ncr_detach_good;
      assumption)+

lemma ncr_reachable_inv: "ncr_reachable ops s \<Longrightarrow> ncr_inv s \<and> ncr_rst_ok s"
proof (induction rule: ncr_reachable.induct)
  case (st_init st)
  then show ?case by (simp add: ncr_init_def ncr_inv_def ncr_rst_ok_def)
next
  case (st_step s s')
  then show ?case using ncr_step_good by (auto simp: ncr_good_def)
qed


section \<open>Safety properties\<close>

text \<open>C9: a target never sees an incomplete command: whatever register accesses, pseudo-DMA
  accesses, resets and hot-plug events the guest and the host produce, in any order, a step starts
  at most one command, and the CDB it hands over has at least six bytes and the full length its
  operation code calls for.\<close>

theorem ncr_complete_cdb:
  assumes "ncr_reachable ops s" "ncr_step ops s s'"
  shows "nc_commands s' = nc_commands s \<or>
    nc_commands s' = nc_commands s + 1 \<and> 6 \<le> length (nc_cmd s') \<and>
    cdbLength (nc_cmd s' ! 0) \<le> int (length (nc_cmd s'))"
  using ncr_step_good [OF assms(2)] ncr_reachable_inv [OF assms(1)] by (simp add: ncr_good_def)

theorem ncr_complete_cdb_witness:
  "nc_commands (ncr_write agent_ops 1 0 (ncr_init (\<lambda>_. agent_target_init))) = 0"
  using ncr_complete_cdb [OF ncr_reachable.st_init [where ops = agent_ops and st = "\<lambda>_. agent_target_init"]
      ncr_step.st_write [where reg = 1 and v = 0]]
  by (simp add: ncr_init_def ncr_write_def ncr_write_icr_def Let_def flag_simps ncr_targetPhase_def)

text \<open>C27: in every reachable state a transfer phase belongs to a selected target, the read cursor
  and the gathered bytes stay inside their buffers, and the phases this engine does not implement
  are never entered.\<close>

theorem ncr_phase_invariant:
  assumes "ncr_reachable ops s"
  shows "nc_phase s \<notin> {SELECTION, MSG_OUT} \<and>
    (ncr_targetPhase s \<longrightarrow> nc_disk s \<noteq> None) \<and>
    (nc_phase s = DATA_IN \<longrightarrow> nc_dataPos s \<le> length (nc_dataIn s)) \<and>
    (nc_phase s = DATA_OUT \<longrightarrow> length (nc_dataOut s) \<le> nc_dataOutExpected s)"
  using ncr_reachable_inv [OF assms]
  by (auto simp: ncr_inv_def ncr_targetPhase_def ncr_ok_defs split: ncr_phase.splits)

theorem ncr_phase_invariant_witness:
  "nc_phase (ncr_init (\<lambda>_. agent_target_init)) \<notin> {SELECTION, MSG_OUT}"
  using ncr_phase_invariant [OF ncr_reachable.st_init [where ops = agent_ops and st = "\<lambda>_. agent_target_init"]]
  by blast

text \<open>Hot unplugging: while a session is open on a target its cable cannot be pulled, and
  nothing changes; otherwise the slot is emptied, and no selected-target pointer is left to it.\<close>

theorem ncr_detach_safe:
  assumes "0 \<le> sid" "sid < 7" "nc_targets s (nat sid) = Some a"
  shows "if nc_disk s = Some a \<and> nc_phase s \<noteq> BUS_FREE then ncr_detach sid s = (False, s)
    else fst (ncr_detach sid s) \<and> nc_targets (snd (ncr_detach sid s)) (nat sid) = None \<and>
      nc_disk (snd (ncr_detach sid s)) \<noteq> Some a"
  using assms by (auto simp: ncr_detach_def ncr_sessionOn_def Let_def)

theorem ncr_detach_safe_witness:
  "fst (ncr_detach 3 (ncr_attach (Some 0) 3 (ncr_init (\<lambda>_. agent_target_init))))"
  using ncr_detach_safe [of 3 "ncr_attach (Some 0) 3 (ncr_init (\<lambda>_. agent_target_init))" 0]
  by (simp add: ncr_attach_def ncr_init_def)


section \<open>Transactions\<close>

text \<open>What the SCSI Manager does on the registers: select a target by its identifier, hand over
  bytes and take bytes, one ACK pulse each.\<close>

definition ncr_host_select :: "'d scsi_ops \<Rightarrow> nat \<Rightarrow> 'd ncr \<Rightarrow> 'd ncr" where
  "ncr_host_select ops i s =
     ncr_write ops 1 0x00 (ncr_write ops 1 0x05 (ncr_write ops 0 (0x80 OR 2 ^ i) s))"

definition ncr_host_out :: "'d scsi_ops \<Rightarrow> 'd ncr \<Rightarrow> u8 \<Rightarrow> 'd ncr" where
  "ncr_host_out ops s b = ncr_write ops 1 0x01 (ncr_write ops 1 0x11 (ncr_write ops 0 b s))"

definition ncr_host_in :: "'d scsi_ops \<Rightarrow> 'd ncr \<Rightarrow> u8 \<times> 'd ncr" where
  "ncr_host_in ops s =
     (let (b, s) = ncr_read 0 s in (b, ncr_write ops 1 0x00 (ncr_write ops 1 0x10 s)))"

fun ncr_host_ins :: "'d scsi_ops \<Rightarrow> nat \<Rightarrow> 'd ncr \<Rightarrow> u8 list \<times> 'd ncr" where
  "ncr_host_ins ops 0 s = ([], s)"
| "ncr_host_ins ops (Suc n) s =
     (let (b, s) = ncr_host_in ops s; (bs, s) = ncr_host_ins ops n s in (b # bs, s))"

definition ncr_host_command :: "'d scsi_ops \<Rightarrow> nat \<Rightarrow> u8 list \<Rightarrow> 'd ncr \<Rightarrow> 'd ncr" where
  "ncr_host_command ops i cdb s = foldl (ncr_host_out ops) (ncr_host_select ops i s) cdb"

text \<open>The engine is idle between two ACK pulses: neither RST nor ACK asserted.\<close>

definition ncr_quiet :: "'d ncr \<Rightarrow> bool" where
  "ncr_quiet s \<longleftrightarrow> \<not> bit (nc_icr s) 7 \<and> \<not> bit (nc_icr s) 4"

lemmas ncr_host_defs = ncr_write_def ncr_write_icr_def Let_def flag_simps bit_and_iff bit_xor_iff bit_not_iff

text \<open>A session: the bus is quiet between pulses, target \<open>a\<close> is selected, and the targets' states
  and the mailbox are as given.\<close>

definition ncr_sess :: "nat \<Rightarrow> (nat \<Rightarrow> 'd) \<Rightarrow> agent_mailbox \<Rightarrow> 'd ncr \<Rightarrow> bool" where
  "ncr_sess a st m s \<longleftrightarrow> ncr_quiet s \<and> nc_disk s = Some a \<and> nc_store s = st \<and> nc_agent s = m"

definition ncr_gathering :: "u8 list \<Rightarrow> 'd ncr \<Rightarrow> bool" where
  "ncr_gathering c s \<longleftrightarrow> nc_phase s = COMMAND \<and> nc_cmd s = c \<and>
     nc_cmdLen s = (if c = [] then 0 else cdbLength (c ! 0))"

lemma ncr_host_out_cmd:
  assumes "ncr_sess a st m s" "ncr_gathering c s" "int (length c) + 1 < cdbLength ((c @ [b]) ! 0)"
  shows "ncr_sess a st m (ncr_host_out ops s b)" "ncr_gathering (c @ [b]) (ncr_host_out ops s b)"
  using assms
  by (auto simp: ncr_host_out_def ncr_host_defs ncr_targetPhase_def ncr_sess_def ncr_quiet_def ncr_gathering_def
      ncr_ackRising_def ncr_push_cmd_eq ncr_ackFalling_def nth_append)

lemma ncr_host_out_last:
  assumes "ncr_sess a st m s" "ncr_gathering c s" "int (length c) + 1 = cdbLength ((c @ [b]) ! 0)"
  obtains q where "ncr_host_out ops s b = ncr_execute ops q" "ncr_sess a st m q" "nc_cmd q = c @ [b]"
proof -
  let ?w = "nc_writes s"
  let ?q = "(ncr_ackRising (s\<lparr>nc_odr := b, nc_writes := 2 + ?w, nc_icr := 0x11\<rparr>))\<lparr>nc_writes := 3 + ?w, nc_icr := 0x01\<rparr>"
  have "0 < cdbLength ((c @ [b]) ! 0)" using cdbLength_range [of "(c @ [b]) ! 0"] by linarith
  then have "ncr_host_out ops s b = ncr_execute ops ?q"
    using assms
    by (auto simp: ncr_host_out_def ncr_host_defs ncr_targetPhase_def ncr_sess_def ncr_quiet_def ncr_gathering_def
        ncr_ackRising_def ncr_push_cmd_eq ncr_ackFalling_def nth_append)
  moreover have "ncr_sess a st m ?q" "nc_cmd ?q = c @ [b]"
    using assms by (auto simp: ncr_sess_def ncr_quiet_def ncr_gathering_def ncr_ackRising_def ncr_push_cmd_eq)
  ultimately show thesis by (rule that)
qed

lemma ncr_host_outs:
  assumes "ncr_sess a st m s" "ncr_gathering [] s" "cdb \<noteq> []" "int (length cdb) = cdbLength (cdb ! 0)"
  obtains q where "foldl (ncr_host_out ops) s cdb = ncr_execute ops q" "ncr_sess a st m q" "nc_cmd q = cdb"
proof -
  let ?c = "butlast cdb"
  have cdb: "?c @ [last cdb] = cdb" using assms(3) by simp
  have pre: "ncr_sess a st m (foldl (ncr_host_out ops) s (take k cdb)) \<and>
      ncr_gathering (take k cdb) (foldl (ncr_host_out ops) s (take k cdb))" if "k < length cdb" for k
    using that
  proof (induction k)
    case 0
    then show ?case using assms by simp
  next
    case (Suc k)
    have t: "take (Suc k) cdb = take k cdb @ [cdb ! k]" using Suc.prems by (simp add: take_Suc_conv_app_nth)
    have "(take k cdb @ [cdb ! k]) ! 0 = cdb ! 0" using Suc.prems by (cases k) (auto simp: nth_append)
    then have "int (length (take k cdb)) + 1 < cdbLength ((take k cdb @ [cdb ! k]) ! 0)"
      using Suc.prems assms(4) by simp
    moreover have "k < length cdb" using Suc.prems by simp
    note Suc.IH [OF this]
    ultimately show ?case
      unfolding t foldl_append foldl_Cons foldl_Nil by (blast intro: ncr_host_out_cmd)
  qed
  have "?c = take (length cdb - 1) cdb" by (rule butlast_conv_take)
  then have "ncr_sess a st m (foldl (ncr_host_out ops) s ?c)" "ncr_gathering ?c (foldl (ncr_host_out ops) s ?c)"
    using pre [of "length cdb - 1"] assms(3) by simp_all
  moreover have "int (length ?c) + 1 = cdbLength ((?c @ [last cdb]) ! 0)" 
    unfolding cdb using assms(3,4) by (simp add: of_nat_diff Suc_leI)
  ultimately obtain q where
    "ncr_host_out ops (foldl (ncr_host_out ops) s ?c) (last cdb) = ncr_execute ops q" "ncr_sess a st m q"
    "nc_cmd q = ?c @ [last cdb]"
    by (rule ncr_host_out_last)
  moreover have "foldl (ncr_host_out ops) s cdb = ncr_host_out ops (foldl (ncr_host_out ops) s ?c) (last cdb)"
    by (subst cdb [symmetric]) (simp only: foldl_append foldl_Cons foldl_Nil)
  ultimately show thesis using that [of q] cdb by simp
qed

text \<open>Selection finds the one target whose identifier is on the bus.\<close>

lemma ncr_select_from_only:
  assumes "i \<in> set is" "\<And>j. j \<in> set is \<Longrightarrow> bit t j \<longleftrightarrow> j = i" "nc_targets s i = Some a"
    "t_present ops (nc_store s a)"
  shows "ncr_select_from ops is t s = ncr_enterCommand (s\<lparr>nc_disk := Some a,
    nc_store := (nc_store s)(a := t_selectLun ops kNoIdentify (nc_store s a))\<rparr>)"
  using assms(1,2)
proof (induction "is")
  case (Cons x xs)
  show ?case
  proof (cases "x = i")
    case True
    moreover have "bit t i" using Cons.prems(2) [of i] True by simp
    ultimately show ?thesis
      by (simp only: ncr_select_from.simps assms(3,4) option.case if_True simp_thms)
  next
    case False
    then have "\<not> bit t x" using Cons.prems(2) [of x] by simp
    moreover have "ncr_select_from ops xs t s = ncr_enterCommand (s\<lparr>nc_disk := Some a,
        nc_store := (nc_store s)(a := t_selectLun ops kNoIdentify (nc_store s a))\<rparr>)"
      by (rule Cons.IH) (use Cons.prems False in auto)
    ultimately show ?thesis
      by (cases "nc_targets s x") (simp_all only: ncr_select_from.simps option.case if_False simp_thms)
  qed
qed simp

lemma bit_select: "i < 7 \<Longrightarrow> j < 7 \<Longrightarrow> bit ((0x80 OR 2 ^ i :: u8) AND 0x7F) j \<longleftrightarrow> j = i"
proof -
  assume "i < 7" "j < 7"
  have "\<forall>j<7. bit ((0x80 OR 2 ^ i :: u8) AND 0x7F) j \<longleftrightarrow> j = i"
    unfolding all_less_7 by (auto simp: bit_or_iff bit_and_iff bit_exp_iff)
  with \<open>j < 7\<close> show ?thesis by blast
qed

lemma ncr_host_select_ok:
  assumes "nc_phase s = BUS_FREE" "ncr_quiet s" "i < 7" "nc_targets s i = Some a" "t_present ops (nc_store s a)"
  shows "ncr_sess a ((nc_store s)(a := t_selectLun ops kNoIdentify (nc_store s a))) (nc_agent s)
      (ncr_host_select ops i s)" "ncr_gathering [] (ncr_host_select ops i s)"
proof -
  have sel: "ncr_select_from ops [0..<7] ((0x80 OR 2 ^ i) AND 0x7F) q =
      ncr_enterCommand (q\<lparr>nc_disk := Some a,
        nc_store := (nc_store q)(a := t_selectLun ops kNoIdentify (nc_store q a))\<rparr>)"
    if "nc_targets q = nc_targets s" "nc_store q = nc_store s" for q :: "'a ncr"
    by (rule ncr_select_from_only) (use assms that bit_select [OF assms(3)] in auto)
  show "ncr_sess a ((nc_store s)(a := t_selectLun ops kNoIdentify (nc_store s a))) (nc_agent s)
      (ncr_host_select ops i s)" "ncr_gathering [] (ncr_host_select ops i s)"
    using assms(1,2)
    by (simp_all add: ncr_host_select_def ncr_write_def ncr_write_icr_def Let_def flag_simps ncr_trySelect_def sel
        ncr_enterCommand_def ncr_targetPhase_def ncr_sess_def ncr_quiet_def ncr_gathering_def
        bit_and_iff bit_xor_iff bit_not_iff)
qed

definition ncr_reading :: "u8 list \<Rightarrow> u8 \<Rightarrow> 'd ncr \<Rightarrow> bool" where
  "ncr_reading rest x s \<longleftrightarrow> nc_status s = x \<and>
     (if rest = [] then nc_phase s = STATUS
      else nc_phase s = DATA_IN \<and> drop (nc_dataPos s) (nc_dataIn s) = rest)"

lemma ncr_reading_head:
  assumes "ncr_reading (b # rest) x s"
  shows "nc_phase s = DATA_IN" "nc_dataPos s < length (nc_dataIn s)" "nc_dataIn s ! nc_dataPos s = b"
    "drop (Suc (nc_dataPos s)) (nc_dataIn s) = rest"
    "Suc (nc_dataPos s) \<ge> length (nc_dataIn s) \<longleftrightarrow> rest = []"
proof -
  have d: "drop (nc_dataPos s) (nc_dataIn s) = b # rest" and "nc_phase s = DATA_IN"
    using assms by (simp_all add: ncr_reading_def)
  then show "nc_phase s = DATA_IN" by simp
  show lt: "nc_dataPos s < length (nc_dataIn s)" using d by (metis drop_all leI list.distinct(1))
  show "nc_dataIn s ! nc_dataPos s = b" using d by (metis nth_via_drop)
  show r: "drop (Suc (nc_dataPos s)) (nc_dataIn s) = rest" using d by (metis drop_Suc list.sel(3) tl_drop)
  show "Suc (nc_dataPos s) \<ge> length (nc_dataIn s) \<longleftrightarrow> rest = []" using r by auto
qed

lemma ncr_host_in_data:
  assumes "ncr_sess a st m s" "ncr_reading (b # rest) x s"
  shows "fst (ncr_host_in ops s) = b" "ncr_sess a st m (snd (ncr_host_in ops s))"
    "ncr_reading rest x (snd (ncr_host_in ops s))"
proof -
  note h = ncr_reading_head [OF assms(2)]
  have x: "nc_status s = x" using assms(2) by (simp add: ncr_reading_def)
  show "fst (ncr_host_in ops s) = b"
    using h by (simp add: ncr_host_in_def ncr_read_def ncr_bus_byte_def Let_def)
  show "ncr_sess a st m (snd (ncr_host_in ops s))" "ncr_reading rest x (snd (ncr_host_in ops s))"
    using assms(1) h x
    by (auto simp: ncr_host_in_def ncr_read_def ncr_host_defs ncr_targetPhase_def ncr_sess_def ncr_quiet_def
        ncr_ackRising_def ncr_ackFalling_def ncr_reading_def)
qed

lemma ncr_host_ins_data:
  assumes "ncr_sess a st m s" "ncr_reading d x s"
  shows "fst (ncr_host_ins ops (length d) s) = d \<and> ncr_sess a st m (snd (ncr_host_ins ops (length d) s)) \<and>
    ncr_reading [] x (snd (ncr_host_ins ops (length d) s))"
  using assms
proof (induction d arbitrary: s)
  case (Cons b d)
  note i = ncr_host_in_data [OF Cons.prems, of ops]
  show ?case using Cons.IH [OF i(2,3)] i(1) by (simp add: case_prod_beta Let_def)
qed simp

lemma ncr_host_in_status:
  assumes "ncr_sess a st m s" "ncr_reading [] x s"
  shows "fst (ncr_host_in ops s) = x" "ncr_sess a st m (snd (ncr_host_in ops s))"
    "nc_phase (snd (ncr_host_in ops s)) = MSG_IN"
  using assms
  by (auto simp: ncr_host_in_def ncr_read_def ncr_bus_byte_def ncr_host_defs ncr_targetPhase_def ncr_sess_def
      ncr_quiet_def ncr_ackRising_def ncr_ackFalling_def ncr_reading_def ncr_enterMsgIn_def)

lemma ncr_host_in_msg:
  assumes "ncr_sess a st m s" "nc_phase s = MSG_IN"
  shows "fst (ncr_host_in ops s) = 0" "ncr_sess a st m (snd (ncr_host_in ops s))"
    "nc_phase (snd (ncr_host_in ops s)) = BUS_FREE"
  using assms
  by (auto simp: ncr_host_in_def ncr_read_def ncr_bus_byte_def ncr_host_defs ncr_targetPhase_def ncr_sess_def
      ncr_quiet_def ncr_ackRising_def ncr_ackFalling_def ncr_enterBusFree_def)

text \<open>The end of every transaction: take the status byte and the message byte.\<close>

definition ncr_host_finish :: "'d scsi_ops \<Rightarrow> 'd ncr \<Rightarrow> u8 \<times> u8 \<times> 'd ncr" where
  "ncr_host_finish ops s =
     (let (x, s) = ncr_host_in ops s; (msg, s) = ncr_host_in ops s in (x, msg, s))"

lemma ncr_host_finish_ok:
  assumes "ncr_sess a st m s" "ncr_reading [] x s"
  shows "\<exists>s'. ncr_host_finish ops s = (x, 0, s') \<and> ncr_sess a st m s' \<and> nc_phase s' = BUS_FREE"
  using ncr_host_in_status [OF assms, of ops] ncr_host_in_msg [of a st m "snd (ncr_host_in ops s)" ops]
  by (intro exI [of _ "snd (ncr_host_in ops (snd (ncr_host_in ops s)))"])
    (auto simp: ncr_host_finish_def case_prod_beta Let_def prod_eq_iff)

lemma ncr_execute_read:
  assumes "ncr_sess a st m q" "nc_cmd q = cdb" "\<not> mailbox_handles cdb"
    "t_writeByteCount ops cdb (st a) \<le> 0" "t_command ops cdb [] (st a) = (x, out, d)"
  shows "ncr_sess a (st(a := d)) m (ncr_execute ops q)" "ncr_reading out x (ncr_execute ops q)"
  using assms
  by (auto simp: ncr_execute_def ncr_wbytes_def ncr_dispatch_def ncr_sess_def ncr_quiet_def ncr_reading_def
      Let_def fun_upd_def split: prod.splits)

lemma ncr_read_session:
  fixes s :: "'d ncr"
  assumes "nc_phase s = BUS_FREE" "\<not> bit (nc_icr s) 7" "\<not> bit (nc_icr s) 4"
    and "i < 7" "nc_targets s i = Some a" "t_present ops (nc_store s a)"
    and "cdb \<noteq> []" "int (length cdb) = cdbLength (cdb ! 0)" "\<not> mailbox_handles cdb"
    and d0: "d0 = t_selectLun ops kNoIdentify (nc_store s a)"
    and "t_writeByteCount ops cdb d0 \<le> 0" "t_command ops cdb [] d0 = (x, out, d1)"
  shows "\<exists>s1 s2. ncr_host_ins ops (length out) (ncr_host_command ops i cdb s) = (out, s1) \<and>
    ncr_host_finish ops s1 = (x, 0, s2) \<and> ncr_sess a ((nc_store s)(a := d1)) (nc_agent s) s2 \<and> nc_phase s2 = BUS_FREE"
proof -
  let ?st = "(nc_store s)(a := d0)" and ?m = "nc_agent s"
  have "ncr_quiet s" using assms(2,3) by (simp add: ncr_quiet_def)
  note sel = ncr_host_select_ok [OF assms(1) this assms(4,5,6), folded d0]
  obtain q where q: "ncr_host_command ops i cdb s = ncr_execute ops q" "ncr_sess a ?st ?m q" "nc_cmd q = cdb"
    unfolding ncr_host_command_def by (rule ncr_host_outs [OF sel assms(7,8)])
  have "ncr_sess a ((nc_store s)(a := d1)) ?m (ncr_host_command ops i cdb s)"
    "ncr_reading out x (ncr_host_command ops i cdb s)"
    using ncr_execute_read [OF q(2,3) assms(9), of ops x out d1] assms(11,12) unfolding q(1) by simp_all
  from ncr_host_ins_data [OF this, of ops] obtain s1 where
    s1: "ncr_host_ins ops (length out) (ncr_host_command ops i cdb s) = (out, s1)"
      "ncr_sess a ((nc_store s)(a := d1)) ?m s1" "ncr_reading [] x s1"
    by (metis prod.collapse)
  from ncr_host_finish_ok [OF s1(2,3), of ops] show ?thesis using s1(1) by blast
qed

text \<open>C7: a whole READ-type transaction over the registers: selecting a present target, handing
  over its CDB byte by byte and taking as many bytes as the target answers gives the initiator
  exactly the target's data, then its status byte, then COMMAND COMPLETE, and leaves the bus free;
  the target has executed the command once, nothing else has changed.\<close>

theorem ncr_read_transaction:
  fixes s :: "'d ncr"
  assumes "nc_phase s = BUS_FREE" "\<not> bit (nc_icr s) 7" "\<not> bit (nc_icr s) 4"
    and "i < 7" "nc_targets s i = Some a" "t_present ops (nc_store s a)"
    and "cdb \<noteq> []" "int (length cdb) = cdbLength (cdb ! 0)" "\<not> mailbox_handles cdb"
    and d0: "d0 = t_selectLun ops kNoIdentify (nc_store s a)"
    and "t_writeByteCount ops cdb d0 \<le> 0" "t_command ops cdb [] d0 = (x, out, d1)"
  shows "let (bs, s1) = ncr_host_ins ops (length out) (ncr_host_command ops i cdb s);
      (y, msg, s2) = ncr_host_finish ops s1
    in bs = out \<and> y = x \<and> msg = 0 \<and> nc_phase s2 = BUS_FREE \<and>
       nc_store s2 = (nc_store s)(a := d1) \<and> nc_agent s2 = nc_agent s"
  using ncr_read_session [OF assms] by (auto simp: ncr_sess_def)

lemma agent_inquiry_answer:
  "agent_target_command [0x12, 0, 0, 0, 36, 0] [] agent_target_init =
     (0, [3, 0, 2, 2, 31, 0, 0, 0] @ agent_inquiry_text, agent_target_init)"
  by (simp add: agent_target_command_def agent_target_init_def byte_at_def kNoIdentify_def agent_inquiry_text_def
      vec_resize_def)

theorem ncr_read_transaction_witness:
  "\<exists>s1. ncr_host_ins agent_ops 36 (ncr_host_command agent_ops 3 [0x12, 0, 0, 0, 36, 0]
     (ncr_attach (Some 0) 3 (ncr_init (\<lambda>_. agent_target_init)))) = ([3, 0, 2, 2, 31, 0, 0, 0] @ agent_inquiry_text, s1)"
proof -
  let ?s = "ncr_attach (Some 0) 3 (ncr_init (\<lambda>_. agent_target_init))"
  let ?c = "[0x12, 0, 0, 0, 36, 0] :: u8 list" and ?o = "[3, 0, 2, 2, 31, 0, 0, 0] @ agent_inquiry_text"
  have l: "length ?o = 36" by (simp add: agent_inquiry_text_def)
  have "let (bs, s1) = ncr_host_ins agent_ops (length ?o) (ncr_host_command agent_ops 3 ?c ?s);
      (y, msg, s2) = ncr_host_finish agent_ops s1
    in bs = ?o \<and> y = 0 \<and> msg = 0 \<and> nc_phase s2 = BUS_FREE \<and>
       nc_store s2 = (nc_store ?s)(0 := agent_target_init) \<and> nc_agent s2 = nc_agent ?s"
    by (rule ncr_read_transaction [where ?d0.0 = agent_target_init])
      (simp_all add: agent_inquiry_answer [unfolded agent_target_init_def kNoIdentify_def, simplified] ncr_attach_def ncr_init_def agent_ops_def cdbLength_def
        mailbox_handles_def byte_at_def kPoll_def kReport_def agent_target_init_def kNoIdentify_def)
  then show ?thesis unfolding l by (auto simp: Let_def split: prod.splits)
qed

definition ncr_collecting :: "u8 list \<Rightarrow> nat \<Rightarrow> u8 list \<Rightarrow> 'd ncr \<Rightarrow> bool" where
  "ncr_collecting c n cdb s \<longleftrightarrow> nc_phase s = DATA_OUT \<and> nc_dataOut s = c \<and> nc_dataOutExpected s = n \<and>
     nc_cmd s = cdb"

lemma ncr_execute_write:
  assumes "ncr_sess a st m q" "nc_cmd q = cdb" "\<not> mailbox_handles cdb"
    "t_writeByteCount ops cdb (st a) = int n" "0 < n"
  shows "ncr_sess a st m (ncr_execute ops q)" "ncr_collecting [] n cdb (ncr_execute ops q)"
  using assms
  by (auto simp: ncr_execute_def ncr_wbytes_def ncr_sess_def ncr_quiet_def ncr_collecting_def Let_def)

lemma ncr_host_out_data:
  assumes "ncr_sess a st m s" "ncr_collecting c n cdb s" "cdb \<noteq> []" "\<not> mailbox_handles cdb"
    "t_extendDataOut ops cdb (c @ [b]) n (st a) = n" "length c + 1 < n"
  shows "ncr_sess a st m (ncr_host_out ops s b)" "ncr_collecting (c @ [b]) n cdb (ncr_host_out ops s b)"
  using assms
  by (auto simp: ncr_host_out_def ncr_host_defs ncr_targetPhase_def ncr_sess_def ncr_quiet_def ncr_collecting_def
      ncr_ackRising_def ncr_ackFalling_def ncr_extendDataOut_def)

lemma ncr_host_out_data_last:
  assumes "ncr_sess a st m s" "ncr_collecting c n cdb s" "cdb \<noteq> []" "\<not> mailbox_handles cdb"
    "t_extendDataOut ops cdb (c @ [b]) n (st a) = n" "length c + 1 = n"
    "t_command ops cdb (c @ [b]) (st a) = (x, rb, d)"
  shows "ncr_sess a (st(a := d)) m (ncr_host_out ops s b)" "ncr_reading [] x (ncr_host_out ops s b)"
  using assms
  by (auto simp: ncr_host_out_def ncr_host_defs ncr_targetPhase_def ncr_sess_def ncr_quiet_def ncr_collecting_def
      ncr_ackRising_def ncr_ackFalling_def ncr_extendDataOut_def ncr_finishWrite_def ncr_dispatch_def
      ncr_reading_def fun_upd_def)

lemma ncr_host_outs_data:
  assumes "ncr_sess a st m s" "ncr_collecting [] (length data) cdb s" "cdb \<noteq> []" "\<not> mailbox_handles cdb" "data \<noteq> []"
    "\<And>c. t_extendDataOut ops cdb c (length data) (st a) = length data"
    "t_command ops cdb data (st a) = (x, rb, d)"
  shows "ncr_sess a (st(a := d)) m (foldl (ncr_host_out ops) s data) \<and>
    ncr_reading [] x (foldl (ncr_host_out ops) s data)"
proof -
  let ?c = "butlast data"
  have dt: "?c @ [last data] = data" using assms(5) by simp
  have pre: "ncr_sess a st m (foldl (ncr_host_out ops) s (take k data)) \<and>
      ncr_collecting (take k data) (length data) cdb (foldl (ncr_host_out ops) s (take k data))"
    if "k < length data" for k
    using that
  proof (induction k)
    case 0
    then show ?case using assms by simp
  next
    case (Suc k)
    have t: "take (Suc k) data = take k data @ [data ! k]" using Suc.prems by (simp add: take_Suc_conv_app_nth)
    have "k < length data" "length (take k data) + 1 < length data" using Suc.prems by simp_all
    then show ?case
      using Suc.IH ncr_host_out_data [of a st m "foldl (ncr_host_out ops) s (take k data)" "take k data" "length data"
          cdb ops "data ! k"] assms(3,4,6)
      unfolding t foldl_append foldl_Cons foldl_Nil by simp
  qed
  have "?c = take (length data - 1) data" by (rule butlast_conv_take)
  then have "ncr_sess a st m (foldl (ncr_host_out ops) s ?c)"
    "ncr_collecting ?c (length data) cdb (foldl (ncr_host_out ops) s ?c)"
    using pre [of "length data - 1"] assms(5) by simp_all
  moreover have "length ?c + 1 = length data" using assms(5) by (cases data) simp_all
  ultimately have "ncr_sess a (st(a := d)) m (ncr_host_out ops (foldl (ncr_host_out ops) s ?c) (last data)) \<and>
      ncr_reading [] x (ncr_host_out ops (foldl (ncr_host_out ops) s ?c) (last data))"
    using ncr_host_out_data_last [of a st m "foldl (ncr_host_out ops) s ?c" ?c "length data" cdb ops "last data" x rb d]
      assms(3,4,6,7) dt by simp
  moreover have "foldl (ncr_host_out ops) s data = ncr_host_out ops (foldl (ncr_host_out ops) s ?c) (last data)"
    by (subst dt [symmetric]) (simp only: foldl_append foldl_Cons foldl_Nil)
  ultimately show ?thesis by (simp only:)
qed

lemma ncr_write_session:
  fixes s :: "'d ncr"
  assumes "nc_phase s = BUS_FREE" "\<not> bit (nc_icr s) 7" "\<not> bit (nc_icr s) 4"
    and "i < 7" "nc_targets s i = Some a" "t_present ops (nc_store s a)"
    and "cdb \<noteq> []" "int (length cdb) = cdbLength (cdb ! 0)" "\<not> mailbox_handles cdb"
    and d0: "d0 = t_selectLun ops kNoIdentify (nc_store s a)"
    and "data \<noteq> []" "t_writeByteCount ops cdb d0 = int (length data)"
    and "\<And>c. t_extendDataOut ops cdb c (length data) d0 = length data"
    and "t_command ops cdb data d0 = (x, rb, d1)"
  shows "\<exists>s2. ncr_host_finish ops (foldl (ncr_host_out ops) (ncr_host_command ops i cdb s) data) = (x, 0, s2) \<and>
    ncr_sess a ((nc_store s)(a := d1)) (nc_agent s) s2 \<and> nc_phase s2 = BUS_FREE"
proof -
  let ?st = "(nc_store s)(a := d0)" and ?m = "nc_agent s"
  have "ncr_quiet s" using assms(2,3) by (simp add: ncr_quiet_def)
  note sel = ncr_host_select_ok [OF assms(1) this assms(4,5,6), folded d0]
  obtain q where q: "ncr_host_command ops i cdb s = ncr_execute ops q" "ncr_sess a ?st ?m q" "nc_cmd q = cdb"
    unfolding ncr_host_command_def by (rule ncr_host_outs [OF sel assms(7,8)])
  have "ncr_sess a ?st ?m (ncr_host_command ops i cdb s)"
    "ncr_collecting [] (length data) cdb (ncr_host_command ops i cdb s)"
    using ncr_execute_write [OF q(2,3) assms(9), of ops "length data"] assms(11,12) unfolding q(1) by simp_all
  note r = ncr_host_outs_data [OF this assms(7,9,11), of ops x rb d1]
  have "ncr_sess a ((nc_store s)(a := d1)) ?m (foldl (ncr_host_out ops) (ncr_host_command ops i cdb s) data)"
    "ncr_reading [] x (foldl (ncr_host_out ops) (ncr_host_command ops i cdb s) data)"
    using r assms(13,14) by simp_all
  from ncr_host_finish_ok [OF this, of ops] show ?thesis by blast
qed

text \<open>C8: a whole WRITE-type transaction: the target receives the CDB together with exactly the
  bytes the initiator sent, in order, executes once, and its status byte and COMMAND COMPLETE come
  back before the bus is free again.\<close>

theorem ncr_write_transaction:
  fixes s :: "'d ncr"
  assumes "nc_phase s = BUS_FREE" "\<not> bit (nc_icr s) 7" "\<not> bit (nc_icr s) 4"
    and "i < 7" "nc_targets s i = Some a" "t_present ops (nc_store s a)"
    and "cdb \<noteq> []" "int (length cdb) = cdbLength (cdb ! 0)" "\<not> mailbox_handles cdb"
    and d0: "d0 = t_selectLun ops kNoIdentify (nc_store s a)"
    and "data \<noteq> []" "t_writeByteCount ops cdb d0 = int (length data)"
    and "\<And>c. t_extendDataOut ops cdb c (length data) d0 = length data"
    and "t_command ops cdb data d0 = (x, rb, d1)"
  shows "let (y, msg, s2) = ncr_host_finish ops (foldl (ncr_host_out ops) (ncr_host_command ops i cdb s) data)
    in y = x \<and> msg = 0 \<and> nc_phase s2 = BUS_FREE \<and> nc_store s2 = (nc_store s)(a := d1) \<and> nc_agent s2 = nc_agent s"
  using ncr_write_session [OF assms] by (auto simp: ncr_sess_def)

theorem ncr_write_transaction_witness:
  "let ops = \<lparr>t_present = (\<lambda>_. True), t_selectLun = (\<lambda>l d. d), t_command = (\<lambda>cdb data d. (0, [], d @ data)),
         t_writeByteCount = (\<lambda>cdb d. 2), t_extendDataOut = (\<lambda>cdb got n d. n)\<rparr>;
       s = ncr_attach (Some 0) 0 (ncr_init (\<lambda>_. [])) :: u8 list ncr;
       (y, msg, s2) = ncr_host_finish ops (foldl (ncr_host_out ops) (ncr_host_command ops 0 [0x0A, 0, 0, 0, 1, 0] s) [7, 8])
   in y = 0 \<and> msg = 0 \<and> nc_phase s2 = BUS_FREE \<and> nc_store s2 0 = [7, 8]"
proof -
  define ops where "ops = \<lparr>t_present = (\<lambda>_. True), t_selectLun = (\<lambda>l d. d),
    t_command = (\<lambda>cdb data d. (0, [], d @ data)), t_writeByteCount = (\<lambda>cdb d. 2),
    t_extendDataOut = (\<lambda>cdb got n d. n) :: u8 list \<Rightarrow> u8 list \<Rightarrow> nat \<Rightarrow> u8 list \<Rightarrow> nat\<rparr>"
  let ?s = "ncr_attach (Some 0) 0 (ncr_init (\<lambda>_. [])) :: u8 list ncr" and ?c = "[0x0A, 0, 0, 0, 1, 0] :: u8 list"
  have "let (y, msg, s2) = ncr_host_finish ops (foldl (ncr_host_out ops) (ncr_host_command ops 0 ?c ?s) [7, 8])
    in y = 0 \<and> msg = 0 \<and> nc_phase s2 = BUS_FREE \<and> nc_store s2 = (nc_store ?s)(0 := [7, 8]) \<and> nc_agent s2 = nc_agent ?s"
    by (rule ncr_write_transaction [where ?d0.0 = "[]"])
      (simp_all add: ncr_attach_def ncr_init_def ops_def cdbLength_def mailbox_handles_def byte_at_def kPoll_def kReport_def)
  then show ?thesis unfolding Let_def ops_def by (auto split: prod.splits)
qed


section \<open>The wiring\<close>

text \<open>No register access changes which target sits at which identifier, so a second transaction
  finds the target the first one used.\<close>

lemma ncr_select_from_targets [simp]: "nc_targets (ncr_select_from ops is t s) = nc_targets s"
  by (induction ops "is" t s rule: ncr_select_from.induct)
    (auto simp: ncr_enterCommand_def ncr_enterBusFree_def split: option.splits)

lemma ncr_execute_targets [simp]: "nc_targets (ncr_execute ops s) = nc_targets s"
  by (auto simp: ncr_execute_def Let_def dest: ncr_dispatch_keeps(10) split: prod.splits)

lemma ncr_finishWrite_targets [simp]: "nc_targets (ncr_finishWrite ops s) = nc_targets s"
  by (auto simp: ncr_finishWrite_def dest: ncr_dispatch_keeps(10) split: prod.splits)

lemma ncr_extendDataOut_targets [simp]: "nc_targets (ncr_extendDataOut ops s) = nc_targets s"
  by (simp add: ncr_extendDataOut_def split: option.split)

lemma ncr_ackFalling_targets [simp]: "nc_targets (ncr_ackFalling ops s) = nc_targets s"
  by (simp add: ncr_ackFalling_def Let_def ncr_enterMsgIn_def ncr_enterBusFree_def split: ncr_phase.split)

lemma ncr_ackRising_targets [simp]: "nc_targets (ncr_ackRising s) = nc_targets s"
  by (simp add: ncr_ackRising_def ncr_push_cmd_def Let_def)

lemma ncr_write_targets [simp]: "nc_targets (ncr_write ops r v s) = nc_targets s"
  by (simp add: ncr_write_def ncr_write_icr_def ncr_write_mode_def ncr_trySelect_def ncr_reset_def Let_def)

lemma ncr_read_targets [simp]: "nc_targets (snd (ncr_read r s)) = nc_targets s"
  by (simp add: ncr_read_def ncr_read_csr_def Let_def)

lemma ncr_host_out_targets [simp]: "nc_targets (ncr_host_out ops s b) = nc_targets s"
  by (simp add: ncr_host_out_def)

lemma ncr_host_outs_targets [simp]: "nc_targets (foldl (ncr_host_out ops) s bs) = nc_targets s"
  by (induction bs arbitrary: s) auto

lemma ncr_host_command_targets [simp]: "nc_targets (ncr_host_command ops i cdb s) = nc_targets s"
  by (simp add: ncr_host_command_def ncr_host_select_def)

lemma ncr_host_in_targets [simp]: "nc_targets (snd (ncr_host_in ops s)) = nc_targets s"
  by (simp add: ncr_host_in_def case_prod_beta)

lemma ncr_host_ins_targets [simp]: "nc_targets (snd (ncr_host_ins ops n s)) = nc_targets s"
  by (induction n arbitrary: s) (simp_all add: case_prod_beta)

lemma ncr_host_finish_targets [simp]: "nc_targets (snd (snd (ncr_host_finish ops s))) = nc_targets s"
  by (simp add: ncr_host_finish_def case_prod_beta)

end
