(* ===== verification/Adb_Bus.thy ===== *)
theory Adb_Bus
  imports Pom_Prelude
begin

text \<open>
  The command-level Apple Desktop Bus of \<^verbatim>\<open>AdbBus.h\<close> and \<^verbatim>\<open>AdbBus.cpp\<close>: a keyboard and a
  mouse behind one \<^verbatim>\<open>command\<close> entry point, the host-side event queues that feed them, and
  the relocatable device addresses.  The lemmas show that no input is lost: polling the keyboard
  returns every queued transition once and in order, polling the mouse returns deltas that add
  up to the motion the host reported.
\<close>

record adb_bus =
  ab_keyQueue :: "u8 list"
  ab_mdx :: int
  ab_mdy :: int
  ab_mbtn :: bool
  ab_mbtnSent :: bool
  ab_kbdAddr :: u8
  ab_mouseAddr :: u8

definition adb_bus_init :: adb_bus where
  "adb_bus_init = \<lparr>ab_keyQueue = [], ab_mdx = 0, ab_mdy = 0, ab_mbtn = False, ab_mbtnSent = False,
     ab_kbdAddr = 2, ab_mouseAddr = 3\<rparr>"

definition adb_bus_reset :: "adb_bus \<Rightarrow> adb_bus" where
  "adb_bus_reset b = b\<lparr>ab_keyQueue := [], ab_mdx := 0, ab_mdy := 0, ab_mbtn := False, ab_mbtnSent := False,
     ab_kbdAddr := 2, ab_mouseAddr := 3\<rparr>"

definition adb_bus_keyPending :: "adb_bus \<Rightarrow> bool" where
  "adb_bus_keyPending b \<longleftrightarrow> ab_keyQueue b \<noteq> []"

definition adb_bus_mousePending :: "adb_bus \<Rightarrow> bool" where
  "adb_bus_mousePending b \<longleftrightarrow> ab_mdx b \<noteq> 0 \<or> ab_mdy b \<noteq> 0 \<or> ab_mbtn b \<noteq> ab_mbtnSent b"

definition adb_bus_srqPending :: "adb_bus \<Rightarrow> bool" where
  "adb_bus_srqPending b \<longleftrightarrow> adb_bus_keyPending b \<or> adb_bus_mousePending b"

definition adb_bus_keyEvent :: "u8 \<Rightarrow> bool \<Rightarrow> adb_bus \<Rightarrow> adb_bus" where
  "adb_bus_keyEvent adbCode down b =
     b\<lparr>ab_keyQueue := ab_keyQueue b @ [(if down then 0 else 0x80) OR (adbCode AND 0x7F)]\<rparr>"

text \<open>\<^verbatim>\<open>std::clamp\<close>.\<close>

definition clamp :: "int \<Rightarrow> int \<Rightarrow> int \<Rightarrow> int" where
  "clamp v lo hi = (if v < lo then lo else if hi < v then hi else v)"

definition adb_bus_mouseMove :: "int \<Rightarrow> int \<Rightarrow> adb_bus \<Rightarrow> adb_bus" where
  "adb_bus_mouseMove dx dy b =
     b\<lparr>ab_mdx := clamp (ab_mdx b + dx) (-256) 256, ab_mdy := clamp (ab_mdy b + dy) (-256) 256\<rparr>"

definition adb_bus_mouseButton :: "bool \<Rightarrow> adb_bus \<Rightarrow> adb_bus" where
  "adb_bus_mouseButton down b = b\<lparr>ab_mbtn := down\<rparr>"

text \<open>The report of one axis and what is left to report.\<close>

definition clamp7 :: "int \<Rightarrow> u8 \<times> int" where
  "clamp7 v = (let d = clamp v (-64) 63 in (word_of_int (d AND 0x7F), v - d))"

definition adb_bus_talk_kbd :: "u8 \<Rightarrow> adb_bus \<Rightarrow> u8 list \<times> adb_bus" where
  "adb_bus_talk_kbd reg b =
     (if reg = 0 then
        (case ab_keyQueue b of
           [] \<Rightarrow> ([0xFF, 0xFF], b)
         | [k0] \<Rightarrow> ([k0, 0xFF], b\<lparr>ab_keyQueue := []\<rparr>)
         | k0 # k1 # ks \<Rightarrow> ([k0, k1], b\<lparr>ab_keyQueue := ks\<rparr>))
      else if reg = 2 then ([0xFF, 0xFF], b)
      else if reg = 3 then ([0x60 OR ab_kbdAddr b, 0x05], b)
      else ([], b))"

definition adb_bus_talk_mouse :: "u8 \<Rightarrow> adb_bus \<Rightarrow> u8 list \<times> adb_bus" where
  "adb_bus_talk_mouse reg b =
     (if reg = 0 then
        let (dy, mdy) = clamp7 (ab_mdy b); (dx, mdx) = clamp7 (ab_mdx b)
        in ([(if ab_mbtn b then 0 else 0x80) OR dy, 0x80 OR dx],
            b\<lparr>ab_mdy := mdy, ab_mdx := mdx, ab_mbtnSent := ab_mbtn b\<rparr>)
      else if reg = 3 then ([0x60 OR ab_mouseAddr b, 0x01], b)
      else ([], b))"

definition adb_bus_listen :: "u8 \<Rightarrow> u8 \<Rightarrow> u8 list \<Rightarrow> adb_bus \<Rightarrow> adb_bus" where
  "adb_bus_listen addr reg data b =
     (if reg = 3 \<and> 2 \<le> length data \<and> (data ! 1 = 0x00 \<or> data ! 1 = 0xFE) then
        let newAddr = data ! 0 AND 0x0F
        in if addr = ab_kbdAddr b then b\<lparr>ab_kbdAddr := newAddr\<rparr>
           else if addr = ab_mouseAddr b then b\<lparr>ab_mouseAddr := newAddr\<rparr>
           else b
      else b)"

definition adb_bus_command :: "u8 \<Rightarrow> u8 list \<Rightarrow> adb_bus \<Rightarrow> u8 list \<times> adb_bus" where
  "adb_bus_command cmd data b =
     (let addr = drop_bit 4 cmd; op = drop_bit 2 cmd AND 3; reg = cmd AND 3
      in if cmd AND 0x0F = 0 then ([], b\<lparr>ab_kbdAddr := 2, ab_mouseAddr := 3\<rparr>)
         else if op = 3 \<and> addr = ab_kbdAddr b then adb_bus_talk_kbd reg b
         else if op = 3 \<and> addr = ab_mouseAddr b then adb_bus_talk_mouse reg b
         else if op = 2 then ([], adb_bus_listen addr reg data b)
         else ([], b))"


section \<open>Reports\<close>

text \<open>The signed value of the seven low bits of a report byte, as the guest reads it.\<close>

definition report_delta :: "u8 \<Rightarrow> int" where
  "report_delta w = (if bit w 6 then uint (take_bit 7 w) - 128 else uint (take_bit 7 w))"

lemma clamp_range: "lo \<le> hi \<Longrightarrow> lo \<le> clamp v lo hi \<and> clamp v lo hi \<le> hi"
  by (simp add: clamp_def)

lemma report_delta_clamp:
  assumes "-64 \<le> d" "d \<le> 63"
  shows "report_delta (word_of_int (d AND 0x7F)) = d"
proof -
  have m: "d AND 0x7F = d mod 128"
    using take_bit_eq_mask [of 7 d] by (simp add: take_bit_eq_mod mask_eq_exp_minus_1)
  have neg: "d mod 128 = d + 128" if "d < 0"
    using mod_pos_pos_trivial [of "d + 128" 128] assms that by simp
  have b: "bit (word_of_int (d mod 128) :: u8) 6 \<longleftrightarrow> d < 0"
  proof -
    have "bit (word_of_int (d mod 128) :: u8) 6 \<longleftrightarrow> odd ((d mod 128) div 64)"
      by (simp only: bit_word_of_int_iff) (simp add: bit_iff_odd)
    also have "\<dots> \<longleftrightarrow> d < 0"
    proof (cases "d < 0")
      case True
      then have "d mod 128 = d + 128" by (rule neg)
      then have "(d mod 128) div 64 = 1" using True assms by (simp add: div_pos_pos_trivial div_add1_eq)
      then show ?thesis using True by simp
    qed (use assms in \<open>simp add: mod_pos_pos_trivial div_pos_pos_trivial\<close>)
    finally show ?thesis .
  qed
  have u: "uint (take_bit 7 (word_of_int (d mod 128) :: u8)) = d mod 128"
    by (simp only: unsigned_take_bit_eq uint_word_of_int) (simp add: take_bit_eq_mod mod_pos_pos_trivial)
  have "\<not> d < 0 \<Longrightarrow> d mod 128 = d" using assms by (simp add: mod_pos_pos_trivial)
  then show ?thesis unfolding report_delta_def m b u using neg by auto
qed

lemma report_delta_or: "report_delta (0x80 OR w) = report_delta w" "report_delta (0 OR w) = report_delta w"
proof -
  have "take_bit 7 (0x80 OR w) = take_bit 7 w" by (subst u8_eq_iff) (simp add: bit_simps)
  then show "report_delta (0x80 OR w) = report_delta w"
    by (simp add: report_delta_def bit_or_iff)
qed simp

lemma clamp7_conserves: "report_delta (fst (clamp7 v)) + snd (clamp7 v) = v"
  using report_delta_clamp [of "clamp v (-64) 63"] clamp_range [of "-64" 63 v] by (simp add: clamp7_def Let_def)

lemma clamp7_rest: "snd (clamp7 v) = (if v < -64 then v + 64 else if 63 < v then v - 63 else 0)"
  by (simp add: clamp7_def clamp_def Let_def)


section \<open>Polling\<close>

text \<open>The Talk register 0 command for an address, and a run of polls.\<close>

definition talk_r0 :: "u8 \<Rightarrow> u8" where
  "talk_r0 addr = push_bit 4 addr OR 0x0C"

fun adb_polls :: "u8 \<Rightarrow> nat \<Rightarrow> adb_bus \<Rightarrow> u8 list list \<times> adb_bus" where
  "adb_polls addr 0 b = ([], b)"
| "adb_polls addr (Suc n) b =
     (let (r, b1) = adb_bus_command (talk_r0 addr) [] b; (rs, b2) = adb_polls addr n b1 in (r # rs, b2))"

lemma talk_r0_decode:
  assumes "addr < 16"
  shows "drop_bit 4 (talk_r0 addr) = addr" "drop_bit 2 (talk_r0 addr) AND 3 = 3" "talk_r0 addr AND 3 = 0"
    "talk_r0 addr AND 0x0F \<noteq> 0"
proof -
  have "unat addr < 2 ^ 4" using assms by (simp add: word_less_nat_alt)
  then have "take_bit 4 addr = addr"
    by (simp add: word_unat_eq_iff unsigned_take_bit_eq take_bit_nat_eq_self_iff)
  then have "\<not> bit addr n" if "4 \<le> n" for n using that by (metis bit_take_bit_iff not_less)
  then have hi: "\<not> bit addr 4" "\<not> bit addr 5" "\<not> bit addr 6" "\<not> bit addr 7" by simp_all
  have lo: "\<not> bit (talk_r0 addr) 0" "\<not> bit (talk_r0 addr) 1" "bit (talk_r0 addr) 2" "bit (talk_r0 addr) 3"
    by (simp_all add: talk_r0_def bit_simps)
  show "drop_bit 4 (talk_r0 addr) = addr"
    using hi by (simp add: u8_eq_iff talk_r0_def bit_simps)
  show "drop_bit 2 (talk_r0 addr) AND 3 = 3" "talk_r0 addr AND 3 = 0"
    using lo by (simp_all add: u8_eq_iff bit_simps)
  show "talk_r0 addr AND 0x0F \<noteq> 0"
    using lo by (simp add: u8_eq_iff bit_simps)
qed

lemma poll_kbd:
  assumes "ab_kbdAddr b < 16"
  shows "adb_bus_command (talk_r0 (ab_kbdAddr b)) [] b =
    (case ab_keyQueue b of [] \<Rightarrow> ([0xFF, 0xFF], b) | [k0] \<Rightarrow> ([k0, 0xFF], b\<lparr>ab_keyQueue := []\<rparr>)
      | k0 # k1 # ks \<Rightarrow> ([k0, k1], b\<lparr>ab_keyQueue := ks\<rparr>))"
  using talk_r0_decode [OF assms] by (simp add: adb_bus_command_def adb_bus_talk_kbd_def Let_def)

lemma poll_mouse:
  assumes "ab_mouseAddr b < 16" "ab_kbdAddr b \<noteq> ab_mouseAddr b"
  shows "adb_bus_command (talk_r0 (ab_mouseAddr b)) [] b =
    ([(if ab_mbtn b then 0 else 0x80) OR fst (clamp7 (ab_mdy b)), 0x80 OR fst (clamp7 (ab_mdx b))],
     b\<lparr>ab_mdy := snd (clamp7 (ab_mdy b)), ab_mdx := snd (clamp7 (ab_mdx b)), ab_mbtnSent := ab_mbtn b\<rparr>)"
  using talk_r0_decode [OF assms(1)] assms(2)
  by (simp add: adb_bus_command_def adb_bus_talk_mouse_def Let_def case_prod_beta)


section \<open>Reachable states\<close>

inductive adb_bus_reachable :: "adb_bus \<Rightarrow> bool" where
  rb_init: "adb_bus_reachable adb_bus_init"
| rb_reset: "adb_bus_reachable b \<Longrightarrow> adb_bus_reachable (adb_bus_reset b)"
| rb_key: "adb_bus_reachable b \<Longrightarrow> adb_bus_reachable (adb_bus_keyEvent c down b)"
| rb_move: "adb_bus_reachable b \<Longrightarrow> adb_bus_reachable (adb_bus_mouseMove dx dy b)"
| rb_button: "adb_bus_reachable b \<Longrightarrow> adb_bus_reachable (adb_bus_mouseButton down b)"
| rb_command: "adb_bus_reachable b \<Longrightarrow> adb_bus_reachable (snd (adb_bus_command cmd data b))"

definition adb_bus_ok :: "adb_bus \<Rightarrow> bool" where
  "adb_bus_ok b \<longleftrightarrow> \<bar>ab_mdx b\<bar> \<le> 256 \<and> \<bar>ab_mdy b\<bar> \<le> 256 \<and> ab_kbdAddr b < 16 \<and> ab_mouseAddr b < 16"

lemma and_0F_less: "(w :: u8) AND 0x0F < 16"
  by (rule le_less_trans [OF word_and_le1]) simp

lemma clamp7_bound: "\<bar>v\<bar> \<le> k \<Longrightarrow> \<bar>snd (clamp7 v)\<bar> \<le> max 0 (k - 63)"
  by (auto simp: clamp7_rest)

lemma adb_bus_talk_kbd_ok: "adb_bus_ok b \<Longrightarrow> adb_bus_ok (snd (adb_bus_talk_kbd reg b))"
  by (simp add: adb_bus_ok_def adb_bus_talk_kbd_def split: list.splits)

lemma adb_bus_talk_mouse_ok: "adb_bus_ok b \<Longrightarrow> adb_bus_ok (snd (adb_bus_talk_mouse reg b))"
  using clamp7_bound [of "ab_mdx b" 256] clamp7_bound [of "ab_mdy b" 256]
  by (simp add: adb_bus_ok_def adb_bus_talk_mouse_def case_prod_beta)

lemma adb_bus_listen_ok: "adb_bus_ok b \<Longrightarrow> adb_bus_ok (adb_bus_listen addr reg data b)"
  by (simp add: adb_bus_ok_def adb_bus_listen_def Let_def and_0F_less)

lemma adb_bus_command_ok:
  assumes "adb_bus_ok b"
  shows "adb_bus_ok (snd (adb_bus_command cmd data b))"
proof -
  have "adb_bus_ok (b\<lparr>ab_kbdAddr := 2, ab_mouseAddr := 3\<rparr>)" using assms by (simp add: adb_bus_ok_def)
  then show ?thesis
    using assms adb_bus_talk_kbd_ok adb_bus_talk_mouse_ok adb_bus_listen_ok
    unfolding adb_bus_command_def Let_def by (simp only: split: if_split) simp
qed

lemma adb_bus_reachable_ok: "adb_bus_reachable b \<Longrightarrow> adb_bus_ok b"
proof (induction rule: adb_bus_reachable.induct)
  case (rb_command b cmd data)
  then show ?case by (rule_tac adb_bus_command_ok)
qed (auto simp: adb_bus_ok_def adb_bus_init_def adb_bus_reset_def adb_bus_keyEvent_def adb_bus_mouseMove_def
    adb_bus_mouseButton_def clamp_def)

lemma adb_polls_kbd:
  assumes "ab_kbdAddr b < 16" "length (ab_keyQueue b) \<le> 2 * n"
  shows "concat (fst (adb_polls (ab_kbdAddr b) n b)) =
      ab_keyQueue b @ replicate (2 * n - length (ab_keyQueue b)) 0xFF \<and>
    snd (adb_polls (ab_kbdAddr b) n b) = b\<lparr>ab_keyQueue := []\<rparr>"
  using assms
proof (induction n arbitrary: b)
  case (Suc n)
  show ?case
  proof (cases "ab_keyQueue b")
    case Nil
    then show ?thesis using Suc.IH [of b] Suc.prems poll_kbd [of b] by (simp add: case_prod_beta)
  next
    case (Cons k0 ks)
    let ?b = "b\<lparr>ab_keyQueue := tl ks\<rparr>"
    show ?thesis
      using Suc.IH [of ?b] Suc.prems poll_kbd [of b] Cons
      by (cases ks) (simp_all add: case_prod_beta)
  qed
qed simp

lemma adb_polls_mouse:
  assumes "ab_mouseAddr b < 16" "ab_kbdAddr b \<noteq> ab_mouseAddr b" "\<bar>ab_mdx b\<bar> \<le> k" "\<bar>ab_mdy b\<bar> \<le> k" "adb_polls (ab_mouseAddr b) n b = (rs, b')"
  shows "sum_list (map (\<lambda>r. report_delta (r ! 0)) rs) + ab_mdy b' = ab_mdy b \<and>
    sum_list (map (\<lambda>r. report_delta (r ! 1)) rs) + ab_mdx b' = ab_mdx b \<and>
    \<bar>ab_mdx b'\<bar> \<le> max 0 (k - 63 * int n) \<and> \<bar>ab_mdy b'\<bar> \<le> max 0 (k - 63 * int n) \<and>
    ab_mbtn b' = ab_mbtn b \<and> ab_mbtnSent b' = (if n = 0 then ab_mbtnSent b else ab_mbtn b)"
  using assms
proof (induction n arbitrary: b k rs)
  case (Suc n)
  define b1 where "b1 = b\<lparr>ab_mdy := snd (clamp7 (ab_mdy b)), ab_mdx := snd (clamp7 (ab_mdx b)), ab_mbtnSent := ab_mbtn b\<rparr>"
  obtain rs1 where rs1: "adb_polls (ab_mouseAddr b1) n b1 = (rs1, b')"
    and rs: "rs = [(if ab_mbtn b then 0 else 0x80) OR fst (clamp7 (ab_mdy b)), 0x80 OR fst (clamp7 (ab_mdx b))] # rs1"
    using Suc.prems(5) poll_mouse [OF Suc.prems(1,2)]
    by (auto simp: b1_def Let_def split: prod.splits)
  have "0 \<le> k" using Suc.prems(3) by linarith
  have k: "\<bar>ab_mdx b1\<bar> \<le> max 0 (k - 63)" "\<bar>ab_mdy b1\<bar> \<le> max 0 (k - 63)"
    using clamp7_bound [OF Suc.prems(3)] clamp7_bound [OF Suc.prems(4)] by (simp_all add: b1_def)
  have m: "max 0 (max 0 (k - 63) - 63 * int n) = max 0 (k - 63 * int (Suc n))"
    by (simp add: max_def)
  note Suc.IH [OF _ _ k rs1, unfolded m]
  then show ?case
    using Suc.prems(1,2) clamp7_conserves [of "ab_mdx b"] clamp7_conserves [of "ab_mdy b"]
    by (simp add: rs b1_def report_delta_or split: if_splits)
qed simp

text \<open>C31: no keystroke is lost, duplicated or reordered: in any reachable state, polling the
  keyboard often enough returns exactly the queued transitions in order, then filler, and leaves
  the queue empty and everything else as it was.  The filler is what the code answers a poll with
  nothing pending: two bytes \<^verbatim>\<open>FF\<close>, where the comment in \<^verbatim>\<open>AdbBus.h\<close> announces an empty answer.\<close>

theorem adb_key_fifo:
  assumes "adb_bus_reachable b" "length (ab_keyQueue b) \<le> 2 * n"
  shows "concat (fst (adb_polls (ab_kbdAddr b) n b)) =
      ab_keyQueue b @ replicate (2 * n - length (ab_keyQueue b)) 0xFF \<and>
    snd (adb_polls (ab_kbdAddr b) n b) = b\<lparr>ab_keyQueue := []\<rparr>"
  using adb_polls_kbd [of b n] adb_bus_reachable_ok [OF assms(1)] assms(2) by (simp add: adb_bus_ok_def)

theorem adb_key_fifo_witness:
  "concat (fst (adb_polls 2 2 (adb_bus_keyEvent 0x24 False (adb_bus_keyEvent 0x24 True adb_bus_init)))) = [0x24, 0xA4, 0xFF, 0xFF]"
proof -
  have "adb_bus_reachable (adb_bus_keyEvent 0x24 False (adb_bus_keyEvent 0x24 True adb_bus_init))"
    by (intro adb_bus_reachable.intros)
  moreover have "replicate 2 (0xFF :: u8) = [0xFF, 0xFF]" by (simp add: numeral_2_eq_2)
  ultimately show ?thesis
    using adb_key_fifo [of "adb_bus_keyEvent 0x24 False (adb_bus_keyEvent 0x24 True adb_bus_init)" 2]
    by (simp add: adb_bus_keyEvent_def adb_bus_init_def)
qed

text \<open>C32: no mouse motion is lost: in any reachable state with the two devices at different
  addresses, five or more polls of the mouse return deltas that add up, axis by axis, to the
  accumulated motion, after which nothing is pending.\<close>

theorem adb_mouse_conserves:
  assumes "adb_bus_reachable b" "ab_kbdAddr b \<noteq> ab_mouseAddr b" "5 \<le> n"
  shows "let (rs, b') = adb_polls (ab_mouseAddr b) n b
    in sum_list (map (\<lambda>r. report_delta (r ! 0)) rs) = ab_mdy b \<and>
       sum_list (map (\<lambda>r. report_delta (r ! 1)) rs) = ab_mdx b \<and> \<not> adb_bus_mousePending b'"
proof -
  obtain rs b' where r: "adb_polls (ab_mouseAddr b) n b = (rs, b')" by (metis prod.collapse)
  have ok: "adb_bus_ok b" by (rule adb_bus_reachable_ok [OF assms(1)])
  have "max 0 (256 - 63 * int n) = 0" using assms(3) by simp
  then show ?thesis
    using adb_polls_mouse [OF _ assms(2) _ _ r, of 256] ok assms(3)
    by (simp add: r adb_bus_ok_def adb_bus_mousePending_def)
qed

theorem adb_mouse_conserves_witness:
  "let (rs, b') = adb_polls 3 5 (adb_bus_mouseMove 300 (-200) adb_bus_init)
   in sum_list (map (\<lambda>r. report_delta (r ! 1)) rs) = 256 \<and> \<not> adb_bus_mousePending b'"
proof -
  have "adb_bus_reachable (adb_bus_mouseMove 300 (-200) adb_bus_init)"
    by (intro adb_bus_reachable.intros)
  from adb_mouse_conserves [OF this, of 5] show ?thesis
    by (simp add: adb_bus_mouseMove_def adb_bus_init_def clamp_def case_prod_beta)
qed

end
