(* ===== verification/Adb_Line.thy ===== *)
theory Adb_Line
  imports Adb_Bus
begin

text \<open>
  The bit-serial Apple Desktop Bus of \<^verbatim>\<open>AdbLine.h\<close> and \<^verbatim>\<open>AdbLine.cpp\<close>: an open-collector
  line shared by the transceiver and two devices, a keyboard and a mouse, that decode the host's
  pulses into command and data bytes and answer with pulses of their own.  The line state is the
  integer of the C++ enumeration because the code steps through it with \<^verbatim>\<open>linestate_++\<close>; time
  is an unbounded integer.

  The lemmas show that the engine is memory safe whatever the host does to the line, that it
  decodes a command byte from any waveform inside the pulse-width tolerances, that it sends its
  answer as the bus specification asks, and that a whole Talk transaction delivers the device's
  bytes.  Trace output is left out.
\<close>

abbreviation (input) "kShort \<equiv> 544 :: int"
abbreviation (input) "kLong \<equiv> 1020 :: int"
abbreviation (input) "kSrq \<equiv> 2250 :: int"
abbreviation (input) "kT1t \<equiv> 1020 :: int"
abbreviation (input) "kStop \<equiv> 1125 :: int"
abbreviation (input) "T_BIT \<equiv> 782 :: int"
abbreviation (input) "T_SYNC \<equiv> 450 :: int"
abbreviation (input) "T_ATTEN \<equiv> 6000 :: int"
abbreviation (input) "T_RESET \<equiv> 30000 :: int"
abbreviation (input) "T_T1T \<equiv> 1800 :: int"

abbreviation (input) "LST_IDLE \<equiv> 0 :: nat"
abbreviation (input) "LST_ATTENTION \<equiv> 1 :: nat"
abbreviation (input) "LST_BIT0 \<equiv> 2 :: nat"
abbreviation (input) "LST_BIT7 \<equiv> 9 :: nat"
abbreviation (input) "LST_TSTOP \<equiv> 10 :: nat"
abbreviation (input) "LST_WAITT1T \<equiv> 11 :: nat"
abbreviation (input) "LST_RCVSTARTBIT \<equiv> 12 :: nat"
abbreviation (input) "LST_SRQNODATA \<equiv> 13 :: nat"
abbreviation (input) "LST_TSTOPSTART \<equiv> 14 :: nat"
abbreviation (input) "LST_TSTOPSTARTa \<equiv> 15 :: nat"
abbreviation (input) "LST_STARTBIT \<equiv> 16 :: nat"
abbreviation (input) "LST_SENDBIT0 \<equiv> 17 :: nat"
abbreviation (input) "LST_SENDBIT7 \<equiv> 31 :: nat"
abbreviation (input) "LST_SENDBIT7a \<equiv> 32 :: nat"
abbreviation (input) "LST_SENDSTOP \<equiv> 33 :: nat"
abbreviation (input) "LST_SENDSTOPa \<equiv> 34 :: nat"

record adb_line =
  al_hostDrive :: bool
  al_deviceDrive :: bool
  al_linestate :: nat
  al_now :: int
  al_lastEdge :: int
  al_sendTimer :: int
  al_command :: u8
  al_waitingCmd :: bool
  al_direction :: bool
  al_buffer :: "u8 list"
  al_datasize :: nat
  al_streamPtr :: nat
  al_srqFlag :: bool
  al_srqSwitch :: bool
  al_listenAddr :: u8
  al_listenReg :: u8
  al_kbdAddr :: u8
  al_kbdHandler :: u8
  al_modifiers :: u8
  al_kbdHandlerId :: u8
  al_kbdLeds :: u8
  al_mouseAddr :: u8
  al_mouseHandler :: u8
  al_mouseHandlerId :: u8
  al_keyBuf :: "u8 list"
  al_mdx :: int
  al_mdy :: int
  al_mbtn :: bool
  al_mbtnSent :: bool
  al_mbtn2 :: bool
  al_mbtn2Sent :: bool
  al_configuredKeyboardHandlerId :: u8

definition adb_line_init :: adb_line where
  "adb_line_init = \<lparr>al_hostDrive = True, al_deviceDrive = True, al_linestate = LST_IDLE, al_now = 0, al_lastEdge = 0,
     al_sendTimer = -1, al_command = 0, al_waitingCmd = False, al_direction = False, al_buffer = replicate 8 0,
     al_datasize = 0, al_streamPtr = 0, al_srqFlag = False, al_srqSwitch = False, al_listenAddr = 0,
     al_listenReg = 0, al_kbdAddr = 2, al_kbdHandler = 0x22, al_modifiers = 0xFF, al_kbdHandlerId = 1,
     al_kbdLeds = 7, al_mouseAddr = 3, al_mouseHandler = 0x23, al_mouseHandlerId = 1, al_keyBuf = [],
     al_mdx = 0, al_mdy = 0, al_mbtn = False, al_mbtnSent = False, al_mbtn2 = False, al_mbtn2Sent = False,
     al_configuredKeyboardHandlerId = 1\<rparr>"

definition adb_line_configure :: "u8 \<Rightarrow> adb_line \<Rightarrow> adb_line" where
  "adb_line_configure keyboardHandlerId s =
     s\<lparr>al_configuredKeyboardHandlerId :=
         (if 1 \<le> keyboardHandlerId \<and> keyboardHandlerId \<le> 3 then keyboardHandlerId else 1)\<rparr>"

definition adb_line_level :: "adb_line \<Rightarrow> bool" where
  "adb_line_level s \<longleftrightarrow> al_hostDrive s \<and> al_deviceDrive s"

definition adb_line_busy :: "adb_line \<Rightarrow> bool" where
  "adb_line_busy s \<longleftrightarrow> al_linestate s \<noteq> LST_IDLE \<or> 0 \<le> al_sendTimer s"

definition adb_line_resetDevices :: "adb_line \<Rightarrow> adb_line" where
  "adb_line_resetDevices s =
     s\<lparr>al_kbdAddr := 2, al_kbdHandler := 0x22, al_modifiers := 0xFF, al_kbdLeds := 7, al_mouseAddr := 3,
       al_mouseHandler := 0x23, al_kbdHandlerId := al_configuredKeyboardHandlerId s, al_mouseHandlerId := 1\<rparr>"

definition adb_line_reset :: "adb_line \<Rightarrow> adb_line" where
  "adb_line_reset s =
     (let s = s\<lparr>al_hostDrive := True, al_deviceDrive := True, al_linestate := LST_IDLE, al_now := 0,
                al_lastEdge := 0, al_sendTimer := -1, al_command := 0, al_waitingCmd := False,
                al_direction := False, al_datasize := 0, al_streamPtr := 0, al_srqFlag := False,
                al_srqSwitch := False\<rparr>;
          s = adb_line_resetDevices s
      in s\<lparr>al_keyBuf := [], al_mdx := 0, al_mdy := 0, al_mbtn := False, al_mbtnSent := False,
           al_mbtn2 := False, al_mbtn2Sent := False\<rparr>)"

text \<open>Right-hand modifiers folded onto the left-hand ones, and the bit of a modifier in the
  register 2 bitmap.\<close>

definition adb_fold_key :: "u8 \<Rightarrow> u8" where
  "adb_fold_key adbCode =
     (let folded = adbCode AND 0x7F
      in if folded = 0x7D then 0x36 else if folded = 0x7B then 0x38 else if folded = 0x7C then 0x3A else folded)"

definition adb_modifier_bit :: "u8 \<Rightarrow> u8 option" where
  "adb_modifier_bit folded =
     (if folded = 0x39 then Some 0x20 else if folded = 0x36 then Some 0x08 else if folded = 0x38 then Some 0x04
      else if folded = 0x3A then Some 0x02 else if folded = 0x37 then Some 0x01 else None)"

definition adb_line_keyEvent :: "u8 \<Rightarrow> bool \<Rightarrow> adb_line \<Rightarrow> adb_line" where
  "adb_line_keyEvent adbCode down s =
     (let folded = adb_fold_key adbCode;
          s = s\<lparr>al_keyBuf := al_keyBuf s @
                [(if down then 0 else 0x80) OR (if al_kbdHandlerId s = 3 then adbCode AND 0x7F else folded)]\<rparr>
      in case adb_modifier_bit folded of
           None \<Rightarrow> s
         | Some m \<Rightarrow> if down then s\<lparr>al_modifiers := al_modifiers s AND NOT m\<rparr>
                     else s\<lparr>al_modifiers := al_modifiers s OR m\<rparr>)"

definition adb_line_mouseMove :: "int \<Rightarrow> int \<Rightarrow> adb_line \<Rightarrow> adb_line" where
  "adb_line_mouseMove dx dy s =
     s\<lparr>al_mdx := clamp (al_mdx s + dx) (-256) 256, al_mdy := clamp (al_mdy s + dy) (-256) 256\<rparr>"

definition adb_line_mouseButton :: "bool \<Rightarrow> int \<Rightarrow> adb_line \<Rightarrow> adb_line" where
  "adb_line_mouseButton down button s =
     (if button = 0 then s\<lparr>al_mbtn := down\<rparr> else if button = 1 then s\<lparr>al_mbtn2 := down\<rparr> else s)"

definition adb_line_mousePending :: "adb_line \<Rightarrow> bool" where
  "adb_line_mousePending s \<longleftrightarrow> al_mdx s \<noteq> 0 \<or> al_mdy s \<noteq> 0 \<or> al_mbtn s \<noteq> al_mbtnSent s \<or>
     al_mouseHandlerId s = 4 \<and> al_mbtn2 s \<noteq> al_mbtn2Sent s"

definition adb_line_keyPending :: "adb_line \<Rightarrow> bool" where
  "adb_line_keyPending s \<longleftrightarrow> al_keyBuf s \<noteq> []"

definition adb_line_writeData :: "bool \<Rightarrow> adb_line \<Rightarrow> adb_line" where
  "adb_line_writeData level s =
     (if al_deviceDrive s = level then s else s\<lparr>al_deviceDrive := level, al_lastEdge := al_now s\<rparr>)"

definition adb_line_armTimer :: "int \<Rightarrow> adb_line \<Rightarrow> adb_line" where
  "adb_line_armTimer cyc s = s\<lparr>al_sendTimer := cyc\<rparr>"


section \<open>Command decoding\<close>

definition adb_line_talk_mouse_r0 :: "adb_line \<Rightarrow> adb_line" where
  "adb_line_talk_mouse_r0 s =
     (let (pending, dy, dx, s) =
            (if al_srqSwitch s then (True, 0, 0, s\<lparr>al_srqSwitch := False\<rparr>)
             else
               let pending = (al_mdx s \<noteq> 0 \<or> al_mdy s \<noteq> 0 \<or> al_mbtn s \<noteq> al_mbtnSent s);
                   (dy, mdy) = clamp7 (al_mdy s); (dx, mdx) = clamp7 (al_mdx s)
               in (pending, dy, dx, s\<lparr>al_mdy := mdy, al_mdx := mdx\<rparr>));
          b2 = (al_mouseHandlerId s = 4 \<and> al_mbtn2 s);
          s = s\<lparr>al_buffer := (al_buffer s)[0 := (if al_mbtn s then 0 else 0x80) OR dy,
                                          1 := (if b2 then 0 else 0x80) OR dx],
                al_mbtnSent := al_mbtn s, al_mbtn2Sent := al_mbtn2 s\<rparr>
      in if pending then s\<lparr>al_datasize := 2\<rparr>
         else if adb_line_keyPending s \<and> flag (al_kbdHandler s) 0x20 then s\<lparr>al_srqFlag := True\<rparr>
         else s)"

definition adb_line_talk_mouse :: "u8 \<Rightarrow> adb_line \<Rightarrow> adb_line" where
  "adb_line_talk_mouse reg s =
     (if reg = 0 then adb_line_talk_mouse_r0 s
      else if reg = 1 \<and> al_mouseHandlerId s = 4 then
        s\<lparr>al_buffer := [0x61, 0x70, 0x70, 0x6C, 0x01, 0x2C, 0x01, 0x02], al_datasize := 8\<rparr>
      else if reg = 3 then
        s\<lparr>al_buffer := (al_buffer s)[0 := al_mouseHandler s, 1 := al_mouseHandlerId s], al_datasize := 2\<rparr>
      else s)"

definition adb_line_talk_kbd_r0 :: "adb_line \<Rightarrow> adb_line" where
  "adb_line_talk_kbd_r0 s =
     (let pending = (al_keyBuf s \<noteq> []);
          s = (case al_keyBuf s of
                 [] \<Rightarrow> s\<lparr>al_buffer := (al_buffer s)[0 := 0xFF, 1 := 0xFF]\<rparr>
               | [k] \<Rightarrow> s\<lparr>al_buffer := (al_buffer s)[1 := k, 0 := 0xFF], al_keyBuf := []\<rparr>
               | k # k' # ks \<Rightarrow> s\<lparr>al_buffer := (al_buffer s)[1 := k, 0 := k'], al_keyBuf := ks\<rparr>)
      in if pending then s\<lparr>al_datasize := 2\<rparr>
         else if adb_line_mousePending s \<and> flag (al_mouseHandler s) 0x20 then s\<lparr>al_srqFlag := True\<rparr>
         else s)"

definition adb_line_talk_kbd :: "u8 \<Rightarrow> adb_line \<Rightarrow> adb_line" where
  "adb_line_talk_kbd reg s =
     (if reg = 0 then adb_line_talk_kbd_r0 s
      else if reg = 2 then
        s\<lparr>al_buffer := (al_buffer s)[0 := al_modifiers s, 1 := 0xF8 OR (al_kbdLeds s AND 7)], al_datasize := 2\<rparr>
      else if reg = 3 then
        s\<lparr>al_buffer := (al_buffer s)[0 := al_kbdHandler s, 1 := al_kbdHandlerId s], al_datasize := 2\<rparr>
      else s)"

definition adb_line_talk_absent :: "adb_line \<Rightarrow> adb_line" where
  "adb_line_talk_absent s =
     (let s = s\<lparr>al_buffer := (al_buffer s)[0 := 0, 1 := 0], al_datasize := 0\<rparr>
      in if adb_line_mousePending s \<and> flag (al_mouseHandler s) 0x20 then s\<lparr>al_srqFlag := True\<rparr> else s)"

text \<open>The command phase of \<^verbatim>\<open>adbTalk\<close>.\<close>

definition adb_line_command :: "adb_line \<Rightarrow> adb_line" where
  "adb_line_command s =
     (let addr = drop_bit 4 (al_command s); op = drop_bit 2 (al_command s) AND 3; reg = al_command s AND 3;
          s = s\<lparr>al_datasize := 0\<rparr>;
          s = (if op = 0 \<or> op = 1 then
                 let s = s\<lparr>al_direction := False\<rparr>
                 in if al_command s = 0 then adb_line_resetDevices s else s
               else if op = 2 then
                 if addr = al_kbdAddr s \<or> addr = al_mouseAddr s then
                   s\<lparr>al_direction := True, al_command := 0, al_listenReg := reg, al_listenAddr := addr,
                     al_streamPtr := 0, al_buffer := replicate 8 0\<rparr>
                 else s\<lparr>al_direction := False\<rparr>
               else
                 let s = s\<lparr>al_direction := False\<rparr>
                 in if addr = al_mouseAddr s then adb_line_talk_mouse reg s
                    else if addr = al_kbdAddr s then adb_line_talk_kbd reg s
                    else adb_line_talk_absent s)
      in s\<lparr>al_waitingCmd := False\<rparr>)"

definition adb_line_listen_mouse_r3 :: "adb_line \<Rightarrow> adb_line" where
  "adb_line_listen_mouse_r3 s =
     (let act = al_buffer s ! 1; na = al_command s AND 0x0F
      in if act = 0x00 then s\<lparr>al_mouseHandler := al_command s AND 0x7F, al_mouseAddr := na\<rparr>
         else if act = 0xFE then
           s\<lparr>al_mouseAddr := na, al_mouseHandler := (al_mouseHandler s AND 0xF0) OR na\<rparr>
         else if act = 0x01 \<or> act = 0x02 \<or> act = 0x04 then s\<lparr>al_mouseHandlerId := act\<rparr>
         else s)"

definition adb_line_listen_kbd_r3 :: "adb_line \<Rightarrow> adb_line" where
  "adb_line_listen_kbd_r3 s =
     (let act = al_buffer s ! 1; na = al_command s AND 0x0F
      in if act = 0x00 then s\<lparr>al_kbdHandler := al_command s AND 0x7F, al_kbdAddr := na\<rparr>
         else if act = 0xFE then s\<lparr>al_kbdAddr := na, al_kbdHandler := (al_kbdHandler s AND 0xF0) OR na\<rparr>
         else if act = 0x01 \<or> act = 0x02 then s\<lparr>al_kbdHandlerId := act\<rparr>
         else if act = 0x03 \<and> al_kbdHandlerId s \<noteq> 1 then s\<lparr>al_kbdHandlerId := 3\<rparr>
         else s)"

text \<open>The listen data phase of \<^verbatim>\<open>adbTalk\<close>.\<close>

definition adb_line_listen :: "adb_line \<Rightarrow> adb_line" where
  "adb_line_listen s =
     (let s = s\<lparr>al_direction := False\<rparr>
      in if al_listenReg s = 2 then
           if al_listenAddr s = al_kbdAddr s then s\<lparr>al_kbdLeds := al_buffer s ! 1 AND 7\<rparr> else s
         else if al_listenReg s = 3 then
           if al_listenAddr s = al_mouseAddr s then adb_line_listen_mouse_r3 s
           else if al_listenAddr s = al_kbdAddr s then adb_line_listen_kbd_r3 s
           else s
         else s)"

definition adb_line_adbTalk :: "adb_line \<Rightarrow> adb_line" where
  "adb_line_adbTalk s = (if al_waitingCmd s then adb_line_command s else adb_line_listen s)"


section \<open>Receiving\<close>

text \<open>The stop bit: the command or the listen data is processed, and the line state chosen.\<close>

definition adb_line_stop :: "adb_line \<Rightarrow> adb_line" where
  "adb_line_stop s =
     (let s = (if al_direction s then s\<lparr>al_command := al_buffer s ! 0\<rparr> else s);
          s = adb_line_adbTalk (s\<lparr>al_srqFlag := False\<rparr>)
      in if al_srqFlag s then
           adb_line_armTimer kSrq ((adb_line_writeData False s)\<lparr>al_linestate := LST_SRQNODATA\<rparr>)
         else
           let s = adb_line_writeData True s
           in if 0 < al_datasize s then
                (adb_line_armTimer kT1t (s\<lparr>al_linestate := LST_TSTOPSTART\<rparr>))\<lparr>al_streamPtr := 0\<rparr>
              else if al_direction s then s\<lparr>al_linestate := LST_WAITT1T\<rparr>
              else s\<lparr>al_linestate := LST_IDLE\<rparr>)"

text \<open>A falling edge inside a byte: the bit is the length of the high phase it ends.\<close>

definition adb_line_bit :: "int \<Rightarrow> adb_line \<Rightarrow> adb_line" where
  "adb_line_bit dtime s =
     (let s = (if T_BIT \<le> dtime then s\<lparr>al_command := al_command s OR 1\<rparr> else s);
          s = (if al_linestate s \<noteq> LST_BIT7 then s\<lparr>al_command := push_bit 1 (al_command s)\<rparr>
               else if al_direction s then
                 (if al_streamPtr s < 8
                  then s\<lparr>al_buffer := (al_buffer s)[al_streamPtr s := al_command s],
                         al_streamPtr := al_streamPtr s + 1\<rparr>
                  else s)\<lparr>al_command := 0\<rparr>
               else s)
      in s\<lparr>al_linestate := al_linestate s + 1\<rparr>)"

definition adb_line_resume :: "int \<Rightarrow> adb_line \<Rightarrow> adb_line" where
  "adb_line_resume dtime s =
     (if al_direction s \<and> al_linestate s = LST_TSTOP then
        if odd (al_streamPtr s) then s\<lparr>al_linestate := LST_BIT0\<rparr>
        else if dtime < T_BIT then s\<lparr>al_linestate := LST_BIT0\<rparr>
        else s
      else s)"

definition adb_line_receiveEdge :: "bool \<Rightarrow> int \<Rightarrow> adb_line \<Rightarrow> adb_line" where
  "adb_line_receiveEdge level dtime s0 =
     (let s = adb_line_resume dtime s0; st = al_linestate s
      in if st = LST_IDLE then
           if level \<and> T_RESET \<le> dtime then adb_line_resetDevices s
           else if level \<and> T_ATTEN \<le> dtime then
             s\<lparr>al_waitingCmd := True, al_direction := False, al_linestate := LST_ATTENTION\<rparr>
           else s
         else if st = LST_ATTENTION then
           if \<not> level \<and> T_SYNC \<le> dtime then s\<lparr>al_command := 0, al_linestate := LST_BIT0\<rparr> else s
         else if LST_BIT0 \<le> st \<and> st \<le> LST_BIT7 then
           if \<not> level then adb_line_bit dtime s else s
         else if st = LST_TSTOP then
           if level then adb_line_stop s else s
         else if st = LST_WAITT1T then
           if \<not> level \<and> T_T1T \<le> dtime then s\<lparr>al_linestate := LST_RCVSTARTBIT\<rparr> else s
         else if st = LST_RCVSTARTBIT then
           if \<not> level \<and> T_SYNC \<le> dtime then s\<lparr>al_linestate := LST_BIT0, al_command := 0\<rparr> else s
         else s)"

definition adb_line_setHostDrive :: "bool \<Rightarrow> adb_line \<Rightarrow> adb_line" where
  "adb_line_setHostDrive high s =
     (let old = adb_line_level s; s = s\<lparr>al_hostDrive := high\<rparr>; nw = adb_line_level s
      in if nw = old then s
         else let dtime = al_now s - al_lastEdge s
              in adb_line_receiveEdge nw dtime (s\<lparr>al_lastEdge := al_now s\<rparr>))"


section \<open>Sending\<close>

definition adb_line_timerTick :: "adb_line \<Rightarrow> adb_line" where
  "adb_line_timerTick s =
     (let st = al_linestate s; nxt = (\<lambda>s. s\<lparr>al_linestate := al_linestate s + 1\<rparr>);
          top = flag (al_buffer s ! al_streamPtr s) 0x80
      in if st = LST_SRQNODATA then (adb_line_writeData True s)\<lparr>al_linestate := LST_IDLE\<rparr>
         else if st = LST_TSTOPSTART then nxt (adb_line_armTimer kShort (adb_line_writeData True s))
         else if st = LST_TSTOPSTARTa then nxt (adb_line_armTimer kShort (adb_line_writeData False s))
         else if st = LST_STARTBIT then nxt (adb_line_armTimer kLong (adb_line_writeData True s))
         else if LST_SENDBIT0 \<le> st \<and> st \<le> LST_SENDBIT7 \<and> odd st then
           nxt (adb_line_armTimer (if top then kShort else kLong) (adb_line_writeData False s))
         else if LST_SENDBIT0 \<le> st \<and> st < LST_SENDBIT7 \<and> even st then
           let s = adb_line_armTimer (if top then kLong else kShort) (adb_line_writeData True s)
           in nxt (s\<lparr>al_buffer := (al_buffer s)[al_streamPtr s := push_bit 1 (al_buffer s ! al_streamPtr s)]\<rparr>)
         else if st = LST_SENDBIT7a then
           let s = adb_line_armTimer (if top then kLong else kShort) (adb_line_writeData True s);
               s = s\<lparr>al_streamPtr := al_streamPtr s + 1\<rparr>
           in s\<lparr>al_linestate := (if al_streamPtr s = al_datasize s then LST_SENDSTOP else LST_SENDBIT0)\<rparr>
         else if st = LST_SENDSTOP then nxt (adb_line_armTimer kStop (adb_line_writeData False s))
         else if st = LST_SENDSTOPa then
           (adb_line_writeData True s)\<lparr>al_sendTimer := -1, al_linestate := LST_IDLE\<rparr>
         else s)"

lemma writeData_sel [simp]:
  "al_sendTimer (adb_line_writeData l s) = al_sendTimer s" "al_linestate (adb_line_writeData l s) = al_linestate s"
  "al_buffer (adb_line_writeData l s) = al_buffer s" "al_streamPtr (adb_line_writeData l s) = al_streamPtr s"
  "al_datasize (adb_line_writeData l s) = al_datasize s" "al_deviceDrive (adb_line_writeData l s) = l"
  "al_hostDrive (adb_line_writeData l s) = al_hostDrive s" "al_now (adb_line_writeData l s) = al_now s"
  by (auto simp: adb_line_writeData_def)

lemma timerTick_timer:
  assumes "al_sendTimer s = -1"
  shows "al_sendTimer (adb_line_timerTick s) = -1 \<or> kShort \<le> al_sendTimer (adb_line_timerTick s)"
  using assms by (simp add: adb_line_timerTick_def adb_line_armTimer_def Let_def)

text \<open>The loop of \<^verbatim>\<open>tick\<close>.  It ends because every pulse the send machine arms lasts at least
  \<^verbatim>\<open>kShort\<close> cycles, so the overshoot shrinks.\<close>

function adb_line_expire :: "adb_line \<Rightarrow> adb_line" where
  "adb_line_expire s =
     (if al_sendTimer s \<le> 0 \<and> - (2 ^ 30) \<le> al_sendTimer s then
        let carry = al_sendTimer s; s1 = adb_line_timerTick (s\<lparr>al_sendTimer := -1\<rparr>)
        in if al_sendTimer s1 < 0 then s1
           else adb_line_expire (s1\<lparr>al_sendTimer := al_sendTimer s1 + carry\<rparr>)
      else s)"
  by pat_completeness auto
termination
proof (relation "measure (\<lambda>s. nat (1 - al_sendTimer s))")
  fix s :: adb_line and carry s1
  assume "al_sendTimer s \<le> 0 \<and> - (2 ^ 30) \<le> al_sendTimer s" "carry = al_sendTimer s"
    "s1 = adb_line_timerTick (s\<lparr>al_sendTimer := -1\<rparr>)" "\<not> al_sendTimer s1 < 0"
  then show "(s1\<lparr>al_sendTimer := al_sendTimer s1 + carry\<rparr>, s) \<in> measure (\<lambda>s. nat (1 - al_sendTimer s))"
    using timerTick_timer [of "s\<lparr>al_sendTimer := -1\<rparr>"] by auto
qed simp

declare adb_line_expire.simps [simp del]

definition adb_line_tick :: "int \<Rightarrow> adb_line \<Rightarrow> adb_line" where
  "adb_line_tick cyc s =
     (let s = s\<lparr>al_now := al_now s + cyc\<rparr>
      in if al_sendTimer s < 0 then s
         else adb_line_expire (s\<lparr>al_sendTimer := al_sendTimer s - cyc\<rparr>))"


section \<open>Reachable states\<close>

text \<open>What can happen to the line: host input events, a reset, the transceiver driving the wire and
  time passing in batches of at most \<open>2 ^ 30\<close> cycles.\<close>

inductive adb_line_reachable :: "adb_line \<Rightarrow> bool" where
  rl_init: "adb_line_reachable adb_line_init"
| rl_configure: "adb_line_reachable s \<Longrightarrow> adb_line_reachable (adb_line_configure k s)"
| rl_reset: "adb_line_reachable s \<Longrightarrow> adb_line_reachable (adb_line_reset s)"
| rl_key: "adb_line_reachable s \<Longrightarrow> adb_line_reachable (adb_line_keyEvent c down s)"
| rl_move: "adb_line_reachable s \<Longrightarrow> adb_line_reachable (adb_line_mouseMove dx dy s)"
| rl_button: "adb_line_reachable s \<Longrightarrow> adb_line_reachable (adb_line_mouseButton down n s)"
| rl_drive: "adb_line_reachable s \<Longrightarrow> adb_line_reachable (adb_line_setHostDrive high s)"
| rl_tick: "adb_line_reachable s \<Longrightarrow> 0 \<le> cyc \<Longrightarrow> cyc \<le> 2 ^ 30 \<Longrightarrow> adb_line_reachable (adb_line_tick cyc s)"

definition adb_line_core :: "adb_line \<Rightarrow> bool" where
  "adb_line_core s \<longleftrightarrow> length (al_buffer s) = 8 \<and> al_streamPtr s \<le> 8 \<and> al_datasize s \<le> 8 \<and> \<not> al_srqSwitch s \<and>
     \<bar>al_mdx s\<bar> \<le> 256 \<and> \<bar>al_mdy s\<bar> \<le> 256 \<and> al_kbdAddr s < 16 \<and> al_mouseAddr s < 16 \<and>
     al_kbdHandlerId s \<in> {1, 2, 3} \<and> al_mouseHandlerId s \<in> {1, 2, 4} \<and>
     al_configuredKeyboardHandlerId s \<in> {1, 2, 3}"

definition adb_line_wire :: "adb_line \<Rightarrow> bool" where
  "adb_line_wire s \<longleftrightarrow> al_linestate s \<le> LST_SENDSTOPa \<and>
     (if al_linestate s < LST_SRQNODATA then al_sendTimer s = -1 \<and> al_deviceDrive s
      else 0 < al_sendTimer s \<and>
        (LST_TSTOPSTART \<le> al_linestate s \<and> al_linestate s \<le> LST_SENDBIT7a \<longrightarrow> al_streamPtr s < al_datasize s))"

text \<open>Decoding touches neither the wire nor its state.\<close>

definition adb_line_same_wire :: "adb_line \<Rightarrow> adb_line \<Rightarrow> bool" where
  "adb_line_same_wire s s' \<longleftrightarrow> al_linestate s' = al_linestate s \<and> al_sendTimer s' = al_sendTimer s \<and>
     al_deviceDrive s' = al_deviceDrive s"

lemma resetDevices_core: "adb_line_core s \<Longrightarrow> adb_line_core (adb_line_resetDevices s)"
  by (simp add: adb_line_core_def adb_line_resetDevices_def)

lemma core_updates [simp]:
  "adb_line_core s \<Longrightarrow> n \<le> 8 \<Longrightarrow> adb_line_core (s\<lparr>al_datasize := n\<rparr>)"
  "adb_line_core s \<Longrightarrow> length bs = 8 \<Longrightarrow> adb_line_core (s\<lparr>al_buffer := bs\<rparr>)"
  "adb_line_core s \<Longrightarrow> n \<le> 8 \<Longrightarrow> adb_line_core (s\<lparr>al_streamPtr := n\<rparr>)"
  "adb_line_core s \<Longrightarrow> \<bar>i\<bar> \<le> 256 \<Longrightarrow> adb_line_core (s\<lparr>al_mdx := i\<rparr>)"
  "adb_line_core s \<Longrightarrow> \<bar>i\<bar> \<le> 256 \<Longrightarrow> adb_line_core (s\<lparr>al_mdy := i\<rparr>)"
  "adb_line_core (s\<lparr>al_mbtnSent := d\<rparr>) = adb_line_core s"
  "adb_line_core (s\<lparr>al_mbtn2Sent := d\<rparr>) = adb_line_core s"
  "adb_line_core (s\<lparr>al_keyBuf := ks\<rparr>) = adb_line_core s"
  "adb_line_core (s\<lparr>al_listenReg := c\<rparr>) = adb_line_core s"
  "adb_line_core (s\<lparr>al_listenAddr := c\<rparr>) = adb_line_core s"
  "adb_line_core (s\<lparr>al_direction := d\<rparr>) = adb_line_core s"
  "adb_line_core (s\<lparr>al_waitingCmd := d\<rparr>) = adb_line_core s"
  "adb_line_core (s\<lparr>al_command := c\<rparr>) = adb_line_core s"
  "adb_line_core (s\<lparr>al_srqFlag := d\<rparr>) = adb_line_core s"
  "adb_line_core (s\<lparr>al_linestate := n\<rparr>) = adb_line_core s"
  "adb_line_core (s\<lparr>al_sendTimer := i\<rparr>) = adb_line_core s"
  "adb_line_core (s\<lparr>al_lastEdge := i\<rparr>) = adb_line_core s"
  "adb_line_core (s\<lparr>al_now := i\<rparr>) = adb_line_core s"
  "adb_line_core (s\<lparr>al_hostDrive := d\<rparr>) = adb_line_core s"
  "adb_line_core (adb_line_writeData d s) = adb_line_core s"
  by (simp_all add: adb_line_core_def adb_line_writeData_def)

lemma core_sel:
  assumes "adb_line_core s"
  shows "length (al_buffer s) = 8" "\<not> al_srqSwitch s" "\<bar>al_mdx s\<bar> \<le> 256" "\<bar>al_mdy s\<bar> \<le> 256"
  using assms by (simp_all add: adb_line_core_def)

lemma same_wire_updates [simp]:
  "adb_line_same_wire s (s'\<lparr>al_datasize := n\<rparr>) = adb_line_same_wire s s'"
  "adb_line_same_wire s (s'\<lparr>al_buffer := bs\<rparr>) = adb_line_same_wire s s'"
  "adb_line_same_wire s (s'\<lparr>al_srqFlag := d\<rparr>) = adb_line_same_wire s s'"
  "adb_line_same_wire s (s'\<lparr>al_direction := d\<rparr>) = adb_line_same_wire s s'"
  "adb_line_same_wire s (s'\<lparr>al_mdx := i\<rparr>) = adb_line_same_wire s s'"
  "adb_line_same_wire s (s'\<lparr>al_mdy := i\<rparr>) = adb_line_same_wire s s'"
  "adb_line_same_wire s (s'\<lparr>al_mbtnSent := d\<rparr>) = adb_line_same_wire s s'"
  "adb_line_same_wire s (s'\<lparr>al_mbtn2Sent := d\<rparr>) = adb_line_same_wire s s'"
  "adb_line_same_wire s (s'\<lparr>al_keyBuf := ks\<rparr>) = adb_line_same_wire s s'"
  "adb_line_same_wire (s\<lparr>al_datasize := n\<rparr>) s' = adb_line_same_wire s s'"
  "adb_line_same_wire (s\<lparr>al_direction := d\<rparr>) s' = adb_line_same_wire s s'"
  "adb_line_same_wire s (s'\<lparr>al_waitingCmd := d\<rparr>) = adb_line_same_wire s s'"
  "adb_line_same_wire (s\<lparr>al_command := c\<rparr>) s' = adb_line_same_wire s s'"
  "adb_line_same_wire (s\<lparr>al_srqFlag := d\<rparr>) s' = adb_line_same_wire s s'"
  by (simp_all add: adb_line_same_wire_def)

lemma same_wire_refl [simp]: "adb_line_same_wire s s"
  by (simp add: adb_line_same_wire_def)

text \<open>The mouse after its motion has been put into the buffer.\<close>

definition adb_mouse_reported :: "adb_line \<Rightarrow> adb_line" where
  "adb_mouse_reported s = s\<lparr>al_mdy := snd (clamp7 (al_mdy s)), al_mdx := snd (clamp7 (al_mdx s)),
     al_buffer := (al_buffer s)[0 := (if al_mbtn s then 0 else 0x80) OR fst (clamp7 (al_mdy s)),
       1 := (if al_mouseHandlerId s = 4 \<and> al_mbtn2 s then 0 else 0x80) OR fst (clamp7 (al_mdx s))],
     al_mbtnSent := al_mbtn s, al_mbtn2Sent := al_mbtn2 s\<rparr>"

lemma talk_mouse_r0_eq:
  assumes "\<not> al_srqSwitch s"
  shows "adb_line_talk_mouse_r0 s =
    (let q = adb_mouse_reported s
     in if al_mdx s \<noteq> 0 \<or> al_mdy s \<noteq> 0 \<or> al_mbtn s \<noteq> al_mbtnSent s then q\<lparr>al_datasize := 2\<rparr>
        else if adb_line_keyPending q \<and> flag (al_kbdHandler q) 0x20 then q\<lparr>al_srqFlag := True\<rparr> else q)"
  using assms unfolding adb_line_talk_mouse_r0_def Let_def adb_mouse_reported_def
  by (simp only: if_False case_prod_beta fst_conv snd_conv) simp

lemma mouse_reported_core:
  assumes "adb_line_core s"
  shows "adb_line_core (adb_mouse_reported s)" "adb_line_same_wire s (adb_mouse_reported s)"
proof -
  have "\<bar>snd (clamp7 (al_mdx s))\<bar> \<le> 256" "\<bar>snd (clamp7 (al_mdy s))\<bar> \<le> 256"
    using clamp7_bound [OF core_sel(3) [OF assms]] clamp7_bound [OF core_sel(4) [OF assms]] by simp_all
  then show "adb_line_core (adb_mouse_reported s)" "adb_line_same_wire s (adb_mouse_reported s)"
    unfolding adb_mouse_reported_def using assms core_sel(1) [OF assms] by simp_all
qed

lemma talk_mouse_core:
  assumes "adb_line_core s"
  shows "adb_line_core (adb_line_talk_mouse reg s) \<and> adb_line_same_wire s (adb_line_talk_mouse reg s)"
  using assms mouse_reported_core [OF assms] core_sel(1) [OF assms] talk_mouse_r0_eq [OF core_sel(2) [OF assms]]
  by (simp add: adb_line_talk_mouse_def Let_def)

lemma talk_kbd_core:
  assumes "adb_line_core s"
  shows "adb_line_core (adb_line_talk_kbd reg s) \<and> adb_line_same_wire s (adb_line_talk_kbd reg s)"
  using assms core_sel(1) [OF assms]
  by (simp add: adb_line_talk_kbd_def adb_line_talk_kbd_r0_def Let_def split: list.split)

lemma talk_absent_core:
  assumes "adb_line_core s"
  shows "adb_line_core (adb_line_talk_absent s) \<and> adb_line_same_wire s (adb_line_talk_absent s)"
  using assms core_sel(1) [OF assms] by (simp add: adb_line_talk_absent_def Let_def)

lemma command_core:
  assumes "adb_line_core s"
  shows "adb_line_core (adb_line_command s) \<and> adb_line_same_wire s (adb_line_command s)"
proof -
  let ?s = "s\<lparr>al_datasize := 0, al_direction := False\<rparr>"
  have c: "adb_line_core ?s" using assms by simp
  have listen: "adb_line_core (s\<lparr>al_datasize := 0, al_direction := True, al_command := 0, al_listenReg := r,
      al_listenAddr := a, al_streamPtr := 0, al_buffer := replicate 8 0\<rparr>)" for r a
    using assms by (simp add: adb_line_core_def)
  have r: "adb_line_same_wire s (adb_line_resetDevices ?s)"
    by (simp add: adb_line_same_wire_def adb_line_resetDevices_def)
  show ?thesis
    using c listen r resetDevices_core [OF c] talk_mouse_core [OF c] talk_kbd_core [OF c] talk_absent_core [OF c]
    unfolding adb_line_command_def Let_def
    by (simp add: if_distrib [of adb_line_core] if_distrib [of "adb_line_same_wire s"])
       (simp add: adb_line_same_wire_def)
qed

lemma listen_core:
  assumes "adb_line_core s"
  shows "adb_line_core (adb_line_listen s) \<and> adb_line_same_wire s (adb_line_listen s)"
  using assms
  by (simp add: adb_line_core_def adb_line_same_wire_def adb_line_listen_def adb_line_listen_mouse_r3_def
      adb_line_listen_kbd_r3_def Let_def and_0F_less)

lemma adbTalk_core:
  assumes "adb_line_core s"
  shows "adb_line_core (adb_line_adbTalk s) \<and> adb_line_same_wire s (adb_line_adbTalk s)"
  using command_core [OF assms] listen_core [OF assms] by (simp add: adb_line_adbTalk_def)

lemma stop_ok:
  assumes "adb_line_core s" "al_linestate s < LST_SRQNODATA" "al_sendTimer s = -1"
  shows "adb_line_core (adb_line_stop s) \<and> adb_line_wire (adb_line_stop s)"
proof -
  define q where "q = (if al_direction s then s\<lparr>al_command := al_buffer s ! 0\<rparr> else s)"
  define t where "t = adb_line_adbTalk (q\<lparr>al_srqFlag := False\<rparr>)"
  have "adb_line_core (q\<lparr>al_srqFlag := False\<rparr>)" using assms(1) by (simp add: q_def)
  then have c: "adb_line_core t" "adb_line_same_wire q t" using adbTalk_core [of "q\<lparr>al_srqFlag := False\<rparr>"] by (simp_all add: t_def)
  have e: "adb_line_stop s = (if al_srqFlag t then
       adb_line_armTimer kSrq ((adb_line_writeData False t)\<lparr>al_linestate := LST_SRQNODATA\<rparr>)
     else let s = adb_line_writeData True t
       in if 0 < al_datasize s then (adb_line_armTimer kT1t (s\<lparr>al_linestate := LST_TSTOPSTART\<rparr>))\<lparr>al_streamPtr := 0\<rparr>
          else if al_direction s then s\<lparr>al_linestate := LST_WAITT1T\<rparr> else s\<lparr>al_linestate := LST_IDLE\<rparr>)"
    by (simp add: adb_line_stop_def q_def t_def Let_def)
  have "al_sendTimer t = -1" using c(2) assms(3) by (simp add: adb_line_same_wire_def q_def split: if_splits)
  then have "adb_line_wire (adb_line_stop s)"
    unfolding e by (simp add: adb_line_wire_def adb_line_armTimer_def Let_def)
  moreover have "adb_line_core (r\<lparr>al_streamPtr := 0\<rparr>)" if "adb_line_core r" for r
    using that by (simp add: adb_line_core_def)
  then have "adb_line_core (adb_line_stop s)"
    unfolding e using c(1) by (simp add: adb_line_armTimer_def Let_def)
  ultimately show ?thesis by blast
qed

lemma bit_ok:
  assumes "adb_line_core s"
  shows "adb_line_core (adb_line_bit dtime s) \<and> al_linestate (adb_line_bit dtime s) = Suc (al_linestate s) \<and>
    al_sendTimer (adb_line_bit dtime s) = al_sendTimer s \<and> al_deviceDrive (adb_line_bit dtime s) = al_deviceDrive s"
  using assms by (simp add: adb_line_bit_def Let_def adb_line_core_def)

lemma resume_ok:
  "adb_line_core (adb_line_resume dtime s) = adb_line_core s"
  "al_sendTimer (adb_line_resume dtime s) = al_sendTimer s"
  "al_deviceDrive (adb_line_resume dtime s) = al_deviceDrive s"
  "al_streamPtr (adb_line_resume dtime s) = al_streamPtr s"
  "al_datasize (adb_line_resume dtime s) = al_datasize s"
  "al_linestate (adb_line_resume dtime s) = al_linestate s \<or>
    al_linestate s = LST_TSTOP \<and> al_linestate (adb_line_resume dtime s) = LST_BIT0"
  by (simp_all add: adb_line_resume_def)

lemma receiveEdge_ok:
  assumes "adb_line_core s" "adb_line_wire s"
  shows "adb_line_core (adb_line_receiveEdge level dtime s) \<and> adb_line_wire (adb_line_receiveEdge level dtime s)"
proof -
  define r where "r = adb_line_resume dtime s"
  have c: "adb_line_core r" using assms(1) by (simp add: r_def resume_ok)
  have w: "adb_line_wire r"
    using assms(2) resume_ok(2-6) [of dtime s] by (auto simp: adb_line_wire_def r_def split: if_splits)
  note upd = adb_line_wire_def adb_line_resetDevices_def
  have "adb_line_core (adb_line_resetDevices r)" "adb_line_wire (adb_line_resetDevices r)"
    using w resetDevices_core [OF c] by (simp_all add: upd split: if_splits)
  moreover have "al_linestate r = LST_TSTOP \<Longrightarrow> adb_line_core (adb_line_stop r) \<and> adb_line_wire (adb_line_stop r)"
    using stop_ok [OF c] w by (simp add: upd)
  moreover have "LST_BIT0 \<le> al_linestate r \<Longrightarrow> al_linestate r \<le> LST_BIT7 \<Longrightarrow>
      adb_line_core (adb_line_bit dtime r) \<and> adb_line_wire (adb_line_bit dtime r)"
    using bit_ok [OF c, of dtime] w by (simp add: upd)
  moreover have "adb_line_wire (r\<lparr>al_linestate := n\<rparr>)" if "n < 13" "al_linestate r < 13" for n
    using w that by (simp add: upd)
  moreover have "adb_line_wire (r\<lparr>al_waitingCmd := a, al_direction := b, al_linestate := n\<rparr>)"
      "adb_line_wire (r\<lparr>al_command := d, al_linestate := n\<rparr>)" "adb_line_wire (r\<lparr>al_linestate := n, al_command := d\<rparr>)"
    if "n < 13" "al_linestate r < 13" for a b d n
    using w that by (simp_all add: upd)
  ultimately show ?thesis
    using c w unfolding adb_line_receiveEdge_def r_def [symmetric] Let_def by simp
qed

lemma setHostDrive_ok:
  assumes "adb_line_core s" "adb_line_wire s"
  shows "adb_line_core (adb_line_setHostDrive high s) \<and> adb_line_wire (adb_line_setHostDrive high s)"
proof -
  have "adb_line_wire (s\<lparr>al_hostDrive := high\<rparr>)" "adb_line_wire (s\<lparr>al_hostDrive := high, al_lastEdge := i\<rparr>)" for i
    using assms(2) by (simp_all add: adb_line_wire_def)
  then show ?thesis
    using assms(1) receiveEdge_ok [of "s\<lparr>al_hostDrive := high, al_lastEdge := al_now s\<rparr>"]
    by (simp add: adb_line_setHostDrive_def Let_def)
qed

text \<open>One step of the send machine.\<close>

definition adb_line_sending :: "adb_line \<Rightarrow> bool" where
  "adb_line_sending s \<longleftrightarrow> LST_SRQNODATA \<le> al_linestate s \<and> al_linestate s \<le> LST_SENDSTOPa \<and>
     (LST_TSTOPSTART \<le> al_linestate s \<and> al_linestate s \<le> LST_SENDBIT7a \<longrightarrow> al_streamPtr s < al_datasize s)"

lemma timerTick_core:
  assumes "adb_line_core s" "adb_line_sending s"
  shows "adb_line_core (adb_line_timerTick s)"
proof -
  have "al_linestate s = LST_SENDBIT7a \<Longrightarrow> Suc (al_streamPtr s) \<le> 8"
    using assms by (auto simp: adb_line_core_def adb_line_sending_def)
  then show ?thesis
    using assms(1) core_sel(1) [OF assms(1)]
    unfolding adb_line_timerTick_def Let_def adb_line_armTimer_def by simp
qed

text \<open>The send machine state by state; \<open>k\<close> is the index of the bit within the byte.\<close>

lemma timerTick_steps:
  "al_linestate s = LST_SRQNODATA \<Longrightarrow> adb_line_timerTick s = (adb_line_writeData True s)\<lparr>al_linestate := LST_IDLE\<rparr>"
  "al_linestate s = LST_TSTOPSTART \<Longrightarrow>
    adb_line_timerTick s = (adb_line_writeData True s)\<lparr>al_sendTimer := kShort, al_linestate := LST_TSTOPSTARTa\<rparr>"
  "al_linestate s = LST_TSTOPSTARTa \<Longrightarrow>
    adb_line_timerTick s = (adb_line_writeData False s)\<lparr>al_sendTimer := kShort, al_linestate := LST_STARTBIT\<rparr>"
  "al_linestate s = LST_STARTBIT \<Longrightarrow>
    adb_line_timerTick s = (adb_line_writeData True s)\<lparr>al_sendTimer := kLong, al_linestate := LST_SENDBIT0\<rparr>"
  "al_linestate s = LST_SENDBIT0 + 2 * k \<Longrightarrow> k < 8 \<Longrightarrow>
    adb_line_timerTick s = (adb_line_writeData False s)\<lparr>
      al_sendTimer := (if bit (al_buffer s ! al_streamPtr s) 7 then kShort else kLong),
      al_linestate := 18 + 2 * k\<rparr>"
  "al_linestate s = 18 + 2 * k \<Longrightarrow> k < 7 \<Longrightarrow>
    adb_line_timerTick s = (adb_line_writeData True s)\<lparr>
      al_sendTimer := (if bit (al_buffer s ! al_streamPtr s) 7 then kLong else kShort),
      al_buffer := (al_buffer s)[al_streamPtr s := push_bit 1 (al_buffer s ! al_streamPtr s)],
      al_linestate := 19 + 2 * k\<rparr>"
  "al_linestate s = LST_SENDBIT7a \<Longrightarrow>
    adb_line_timerTick s = (adb_line_writeData True s)\<lparr>
      al_sendTimer := (if bit (al_buffer s ! al_streamPtr s) 7 then kLong else kShort),
      al_streamPtr := Suc (al_streamPtr s),
      al_linestate := (if Suc (al_streamPtr s) = al_datasize s then LST_SENDSTOP else LST_SENDBIT0)\<rparr>"
  "al_linestate s = LST_SENDSTOP \<Longrightarrow>
    adb_line_timerTick s = (adb_line_writeData False s)\<lparr>al_sendTimer := kStop, al_linestate := LST_SENDSTOPa\<rparr>"
  "al_linestate s = LST_SENDSTOPa \<Longrightarrow>
    adb_line_timerTick s = (adb_line_writeData True s)\<lparr>al_sendTimer := -1, al_linestate := LST_IDLE\<rparr>"
  by (simp_all add: adb_line_timerTick_def adb_line_armTimer_def Let_def flag_simps)

lemma sending_cases:
  assumes "adb_line_sending s"
  obtains "al_linestate s = LST_SRQNODATA" | "al_linestate s = LST_TSTOPSTART" | "al_linestate s = LST_TSTOPSTARTa"
    | "al_linestate s = LST_STARTBIT" | k where "k < 8" "al_linestate s = LST_SENDBIT0 + 2 * k"
    | k where "k < 7" "al_linestate s = 18 + 2 * k" | "al_linestate s = LST_SENDBIT7a"
    | "al_linestate s = LST_SENDSTOP" | "al_linestate s = LST_SENDSTOPa"
proof -
  have "n = 13 \<or> n = 14 \<or> n = 15 \<or> n = 16 \<or> (\<exists>k<8. n = 17 + 2 * k) \<or> (\<exists>k<7. n = 18 + 2 * k) \<or> n = 32 \<or> n = 33 \<or> n = 34"
    if "13 \<le> n" "n \<le> 34" for n :: nat
    using that by presburger
  then show thesis using assms that unfolding adb_line_sending_def by metis
qed

lemma timerTick_wire:
  assumes "adb_line_sending s" "al_sendTimer s = -1"
  shows "let s' = adb_line_timerTick s in
    al_sendTimer s' = -1 \<and> al_linestate s' = LST_IDLE \<and> al_deviceDrive s' \<or>
    kShort \<le> al_sendTimer s' \<and> adb_line_sending s'"
  using assms(1)
  by (rule sending_cases) (use assms in \<open>auto simp: timerTick_steps adb_line_sending_def Let_def\<close>)

lemma expire_ok:
  assumes "adb_line_core s" "adb_line_sending s" "- (2 ^ 30) \<le> al_sendTimer s"
  shows "adb_line_core (adb_line_expire s) \<and> adb_line_wire (adb_line_expire s)"
  using assms
proof (induction s rule: adb_line_expire.induct)
  case (1 s)
  show ?case
  proof (cases "al_sendTimer s \<le> 0")
    case False
    then show ?thesis using "1.prems"
      by (subst (1 2) adb_line_expire.simps) (simp add: adb_line_wire_def adb_line_sending_def)
  next
    case True
    define q where "q = adb_line_timerTick (s\<lparr>al_sendTimer := -1\<rparr>)"
    have snd: "adb_line_sending (s\<lparr>al_sendTimer := -1\<rparr>)" using "1.prems"(2) by (simp add: adb_line_sending_def)
    have c: "adb_line_core q" using timerTick_core [OF _ snd] "1.prems"(1) by (simp add: q_def)
    have w: "al_sendTimer q = -1 \<and> al_linestate q = LST_IDLE \<and> al_deviceDrive q \<or>
        kShort \<le> al_sendTimer q \<and> adb_line_sending q"
      using timerTick_wire [OF snd] by (simp add: q_def Let_def)
    have e: "adb_line_expire s = (if al_sendTimer q < 0 then q
        else adb_line_expire (q\<lparr>al_sendTimer := al_sendTimer q + al_sendTimer s\<rparr>))"
      by (subst adb_line_expire.simps) (use True "1.prems"(3) in \<open>simp add: q_def Let_def\<close>)
    show ?thesis
    proof (cases "al_sendTimer q < 0")
      case True
      then show ?thesis using c w e by (simp add: adb_line_wire_def)
    next
      case False
      let ?q = "q\<lparr>al_sendTimer := al_sendTimer q + al_sendTimer s\<rparr>"
      have "adb_line_core ?q" "adb_line_sending ?q" "- (2 ^ 30) \<le> al_sendTimer ?q"
        using c w False "1.prems"(3) by (auto simp: adb_line_sending_def)
      then show ?thesis
        using "1.IH" [OF _ refl q_def False] True "1.prems"(3) e False by simp
    qed
  qed
qed

lemma tick_ok_line:
  assumes "adb_line_core s" "adb_line_wire s" "0 \<le> cyc" "cyc \<le> 2 ^ 30"
  shows "adb_line_core (adb_line_tick cyc s) \<and> adb_line_wire (adb_line_tick cyc s)"
proof (cases "al_sendTimer s < 0")
  case True
  then show ?thesis using assms by (simp add: adb_line_tick_def Let_def adb_line_wire_def)
next
  case False
  let ?q = "s\<lparr>al_now := al_now s + cyc, al_sendTimer := al_sendTimer s - cyc\<rparr>"
  have "adb_line_core ?q" "adb_line_sending ?q" "- (2 ^ 30) \<le> al_sendTimer ?q"
    using assms False by (auto simp: adb_line_wire_def adb_line_sending_def split: if_splits)
  then show ?thesis using expire_ok [of ?q] False by (simp add: adb_line_tick_def Let_def)
qed

lemma keyEvent_ok:
  assumes "adb_line_core s" "adb_line_wire s"
  shows "adb_line_core (adb_line_keyEvent c down s) \<and> adb_line_wire (adb_line_keyEvent c down s)"
  using assms
  by (cases "adb_modifier_bit (adb_fold_key c)"; cases down)
    (simp_all add: adb_line_keyEvent_def Let_def adb_line_core_def adb_line_wire_def del: core_updates)

lemma host_event_ok:
  assumes "adb_line_core s" "adb_line_wire s"
  shows "adb_line_core (adb_line_mouseMove dx dy s) \<and> adb_line_wire (adb_line_mouseMove dx dy s)"
    "adb_line_core (adb_line_mouseButton down n s) \<and> adb_line_wire (adb_line_mouseButton down n s)"
    "adb_line_core (adb_line_reset s) \<and> adb_line_wire (adb_line_reset s)"
  using assms clamp_range [of "-256" 256 "al_mdx s + dx"] clamp_range [of "-256" 256 "al_mdy s + dy"]
  by (simp_all add: adb_line_core_def adb_line_wire_def adb_line_reset_def adb_line_resetDevices_def
    adb_line_mouseMove_def adb_line_mouseButton_def abs_le_iff Let_def del: core_updates)

lemma adb_line_init_ok: "adb_line_core adb_line_init \<and> adb_line_wire adb_line_init"
  by (simp add: adb_line_core_def adb_line_wire_def adb_line_init_def)

lemma configure_ok:
  assumes "adb_line_core s" "adb_line_wire s"
  shows "adb_line_core (adb_line_configure k s) \<and> adb_line_wire (adb_line_configure k s)"
proof -
  have "k = 1 \<or> k = 2 \<or> k = 3" if "1 \<le> k" "k \<le> 3"
  proof -
    have "unat k = 1 \<or> unat k = 2 \<or> unat k = 3" using that by (auto simp: word_le_nat_alt)
    then show ?thesis by (auto simp: word_unat_eq_iff)
  qed
  then show ?thesis using assms by (simp add: adb_line_configure_def adb_line_core_def adb_line_wire_def)
qed

lemma adb_line_reachable_ok: "adb_line_reachable s \<Longrightarrow> adb_line_core s \<and> adb_line_wire s"
proof (induction rule: adb_line_reachable.induct)
  case rl_init
  show ?case by (rule adb_line_init_ok)
next
  case (rl_tick s cyc)
  then show ?case by (simp add: tick_ok_line)
qed (simp_all add: keyEvent_ok host_event_ok configure_ok setHostDrive_ok)

text \<open>C28: memory safety and bounded state of the bus engine: whatever the transceiver does to the
  wire, whatever the timing and the input events, the cursor into the eight-byte buffer is inside
  it whenever a byte is sent, the line state is one of the enumeration, the send timer runs
  exactly in the sending states, the device releases the wire in all the others, and handlers,
  addresses and the pending motion stay in range.\<close>

theorem adb_line_safe:
  assumes "adb_line_reachable s"
  shows "length (al_buffer s) = 8 \<and> al_streamPtr s \<le> 8 \<and>
    (LST_TSTOPSTART \<le> al_linestate s \<and> al_linestate s \<le> LST_SENDBIT7a \<longrightarrow> al_streamPtr s < 8) \<and>
    al_linestate s \<le> LST_SENDSTOPa \<and> (0 \<le> al_sendTimer s \<longleftrightarrow> LST_SRQNODATA \<le> al_linestate s) \<and>
    (\<not> al_deviceDrive s \<longrightarrow> LST_SRQNODATA \<le> al_linestate s) \<and> \<not> al_srqSwitch s \<and>
    \<bar>al_mdx s\<bar> \<le> 256 \<and> \<bar>al_mdy s\<bar> \<le> 256 \<and> al_kbdAddr s < 16 \<and> al_mouseAddr s < 16 \<and>
    al_kbdHandlerId s \<in> {1, 2, 3} \<and> al_mouseHandlerId s \<in> {1, 2, 4}"
  using adb_line_reachable_ok [OF assms] by (auto simp: adb_line_core_def adb_line_wire_def split: if_splits)

theorem adb_line_safe_witness:
  "al_streamPtr (adb_line_tick 9000 (adb_line_setHostDrive False adb_line_init)) \<le> 8"
proof -
  have "adb_line_reachable (adb_line_tick 9000 (adb_line_setHostDrive False adb_line_init))"
    by (intro adb_line_reachable.intros) simp_all
  from adb_line_safe [OF this] show ?thesis by blast
qed


section \<open>Receiving a command\<close>

text \<open>The host drives the wire to a level and leaves it there for some time.\<close>

definition adb_line_drive :: "adb_line \<Rightarrow> bool \<times> int \<Rightarrow> adb_line" where
  "adb_line_drive s p = adb_line_tick (snd p) (adb_line_setHostDrive (fst p) s)"

definition cells_wave :: "(int \<times> int) list \<Rightarrow> (bool \<times> int) list" where
  "cells_wave cells = concat (map (\<lambda>(l, h). [(False, l), (True, h)]) cells)"

text \<open>The waveform of a command: attention, sync, eight bit cells given by the length of their low
  and high phase, and the low phase of the stop bit.\<close>

definition command_wave :: "int \<Rightarrow> int \<Rightarrow> (int \<times> int) list \<Rightarrow> int \<Rightarrow> (bool \<times> int) list" where
  "command_wave att sync cells stop = [(False, att), (True, sync)] @ cells_wave cells @ [(False, stop)]"

text \<open>The line while a command comes in: in the high phase before cell \<open>n - LST_BIT0\<close> ends, with
  the bits \<open>w\<close> received so far.\<close>

definition recv_state :: "adb_line \<Rightarrow> nat \<Rightarrow> u8 \<Rightarrow> int \<Rightarrow> int \<Rightarrow> adb_line" where
  "recv_state s n w t e = s\<lparr>al_hostDrive := True, al_linestate := n, al_now := t, al_lastEdge := e,
     al_command := shift_in w False, al_waitingCmd := True, al_direction := False\<rparr>"

lemma tick_idle: "al_sendTimer s = -1 \<Longrightarrow> adb_line_tick d s = s\<lparr>al_now := al_now s + d\<rparr>"
  by (simp add: adb_line_tick_def Let_def)

lemma or_bit_shift_in: "shift_in w False OR 1 = shift_in w True" "push_bit 1 w = shift_in w False"
  by (simp_all add: shift_in_def)

lemma bit_shifts:
  assumes "al_command s = shift_in w False" "\<not> al_direction s"
  shows "al_linestate s \<noteq> LST_BIT7 \<Longrightarrow> adb_line_bit d s =
      s\<lparr>al_command := shift_in (shift_in w (T_BIT \<le> d)) False, al_linestate := Suc (al_linestate s)\<rparr>"
    "al_linestate s = LST_BIT7 \<Longrightarrow> adb_line_bit d s =
      s\<lparr>al_command := shift_in w (T_BIT \<le> d), al_linestate := LST_TSTOP\<rparr>"
proof -
  have c: "T_BIT \<le> d \<Longrightarrow> al_command s OR 1 = shift_in w (T_BIT \<le> d)"
    "\<not> T_BIT \<le> d \<Longrightarrow> al_command s = shift_in w (T_BIT \<le> d)"
    using assms(1) by (simp_all add: or_bit_shift_in(1))
  show "al_linestate s \<noteq> LST_BIT7 \<Longrightarrow> adb_line_bit d s =
      s\<lparr>al_command := shift_in (shift_in w (T_BIT \<le> d)) False, al_linestate := Suc (al_linestate s)\<rparr>"
    using assms(2) c unfolding adb_line_bit_def Let_def or_bit_shift_in(2) by (cases "T_BIT \<le> d") simp_all
  show "al_linestate s = LST_BIT7 \<Longrightarrow> adb_line_bit d s =
      s\<lparr>al_command := shift_in w (T_BIT \<le> d), al_linestate := LST_TSTOP\<rparr>"
    using assms(2) c unfolding adb_line_bit_def Let_def or_bit_shift_in(2)
    by (cases "T_BIT \<le> d") (auto intro: adb_line.equality)
qed

lemmas recv_defs = adb_line_drive_def adb_line_setHostDrive_def adb_line_level_def Let_def adb_line_receiveEdge_def
  adb_line_resume_def tick_idle recv_state_def

lemma recv_attention:
  assumes "al_linestate s = LST_IDLE" "al_sendTimer s = -1" "al_hostDrive s" "al_deviceDrive s"
    "T_ATTEN \<le> att" "att < T_RESET" "T_SYNC \<le> sync"
  shows "adb_line_drive (foldl adb_line_drive s [(False, att), (True, sync)]) (False, l) =
    (recv_state s LST_BIT0 0 (al_now s + att + sync + l) (al_now s + att + sync))\<lparr>al_hostDrive := False\<rparr>"
  by (rule adb_line.equality) (use assms in \<open>simp_all add: recv_defs shift_in_def\<close>)

lemma recv_rise:
  assumes "al_sendTimer s = -1" "al_deviceDrive s" "LST_BIT0 \<le> n" "n \<le> LST_BIT7"
  shows "adb_line_drive ((recv_state s n w t e)\<lparr>al_hostDrive := False\<rparr>) (True, h) = recv_state s n w (t + h) t"
  by (rule adb_line.equality) (use assms in \<open>simp_all add: recv_defs\<close>)

lemma recv_fall:
  assumes "al_sendTimer s = -1" "al_deviceDrive s" "LST_BIT0 \<le> n" "n < LST_BIT7"
  shows "adb_line_drive (recv_state s n w t e) (False, l) =
    (recv_state s (Suc n) (shift_in w (T_BIT \<le> t - e)) (t + l) t)\<lparr>al_hostDrive := False\<rparr>"
  by (rule adb_line.equality) (use assms in \<open>simp_all add: recv_defs bit_shifts\<close>)

lemma recv_last:
  assumes "al_sendTimer s = -1" "al_deviceDrive s"
  shows "adb_line_setHostDrive True (adb_line_drive (recv_state s LST_BIT7 w t e) (False, l)) =
    adb_line_stop (s\<lparr>al_hostDrive := True, al_linestate := LST_TSTOP, al_now := t + l, al_lastEdge := t + l,
      al_command := shift_in w (T_BIT \<le> t - e), al_waitingCmd := True, al_direction := False\<rparr>)"
  using assms
  by (simp add: recv_defs bit_shifts) (rule arg_cong [of _ _ adb_line_stop], rule adb_line.equality, simp_all)

text \<open>A run of cells that does not reach the last one: each fall takes the bit of the high phase it
  ends.  The wire is low before and after.\<close>

lemma recv_cells:
  assumes "al_sendTimer s = -1" "al_deviceDrive s" "LST_BIT0 \<le> n" "n + length cells \<le> LST_BIT7"
  shows "\<exists>t' e'. foldl adb_line_drive ((recv_state s n w t e)\<lparr>al_hostDrive := False\<rparr>)
      (concat (map (\<lambda>(h, l). [(True, h), (False, l)]) cells)) =
    (recv_state s (n + length cells) (foldl shift_in w (map (\<lambda>(h, l). T_BIT \<le> h) cells)) t' e')\<lparr>al_hostDrive := False\<rparr>"
  using assms(3,4)
proof (induction cells arbitrary: n w t e)
  case (Cons c cells)
  obtain h l where c: "c = (h, l)" by (cases c)
  have "adb_line_drive (adb_line_drive ((recv_state s n w t e)\<lparr>al_hostDrive := False\<rparr>) (True, h)) (False, l) =
      (recv_state s (Suc n) (shift_in w (T_BIT \<le> h)) (t + h + l) (t + h))\<lparr>al_hostDrive := False\<rparr>"
    using recv_rise [OF assms(1,2), of n w t e h] recv_fall [OF assms(1,2), of n w "t + h" t l] Cons.prems by simp
  then show ?case using Cons.IH [of "Suc n" "shift_in w (T_BIT \<le> h)" "t + h + l" "t + h"] Cons.prems by (simp add: c)
qed auto

lemma receives_command:
  assumes idle: "al_linestate s = LST_IDLE" "al_sendTimer s = -1" "al_hostDrive s" "al_deviceDrive s"
    and att: "T_ATTEN \<le> att" "att < T_RESET" "T_SYNC \<le> sync"
    and cells: "map (\<lambda>(l, h). T_BIT \<le> h) cells = byte_bits cmd"
  shows "\<exists>t. adb_line_setHostDrive True (foldl adb_line_drive s (command_wave att sync cells stop)) =
    adb_line_stop (s\<lparr>al_hostDrive := True, al_linestate := LST_TSTOP, al_now := t, al_lastEdge := t,
      al_command := cmd, al_waitingCmd := True, al_direction := False\<rparr>)"
proof -
  have "length cells = 8" using arg_cong [OF cells, of length] by simp
  then obtain c0 c1 c2 c3 c4 c5 c6 c7 where c: "cells = [c0, c1, c2, c3, c4, c5, c6, c7]" by (rule length_8_cases)
  define t0 where "t0 = al_now s + att + sync"
  let ?q = "[(snd c0, fst c1), (snd c1, fst c2), (snd c2, fst c3), (snd c3, fst c4), (snd c4, fst c5), (snd c5, fst c6),
    (snd c6, fst c7)]"
  have "\<exists>t' e'. foldl adb_line_drive ((recv_state s LST_BIT0 0 (t0 + fst c0) t0)\<lparr>al_hostDrive := False\<rparr>)
      (concat (map (\<lambda>(h, l). [(True, h), (False, l)]) ?q)) =
    (recv_state s (LST_BIT0 + length ?q) (foldl shift_in 0 (map (\<lambda>(h, l). T_BIT \<le> h) ?q)) t' e')\<lparr>al_hostDrive := False\<rparr>"
    using recv_cells [OF idle(2,4), of LST_BIT0 ?q] by simp
  then obtain t' e' where r: "foldl adb_line_drive ((recv_state s LST_BIT0 0 (t0 + fst c0) t0)\<lparr>al_hostDrive := False\<rparr>)
      (concat (map (\<lambda>(h, l). [(True, h), (False, l)]) ?q)) =
    (recv_state s LST_BIT7 (foldl shift_in 0 (map (\<lambda>(h, l). T_BIT \<le> h) ?q)) t' e')\<lparr>al_hostDrive := False\<rparr>"
    by auto
  have w: "command_wave att sync cells stop = [(False, att), (True, sync)] @ (False, fst c0) #
      concat (map (\<lambda>(h, l). [(True, h), (False, l)]) ?q) @ [(True, snd c7), (False, stop)]"
    by (simp add: command_wave_def cells_wave_def c case_prod_beta)
  have m: "shift_in (foldl shift_in 0 (map (\<lambda>(h, l). T_BIT \<le> h) ?q)) (T_BIT \<le> snd c7) = cmd"
    using foldl_shift_in_byte [of 0 cmd] unfolding cells [symmetric] c by (simp add: case_prod_beta)
  have "adb_line_setHostDrive True (foldl adb_line_drive s (command_wave att sync cells stop)) =
    adb_line_stop (s\<lparr>al_hostDrive := True, al_linestate := LST_TSTOP, al_now := t' + snd c7 + stop,
      al_lastEdge := t' + snd c7 + stop, al_command := cmd, al_waitingCmd := True, al_direction := False\<rparr>)"
    unfolding w foldl_append foldl_Cons foldl_Nil
    unfolding recv_attention [OF idle att, unfolded foldl_Cons foldl_Nil] t0_def [symmetric] r
    using recv_rise [OF idle(2,4), of LST_BIT7 _ t' e' "snd c7"] recv_last [OF idle(2,4), of _ "t' + snd c7" t' stop] m
    by simp
  then show ?thesis by blast
qed

text \<open>C29: command decoding: whatever the exact pulse widths, as long as the attention pulse, the
  sync gap and the high phase of each bit cell are on the right side of their thresholds, an idle
  bus decodes exactly the byte the host sent and processes it as a command at the stop bit.\<close>

theorem adb_line_receives:
  assumes "adb_line_reachable s" "al_linestate s = LST_IDLE" "al_hostDrive s"
    and "T_ATTEN \<le> att" "att < T_RESET" "T_SYNC \<le> sync"
    and "map (\<lambda>(l, h). T_BIT \<le> h) cells = byte_bits cmd"
  shows "\<exists>t. adb_line_setHostDrive True (foldl adb_line_drive s (command_wave att sync cells stop)) =
    adb_line_stop (s\<lparr>al_hostDrive := True, al_linestate := LST_TSTOP, al_now := t, al_lastEdge := t,
      al_command := cmd, al_waitingCmd := True, al_direction := False\<rparr>)"
  using receives_command [OF assms(2) _ assms(3) _ assms(4-7)] adb_line_reachable_ok [OF assms(1)] assms(2)
  by (simp add: adb_line_wire_def)

theorem adb_line_receives_witness:
  "\<exists>t. adb_line_setHostDrive True (foldl adb_line_drive adb_line_init (command_wave 12410 1000
      [(1020, 544), (1020, 544), (544, 1020), (1020, 544), (544, 1020), (544, 1020), (1020, 544), (1020, 544)] 1020)) =
    adb_line_stop (adb_line_init\<lparr>al_hostDrive := True, al_linestate := LST_TSTOP, al_now := t, al_lastEdge := t,
      al_command := 0x2C, al_waitingCmd := True, al_direction := False\<rparr>)"
  by (rule adb_line_receives [OF rl_init]) (simp_all add: adb_line_init_def byte_bits_def)


section \<open>Sending an answer\<close>

text \<open>The wire while the device sends: after each expiry of the timer, the level it drives and for
  how long.\<close>

fun adb_line_transmit :: "nat \<Rightarrow> adb_line \<Rightarrow> (bool \<times> int) list \<times> adb_line" where
  "adb_line_transmit 0 s = ([], s)"
| "adb_line_transmit (Suc n) s =
     (if al_sendTimer s < 0 then ([], s)
      else let s1 = adb_line_tick (al_sendTimer s) s; (w, s2) = adb_line_transmit n s1
           in ((adb_line_level s1, al_sendTimer s1) # w, s2))"

text \<open>The pulses of one bit cell: a one is low for the short and high for the long time.\<close>

definition bit_cell :: "bool \<Rightarrow> (bool \<times> int) list" where
  "bit_cell b = [(False, if b then kShort else kLong), (True, if b then kLong else kShort)]"

lemma tick_exact:
  assumes "0 \<le> al_sendTimer s"
  shows "adb_line_tick (al_sendTimer s) s =
    adb_line_timerTick (s\<lparr>al_now := al_now s + al_sendTimer s, al_sendTimer := -1\<rparr>)"
proof -
  let ?s = "s\<lparr>al_now := al_now s + al_sendTimer s, al_sendTimer := 0\<rparr>"
  let ?q = "adb_line_timerTick (s\<lparr>al_now := al_now s + al_sendTimer s, al_sendTimer := -1\<rparr>)"
  have t: "al_sendTimer ?q = -1 \<or> kShort \<le> al_sendTimer ?q" by (rule timerTick_timer) simp
  have "adb_line_expire ?s = (if al_sendTimer ?q < 0 then ?q else adb_line_expire (?q\<lparr>al_sendTimer := al_sendTimer ?q\<rparr>))"
    by (subst adb_line_expire.simps) simp
  also have "\<dots> = ?q" using t by (auto simp: adb_line_expire.simps)
  finally show ?thesis using assms by (simp add: adb_line_tick_def Let_def)
qed

lemma transmit_append:
  assumes "adb_line_transmit m s = (w, s')" "length w = m" "adb_line_transmit n s' = (w', s2)"
  shows "adb_line_transmit (m + n) s = (w @ w', s2)"
  using assms
proof (induction m arbitrary: s w)
  case (Suc m)
  then have "\<not> al_sendTimer s < 0" by auto
  then obtain v where v: "w = (adb_line_level (adb_line_tick (al_sendTimer s) s), al_sendTimer (adb_line_tick (al_sendTimer s) s)) # v"
    "adb_line_transmit m (adb_line_tick (al_sendTimer s) s) = (v, s')"
    using Suc.prems(1) by (auto simp: Let_def split: prod.splits)
  then show ?case using Suc.IH [OF v(2) _ Suc.prems(3)] Suc.prems(2) \<open>\<not> al_sendTimer s < 0\<close> by (simp add: Let_def)
qed simp

text \<open>What a transmission leaves alone.\<close>

definition adb_line_devices :: "adb_line \<Rightarrow> adb_line" where
  "adb_line_devices s = s\<lparr>al_deviceDrive := True, al_linestate := 0, al_now := 0, al_lastEdge := 0, al_sendTimer := 0,
     al_buffer := [], al_streamPtr := 0\<rparr>"

definition sending_at :: "nat \<Rightarrow> nat \<Rightarrow> u8 list \<Rightarrow> adb_line \<Rightarrow> adb_line \<Rightarrow> bool" where
  "sending_at n p bs d s \<longleftrightarrow> al_linestate s = n \<and> al_streamPtr s = p \<and> al_buffer s = bs \<and> 0 \<le> al_sendTimer s \<and>
     al_hostDrive s \<and> adb_line_devices s = d"

lemma devices_updates [simp]:
  "adb_line_devices (s\<lparr>al_linestate := n\<rparr>) = adb_line_devices s"
  "adb_line_devices (s\<lparr>al_sendTimer := t\<rparr>) = adb_line_devices s"
  "adb_line_devices (s\<lparr>al_now := t\<rparr>) = adb_line_devices s"
  "adb_line_devices (s\<lparr>al_buffer := bs\<rparr>) = adb_line_devices s"
  "adb_line_devices (s\<lparr>al_streamPtr := n\<rparr>) = adb_line_devices s"
  "adb_line_devices (adb_line_writeData l s) = adb_line_devices s"
  by (simp_all add: adb_line_devices_def adb_line_writeData_def)

lemma devices_datasize: "adb_line_devices s = d \<Longrightarrow> al_datasize s = al_datasize d"
  by (auto simp: adb_line_devices_def)

text \<open>One expiry of the timer is one pulse.\<close>

lemma pulse_start:
  assumes "sending_at LST_TSTOPSTART p bs d s"
  shows "\<exists>s'. adb_line_transmit 1 s = ([(True, kShort)], s') \<and> sending_at LST_TSTOPSTARTa p bs d s'"
  using assms by (auto simp: sending_at_def tick_exact Let_def timerTick_steps(2) adb_line_level_def)

lemma pulse_start_low:
  assumes "sending_at LST_TSTOPSTARTa p bs d s"
  shows "\<exists>s'. adb_line_transmit 1 s = ([(False, kShort)], s') \<and> sending_at LST_STARTBIT p bs d s'"
  using assms by (auto simp: sending_at_def tick_exact Let_def timerTick_steps(3) adb_line_level_def)

lemma pulse_start_high:
  assumes "sending_at LST_STARTBIT p bs d s"
  shows "\<exists>s'. adb_line_transmit 1 s = ([(True, kLong)], s') \<and> sending_at LST_SENDBIT0 p bs d s'"
  using assms by (auto simp: sending_at_def tick_exact Let_def timerTick_steps(4) adb_line_level_def)

lemma pulse_bit_low:
  assumes "sending_at (17 + 2 * k) p bs d s" "k < 8"
  shows "\<exists>s'. adb_line_transmit 1 s = ([(False, if bit (bs ! p) 7 then kShort else kLong)], s') \<and>
    sending_at (18 + 2 * k) p bs d s'"
  using assms by (auto simp: sending_at_def tick_exact Let_def timerTick_steps(5) [of _ k] adb_line_level_def)

lemma pulse_bit_high:
  assumes "sending_at (18 + 2 * k) p bs d s" "k < 7"
  shows "\<exists>s'. adb_line_transmit 1 s = ([(True, if bit (bs ! p) 7 then kLong else kShort)], s') \<and>
    sending_at (17 + 2 * Suc k) p (bs[p := push_bit 1 (bs ! p)]) d s'"
  using assms by (auto simp: sending_at_def tick_exact Let_def timerTick_steps(6) [of _ k] adb_line_level_def)

lemma pulse_bit7_high:
  assumes "sending_at LST_SENDBIT7a p bs d s"
  shows "\<exists>s'. adb_line_transmit 1 s = ([(True, if bit (bs ! p) 7 then kLong else kShort)], s') \<and>
    sending_at (if Suc p = al_datasize d then LST_SENDSTOP else LST_SENDBIT0) (Suc p) bs d s'"
  using assms devices_datasize [of s d]
  by (auto simp: sending_at_def tick_exact Let_def timerTick_steps(7) adb_line_level_def)

lemma pulse_stop:
  assumes "sending_at LST_SENDSTOP p bs d s"
  shows "\<exists>s'. adb_line_transmit 1 s = ([(False, kStop)], s') \<and> sending_at LST_SENDSTOPa p bs d s'"
  using assms by (auto simp: sending_at_def tick_exact Let_def timerTick_steps(8) adb_line_level_def)

lemma pulse_release:
  assumes "sending_at LST_SENDSTOPa p bs d s"
  shows "\<exists>s'. adb_line_transmit 1 s = ([(True, -1)], s') \<and> al_linestate s' = LST_IDLE \<and>
    al_sendTimer s' = -1 \<and> al_deviceDrive s' \<and> al_hostDrive s' \<and> adb_line_devices s' = d"
  using assms by (auto simp: sending_at_def tick_exact Let_def timerTick_steps(9) adb_line_level_def)

declare adb_line_transmit.simps(2) [simp del]

lemma nth_byte_bits: "k < 8 \<Longrightarrow> byte_bits w ! k = bit w (7 - k)"
proof -
  have "\<forall>k<8. byte_bits w ! k = bit w (7 - k)" unfolding all_less_8 byte_bits_def by simp
  then show "k < 8 \<Longrightarrow> byte_bits w ! k = bit w (7 - k)" by blast
qed

lemma transmit_start:
  assumes "sending_at LST_TSTOPSTART p bs d s"
  shows "\<exists>s'. adb_line_transmit 3 s = ([(True, kShort), (False, kShort), (True, kLong)], s') \<and>
    sending_at LST_SENDBIT0 p bs d s'"
proof -
  obtain s1 where 1: "adb_line_transmit 1 s = ([(True, kShort)], s1)" "sending_at LST_TSTOPSTARTa p bs d s1"
    using pulse_start [OF assms] by blast
  obtain s2 where 2: "adb_line_transmit 1 s1 = ([(False, kShort)], s2)" "sending_at LST_STARTBIT p bs d s2"
    using pulse_start_low [OF 1(2)] by blast
  obtain s3 where 3: "adb_line_transmit 1 s2 = ([(True, kLong)], s3)" "sending_at LST_SENDBIT0 p bs d s3"
    using pulse_start_high [OF 2(2)] by blast
  have "adb_line_transmit (1 + (1 + 1)) s = ([(True, kShort)] @ [(False, kShort)] @ [(True, kLong)], s3)"
    by (intro transmit_append [OF 1(1)] transmit_append [OF 2(1)] 3(1)) simp_all
  then show ?thesis using 3(2) by (simp add: numeral_3_eq_3)
qed

lemma transmit_stop:
  assumes "sending_at LST_SENDSTOP p bs d s"
  shows "\<exists>s'. adb_line_transmit 2 s = ([(False, kStop), (True, -1)], s') \<and> al_linestate s' = LST_IDLE \<and>
    al_sendTimer s' = -1 \<and> al_deviceDrive s' \<and> al_hostDrive s' \<and> adb_line_devices s' = d"
proof -
  obtain s1 where 1: "adb_line_transmit 1 s = ([(False, kStop)], s1)" "sending_at LST_SENDSTOPa p bs d s1"
    using pulse_stop [OF assms] by blast
  obtain s2 where 2: "adb_line_transmit 1 s1 = ([(True, -1)], s2)" "al_linestate s2 = LST_IDLE"
    "al_sendTimer s2 = -1" "al_deviceDrive s2" "al_hostDrive s2" "adb_line_devices s2 = d"
    using pulse_release [OF 1(2)] by blast
  have "adb_line_transmit (1 + 1) s = ([(False, kStop)] @ [(True, -1)], s2)"
    by (rule transmit_append [OF 1(1) _ 2(1)]) simp
  then show ?thesis using 2 by (simp add: numeral_2_eq_2)
qed

lemma transmit_bits:
  assumes "sending_at LST_SENDBIT0 p bs d s" "p < length bs" "j \<le> 7"
  shows "\<exists>s'. adb_line_transmit (2 * j) s = (concat (map bit_cell (take j (byte_bits (bs ! p)))), s') \<and>
    sending_at (17 + 2 * j) p (bs[p := push_bit j (bs ! p)]) d s'"
  using assms(3)
proof (induction j)
  case 0
  then show ?case using assms(1) by simp
next
  case (Suc j)
  let ?w = "bs ! p" and ?bs = "bs[p := push_bit j (bs ! p)]"
  obtain s1 where 1: "adb_line_transmit (2 * j) s = (concat (map bit_cell (take j (byte_bits ?w))), s1)"
    "sending_at (17 + 2 * j) p ?bs d s1"
    using Suc by auto
  have b: "bit (?bs ! p) 7 = bit ?w (7 - j)" "byte_bits ?w ! j = bit ?w (7 - j)"
    using Suc.prems assms(2) by (simp_all add: bit_push_bit_iff nth_byte_bits)
  obtain s2 where 2: "adb_line_transmit 1 s1 = ([(False, if bit (?bs ! p) 7 then kShort else kLong)], s2)"
    "sending_at (18 + 2 * j) p ?bs d s2"
    using pulse_bit_low [OF 1(2)] Suc.prems by auto
  obtain s3 where 3: "adb_line_transmit 1 s2 = ([(True, if bit (?bs ! p) 7 then kLong else kShort)], s3)"
    "sending_at (17 + 2 * Suc j) p (?bs[p := push_bit 1 (?bs ! p)]) d s3"
    using pulse_bit_high [OF 2(2)] Suc.prems by auto
  have "length (concat (map bit_cell (take j (byte_bits ?w)))) = 2 * j"
    using Suc.prems by (simp add: length_concat o_def bit_cell_def sum_list_triv)
  note tr = transmit_append [OF 1(1) this transmit_append [OF 2(1) _ 3(1)], unfolded one_add_one]
  have "?bs[p := push_bit 1 (?bs ! p)] = bs[p := push_bit (Suc j) ?w]"
    using assms(2) by (simp only: nth_list_update_eq list_update_overwrite push_bit_push_bit plus_1_eq_Suc)
  then have snd: "sending_at (17 + 2 * Suc j) p (bs[p := push_bit (Suc j) ?w]) d s3" using 3(2) by (simp only:)
  have "take (Suc j) (byte_bits ?w) = take j (byte_bits ?w) @ [bit (?bs ! p) 7]"
    using Suc.prems b by (simp add: take_Suc_conv_app_nth)
  then have "concat (map bit_cell (take (Suc j) (byte_bits ?w))) =
      concat (map bit_cell (take j (byte_bits ?w))) @ bit_cell (bit (?bs ! p) 7)"
    by (simp only: map_append concat_append list.map concat.simps append_Nil2)
  then have "adb_line_transmit (2 * Suc j) s = (concat (map bit_cell (take (Suc j) (byte_bits ?w))), s3)"
    using tr unfolding bit_cell_def
    by (simp only: append_Cons append_Nil mult_Suc_right add.commute list.size One_nat_def add_0_right)
  then show ?case using snd by blast
qed

lemma transmit_byte:
  assumes "sending_at LST_SENDBIT0 p bs d s" "p < length bs"
  shows "\<exists>s' w. adb_line_transmit 16 s = (concat (map bit_cell (byte_bits (bs ! p))), s') \<and>
    sending_at (if Suc p = al_datasize d then LST_SENDSTOP else LST_SENDBIT0) (Suc p) (bs[p := w]) d s'"
proof -
  let ?w = "bs ! p" and ?bs = "bs[p := push_bit 7 (bs ! p)]"
  obtain s1 where 1: "adb_line_transmit (2 * 7) s = (concat (map bit_cell (take 7 (byte_bits ?w))), s1)"
    "sending_at (17 + 2 * 7) p ?bs d s1"
    using transmit_bits [OF assms, of 7] by auto
  have b: "bit (?bs ! p) 7 = bit ?w 0" using assms(2) by (simp add: bit_push_bit_iff)
  obtain s2 where 2: "adb_line_transmit 1 s1 = ([(False, if bit ?w 0 then kShort else kLong)], s2)"
    "sending_at (18 + 2 * 7) p ?bs d s2"
    using pulse_bit_low [OF 1(2)] b by auto
  obtain s3 where 3: "adb_line_transmit 1 s2 = ([(True, if bit ?w 0 then kLong else kShort)], s3)"
    "sending_at (if Suc p = al_datasize d then LST_SENDSTOP else LST_SENDBIT0) (Suc p) ?bs d s3"
    using pulse_bit7_high [of p ?bs d s2] 2(2) b by auto
  have "length (concat (map bit_cell (take 7 (byte_bits ?w)))) = 2 * 7" by (simp add: bit_cell_def byte_bits_def)
  note tr = transmit_append [OF 1(1) this transmit_append [OF 2(1) _ 3(1)]]
  have "concat (map bit_cell (byte_bits ?w)) = concat (map bit_cell (take 7 (byte_bits ?w))) @ bit_cell (bit ?w 0)"
    by (simp add: byte_bits_def)
  then have "adb_line_transmit 16 s = (concat (map bit_cell (byte_bits ?w)), s3)" using tr by (simp add: bit_cell_def)
  then show ?thesis using 3(2) by blast
qed

lemma transmit_bytes:
  assumes "sending_at LST_SENDBIT0 p bs d s" "p + Suc n = al_datasize d" "al_datasize d \<le> length bs"
  shows "\<exists>s' bs'. adb_line_transmit (16 * Suc n) s =
      (concat (map bit_cell (concat (map byte_bits (take (Suc n) (drop p bs))))), s') \<and>
    sending_at LST_SENDSTOP (al_datasize d) bs' d s'"
  using assms
proof (induction n arbitrary: p bs s)
  case 0
  have "take (Suc 0) (drop p bs) = [bs ! p]" using 0 by (simp add: take_Suc_conv_app_nth)
  then show ?case using transmit_byte [OF 0(1)] 0 by auto
next
  case (Suc n)
  have lt: "p < length bs" using Suc.prems by simp
  then obtain s1 w where 1: "adb_line_transmit 16 s = (concat (map bit_cell (byte_bits (bs ! p))), s1)"
    "sending_at LST_SENDBIT0 (Suc p) (bs[p := w]) d s1"
    using transmit_byte [OF Suc.prems(1)] Suc.prems(2) by auto
  from Suc.IH [OF 1(2)] Suc.prems(2,3) obtain s2 bs' where
    2: "adb_line_transmit (16 * Suc n) s1 =
      (concat (map bit_cell (concat (map byte_bits (take (Suc n) (drop (Suc p) bs))))), s2)"
      "sending_at LST_SENDSTOP (al_datasize d) bs' d s2"
    by (auto simp: drop_update_cancel)
  have "length (concat (map bit_cell (byte_bits (bs ! p)))) = 16" by (simp add: bit_cell_def byte_bits_def)
  note transmit_append [OF 1(1) this 2(1)]
  moreover have "take (Suc (Suc n)) (drop p bs) = bs ! p # take (Suc n) (drop (Suc p) bs)"
    using lt by (simp flip: Cons_nth_drop_Suc)
  ultimately show ?case using 2(2) by (auto simp: algebra_simps)
qed

text \<open>The waveform of an answer: the start bit, the bytes most significant bit first, the stop pulse,
  and the wire released.\<close>

definition answer_wave :: "u8 list \<Rightarrow> (bool \<times> int) list" where
  "answer_wave bytes = [(True, kShort), (False, kShort), (True, kLong)] @
     concat (map bit_cell (concat (map byte_bits bytes))) @ [(False, kStop), (True, -1)]"

lemma transmit_answer:
  assumes "sending_at LST_TSTOPSTART 0 bs d s" "0 < al_datasize d" "al_datasize d \<le> length bs"
  shows "\<exists>s'. adb_line_transmit (16 * al_datasize d + 5) s = (answer_wave (take (al_datasize d) bs), s') \<and>
    al_linestate s' = LST_IDLE \<and> al_sendTimer s' = -1 \<and> adb_line_level s' \<and> adb_line_devices s' = d"
proof -
  obtain n where n: "al_datasize d = Suc n" using assms(2) gr0_implies_Suc by blast
  obtain s1 where 1: "adb_line_transmit 3 s = ([(True, kShort), (False, kShort), (True, kLong)], s1)"
    "sending_at LST_SENDBIT0 0 bs d s1"
    using transmit_start [OF assms(1)] by blast
  obtain s2 bs' where 2: "adb_line_transmit (16 * Suc n) s1 =
      (concat (map bit_cell (concat (map byte_bits (take (Suc n) bs)))), s2)" "sending_at LST_SENDSTOP (al_datasize d) bs' d s2"
    using transmit_bytes [OF 1(2)] n assms(3) by auto
  obtain s3 where 3: "adb_line_transmit 2 s2 = ([(False, kStop), (True, -1)], s3)" "al_linestate s3 = LST_IDLE"
    "al_sendTimer s3 = -1" "al_deviceDrive s3" "al_hostDrive s3" "adb_line_devices s3 = d"
    using transmit_stop [OF 2(2)] by blast
  have "length (concat (map byte_bits bytes)) = 8 * length bytes" for bytes by (induction bytes) simp_all
  moreover have "length (concat (map bit_cell bits)) = 2 * length bits" for bits
    by (induction bits) (simp_all add: bit_cell_def)
  ultimately have "length (concat (map bit_cell (concat (map byte_bits (take (Suc n) bs))))) = 16 * Suc n"
    using n assms(3) by simp
  note r = transmit_append [OF 2(1) this 3(1)]
  have "adb_line_transmit (3 + (16 * Suc n + 2)) s = (answer_wave (take (Suc n) bs), s3)"
    using transmit_append [OF 1(1) _ r] by (simp add: answer_wave_def)
  moreover have "3 + (16 * Suc n + 2) = 16 * al_datasize d + 5" by (simp add: n)
  ultimately show ?thesis using 3 n by (auto simp: adb_line_level_def)
qed

lemma stop_talk_kbd:
  assumes "adb_line_core s" "al_kbdAddr s \<noteq> al_mouseAddr s" "al_keyBuf s = k0 # ks" "al_command s = talk_r0 (al_kbdAddr s)"
    "al_waitingCmd s" "\<not> al_direction s" "al_hostDrive s"
  shows "\<exists>d bs. sending_at LST_TSTOPSTART 0 bs d (adb_line_stop s) \<and> al_datasize d = 2 \<and> 2 \<le> length bs \<and>
    take 2 bs = [case ks of [] \<Rightarrow> 0xFF | k1 # _ \<Rightarrow> k1, k0] \<and> al_keyBuf d = tl ks"
proof -
  have a: "al_kbdAddr s < 16" and l: "length (al_buffer s) = 8" using assms(1) by (simp_all add: adb_line_core_def)
  then obtain b0 b1 bs where b: "al_buffer s = b0 # b1 # bs" by (auto simp: length_Suc_conv numeral_eq_Suc)
  define q where "q = adb_line_adbTalk (s\<lparr>al_srqFlag := False\<rparr>)"
  have "al_buffer q = (case ks of [] \<Rightarrow> 0xFF | k1 # _ \<Rightarrow> k1) # k0 # bs \<and> al_datasize q = 2 \<and> \<not> al_srqFlag q \<and>
      al_keyBuf q = tl ks \<and> al_hostDrive q"
    using assms talk_r0_decode [OF a] b
    by (cases ks) (simp_all add: q_def adb_line_adbTalk_def adb_line_command_def Let_def adb_line_talk_kbd_def
        adb_line_talk_kbd_r0_def)
  then show ?thesis
    using assms(6)
    by (intro exI [of _ "adb_line_devices (adb_line_stop s)"] exI [of _ "al_buffer q"])
      (auto simp: adb_line_stop_def q_def [symmetric] Let_def adb_line_armTimer_def sending_at_def adb_line_devices_def
        adb_line_writeData_def numeral_2_eq_2)
qed

text \<open>C13: a whole keyboard poll over the wire: the host sends Talk register 0 with any pulse widths
  inside the tolerances, and the keyboard answers on the wire, after the start bit, with the two
  oldest queued key transitions as bit cells, most significant bit first, the older one in the
  second byte; the transitions leave the queue and the wire is released and idle.\<close>

theorem adb_talk_keyboard:
  assumes "adb_line_reachable s" "al_linestate s = LST_IDLE" "al_hostDrive s" "al_kbdAddr s \<noteq> al_mouseAddr s"
    and "al_keyBuf s = k0 # ks"
    and "T_ATTEN \<le> att" "att < T_RESET" "T_SYNC \<le> sync"
    and "map (\<lambda>(l, h). T_BIT \<le> h) cells = byte_bits (talk_r0 (al_kbdAddr s))"
  shows "let s1 = adb_line_setHostDrive True (foldl adb_line_drive s (command_wave att sync cells stop));
      (w, s2) = adb_line_transmit 37 s1
    in w = answer_wave [case ks of [] \<Rightarrow> 0xFF | k1 # _ \<Rightarrow> k1, k0] \<and> al_keyBuf s2 = tl ks \<and>
       al_linestate s2 = LST_IDLE \<and> al_sendTimer s2 = -1 \<and> adb_line_level s2"
proof -
  have ok: "adb_line_core s" "adb_line_wire s" using adb_line_reachable_ok [OF assms(1)] by simp_all
  then have "al_sendTimer s = -1" "al_deviceDrive s" using assms(2) by (simp_all add: adb_line_wire_def)
  then obtain t where t: "adb_line_setHostDrive True (foldl adb_line_drive s (command_wave att sync cells stop)) =
    adb_line_stop (s\<lparr>al_hostDrive := True, al_linestate := LST_TSTOP, al_now := t, al_lastEdge := t,
      al_command := talk_r0 (al_kbdAddr s), al_waitingCmd := True, al_direction := False\<rparr>)"
    using receives_command [OF assms(2) _ assms(3) _ assms(6-9)] by blast
  let ?q = "s\<lparr>al_hostDrive := True, al_linestate := LST_TSTOP, al_now := t, al_lastEdge := t,
      al_command := talk_r0 (al_kbdAddr s), al_waitingCmd := True, al_direction := False\<rparr>"
  obtain d bs where d: "sending_at LST_TSTOPSTART 0 bs d (adb_line_stop ?q)" "al_datasize d = 2" "2 \<le> length bs"
    "take 2 bs = [case ks of [] \<Rightarrow> 0xFF | k1 # _ \<Rightarrow> k1, k0]" "al_keyBuf d = tl ks"
    using stop_talk_kbd [of ?q k0 ks] ok(1) assms(4,5) by auto
  from transmit_answer [OF d(1)] d(2,3) obtain s2 where
    "adb_line_transmit 37 (adb_line_stop ?q) = (answer_wave (take 2 bs), s2)" "al_linestate s2 = LST_IDLE"
    "al_sendTimer s2 = -1" "adb_line_level s2" "adb_line_devices s2 = d"
    by auto
  moreover have "al_keyBuf (adb_line_devices s2) = al_keyBuf s2" by (simp add: adb_line_devices_def)
  ultimately show ?thesis unfolding t Let_def using d(4,5) by simp
qed

theorem adb_talk_keyboard_witness:
  "let s = adb_line_keyEvent 0x00 True adb_line_init;
       s1 = adb_line_setHostDrive True (foldl adb_line_drive s (command_wave 12410 1000
         [(1020, 544), (1020, 544), (544, 1020), (1020, 544), (544, 1020), (544, 1020), (1020, 544), (1020, 544)] 1020));
       (w, s2) = adb_line_transmit 37 s1
   in w = answer_wave [0xFF, 0x00] \<and> al_keyBuf s2 = []"
proof -
  have "adb_line_reachable (adb_line_keyEvent 0x00 True adb_line_init)" by (intro adb_line_reachable.intros)
  from adb_talk_keyboard [OF this, of 0 "[]" 12410 1000
      "[(1020, 544), (1020, 544), (544, 1020), (1020, 544), (544, 1020), (544, 1020), (1020, 544), (1020, 544)]" 1020]
  show ?thesis
    by (simp add: adb_line_keyEvent_def adb_line_init_def adb_fold_key_def adb_modifier_bit_def byte_bits_def talk_r0_def
        Let_def case_prod_beta)
qed

text \<open>The secondary button under the Extended Mouse Protocol: a change of that button alone
  counts as pending for a service request, but the Talk register 0 that would report it stays
  without an answer and marks the change as sent, so it is lost.\<close>

theorem adb_button2_dropped:
  assumes "\<not> al_srqSwitch s" "al_mouseHandlerId s = 4" "al_mdx s = 0" "al_mdy s = 0" "al_mbtn s = al_mbtnSent s"
    "al_mbtn2 s \<noteq> al_mbtn2Sent s"
  shows "adb_line_mousePending s \<and> al_datasize (adb_line_talk_mouse 0 s) = al_datasize s \<and>
    \<not> adb_line_mousePending (adb_line_talk_mouse 0 s)"
proof -
  have "snd (clamp7 0) = 0" by (simp add: clamp7_rest)
  then show ?thesis using assms
    by (simp add: adb_line_talk_mouse_def talk_mouse_r0_eq Let_def adb_mouse_reported_def adb_line_mousePending_def)
qed

theorem adb_button2_dropped_witness:
  "al_datasize (adb_line_talk_mouse 0 (adb_line_init\<lparr>al_mouseHandlerId := 4, al_mbtn2 := True\<rparr>)) = 0"
  using adb_button2_dropped [of "adb_line_init\<lparr>al_mouseHandlerId := 4, al_mbtn2 := True\<rparr>"]
  by (simp add: adb_line_init_def)

end
