(* ===== verification/Pic_1654s.thy ===== *)
theory Pic_1654s
  imports Pom_Prelude
begin

text \<open>
  The PIC1654S microcontroller of \<^verbatim>\<open>Pic1654s.h\<close> and \<^verbatim>\<open>Pic1654s.cpp\<close>, the part behind the
  Macintosh II and SE ADB transceiver: program memory, file registers, the two-level hardware
  stack, the quasi-bidirectional ports and the whole instruction set, executed by \<^verbatim>\<open>run\<close>.

  The port callbacks of the owner are a parameter: functions on an environment of any type \<open>'e\<close>
  that the instructions read and update.  An absent callback is \<open>None\<close>.  The lemmas show that
  every fetch and register access stays inside its array, that \<^verbatim>\<open>run\<close> returns with a bounded
  overshoot and can be cut into pieces at will, that the arithmetic flags are the carry and borrow
  of the true sum and difference, and that subroutine calls return.
\<close>

record pic =
  pi_prog :: "u16 list"
  pi_progMask :: u16
  pi_ram :: "u8 list"
  pi_w :: u8
  pi_pc :: u16
  pi_status :: u8
  pi_fsr :: u8
  pi_option :: u8
  pi_portA :: u8
  pi_portB :: u8
  pi_stack0 :: u16
  pi_stack1 :: u16
  pi_pclWritten :: bool
  pi_rtcc :: bool

record 'e pic_ports =
  pp_readA :: "('e \<Rightarrow> u8) option"
  pp_readB :: "('e \<Rightarrow> u8) option"
  pp_writeA :: "(u8 \<Rightarrow> 'e \<Rightarrow> 'e) option"
  pp_writeB :: "(u8 \<Rightarrow> 'e \<Rightarrow> 'e) option"

abbreviation (input) "F_INDF \<equiv> 0x00 :: u8"
abbreviation (input) "F_TMR0 \<equiv> 0x01 :: u8"
abbreviation (input) "F_PCL \<equiv> 0x02 :: u8"
abbreviation (input) "F_STATUS \<equiv> 0x03 :: u8"
abbreviation (input) "F_FSR \<equiv> 0x04 :: u8"
abbreviation (input) "F_PORTA \<equiv> 0x05 :: u8"
abbreviation (input) "F_PORTB \<equiv> 0x06 :: u8"
abbreviation (input) "ST_C \<equiv> 0x01 :: u8"
abbreviation (input) "ST_DC \<equiv> 0x02 :: u8"
abbreviation (input) "ST_Z \<equiv> 0x04 :: u8"
abbreviation (input) "ST_PD \<equiv> 0x08 :: u8"
abbreviation (input) "ST_TO \<equiv> 0x10 :: u8"
abbreviation (input) "ST_PA \<equiv> 0xE0 :: u8"

definition kStatusHi :: u8 where
  "kStatusHi = NOT 0x07"

definition pic_init :: pic where
  "pic_init = \<lparr>pi_prog = [], pi_progMask = 0, pi_ram = [], pi_w = 0, pi_pc = 0, pi_status = 0, pi_fsr = 0,
     pi_option = 0x3F, pi_portA = 0, pi_portB = 0, pi_stack0 = 0, pi_stack1 = 0, pi_pclWritten = False,
     pi_rtcc = True\<rparr>"

definition pic_reset :: "pic \<Rightarrow> pic" where
  "pic_reset p = p\<lparr>pi_ram := replicate 0x20 0, pi_w := 0,
     pi_status := (kStatusHi OR ST_TO OR ST_PD) AND NOT ST_PA, pi_fsr := 0, pi_option := 0x3F, pi_portA := 0,
     pi_portB := 0, pi_stack0 := 0, pi_stack1 := 0, pi_pclWritten := False, pi_rtcc := True,
     pi_pc := pi_progMask p\<rparr>"

text \<open>The size of the program memory: the power of two the doubling loop ends at.\<close>

function pow2_size :: "nat \<Rightarrow> nat \<Rightarrow> nat" where
  "pow2_size words sz = (if sz < words \<and> 0 < sz then pow2_size words (2 * sz) else sz)"
  by pat_completeness auto
termination by (relation "measure (\<lambda>(words, sz). words - sz)") auto

declare pow2_size.simps [simp del]

definition rom_word :: "bool \<Rightarrow> u8 list \<Rightarrow> nat \<Rightarrow> u16" where
  "rom_word bigEndian data i =
     (if bigEndian then push_bit 8 (ucast (data ! (i * 2))) OR ucast (data ! (i * 2 + 1))
      else push_bit 8 (ucast (data ! (i * 2 + 1))) OR ucast (data ! (i * 2))) AND 0x0FFF"

definition pic_loadRom :: "u8 list option \<Rightarrow> bool \<Rightarrow> pic \<Rightarrow> bool \<times> pic" where
  "pic_loadRom rom bigEndian p =
     (case rom of None \<Rightarrow> (False, p)
      | Some data \<Rightarrow>
          if length data < 2 \<or> odd (length data) then (False, p)
          else
            let words = length data div 2; sz = pow2_size words 1;
                prog = map (rom_word bigEndian data) [0..<words] @ replicate (sz - words) 0x0FFF
            in (True, pic_reset (p\<lparr>pi_prog := prog, pi_progMask := of_nat (sz - 1)\<rparr>)))"

definition pic_romLoaded :: "pic \<Rightarrow> bool" where
  "pic_romLoaded p \<longleftrightarrow> pi_prog p \<noteq> []"

definition pic_setRtcc :: "bool \<Rightarrow> pic \<Rightarrow> pic" where
  "pic_setRtcc level p =
     (let p = (if pi_rtcc p \<and> \<not> level then p\<lparr>pi_ram := (pi_ram p)[1 := pi_ram p ! 1 + 1]\<rparr> else p)
      in p\<lparr>pi_rtcc := level\<rparr>)"


section \<open>Registers\<close>

definition pic_page :: "pic \<Rightarrow> u16" where
  "pic_page p = push_bit 4 (ucast (pi_status p AND ST_PA))"

text \<open>The direct cases of \<^verbatim>\<open>readReg\<close> and \<^verbatim>\<open>writeReg\<close>; \<open>f\<close> is a register number below 32.\<close>

definition pic_readDirect :: "'e pic_ports \<Rightarrow> 'e \<Rightarrow> pic \<Rightarrow> u8 \<Rightarrow> u8" where
  "pic_readDirect ports e p f =
     (if f = F_TMR0 then pi_ram p ! 1
      else if f = F_PCL then ucast (pi_pc p AND 0xFF)
      else if f = F_STATUS then pi_status p
      else if f = F_FSR then pi_fsr p OR 0xE0
      else if f = F_PORTA then ((case pp_readA ports of None \<Rightarrow> 0x0F | Some r \<Rightarrow> r e) AND pi_portA p) AND 0x0F
      else if f = F_PORTB then (case pp_readB ports of None \<Rightarrow> 0xFF | Some r \<Rightarrow> r e) AND pi_portB p
      else pi_ram p ! unat f)"

definition pic_readReg :: "'e pic_ports \<Rightarrow> u8 \<Rightarrow> pic \<times> 'e \<Rightarrow> u8" where
  "pic_readReg ports f0 s =
     (let p = fst s; e = snd s; f = f0 AND 0x1F
      in if f = F_INDF then
           let a = pi_fsr p AND 0x1F in if a \<noteq> 0 then pic_readDirect ports e p a else 0
         else pic_readDirect ports e p f)"

definition pic_writeDirect :: "'e pic_ports \<Rightarrow> u8 \<Rightarrow> u8 \<Rightarrow> pic \<times> 'e \<Rightarrow> pic \<times> 'e" where
  "pic_writeDirect ports f v s =
     (let p = fst s; e = snd s
      in if f = F_TMR0 then (p\<lparr>pi_ram := (pi_ram p)[1 := v]\<rparr>, e)
         else if f = F_PCL then
           (p\<lparr>pi_pc := (pic_page p OR ucast v) AND pi_progMask p, pi_pclWritten := True\<rparr>, e)
         else if f = F_STATUS then (p\<lparr>pi_status := v OR kStatusHi\<rparr>, e)
         else if f = F_FSR then (p\<lparr>pi_fsr := v AND 0x1F\<rparr>, e)
         else if f = F_PORTA then
           (p\<lparr>pi_portA := v AND 0x0F\<rparr>, case pp_writeA ports of None \<Rightarrow> e | Some h \<Rightarrow> h (v AND 0x0F) e)
         else if f = F_PORTB then
           (p\<lparr>pi_portB := v\<rparr>, case pp_writeB ports of None \<Rightarrow> e | Some h \<Rightarrow> h v e)
         else (p\<lparr>pi_ram := (pi_ram p)[unat f := v]\<rparr>, e))"

definition pic_writeReg :: "'e pic_ports \<Rightarrow> u8 \<Rightarrow> u8 \<Rightarrow> pic \<times> 'e \<Rightarrow> pic \<times> 'e" where
  "pic_writeReg ports f0 v s =
     (let f = f0 AND 0x1F
      in if f = F_INDF then
           let a = pi_fsr (fst s) AND 0x1F in if a \<noteq> 0 then pic_writeDirect ports a v s else s
         else pic_writeDirect ports f v s)"

definition pic_push :: "u16 \<Rightarrow> pic \<Rightarrow> pic" where
  "pic_push addr p = p\<lparr>pi_stack0 := pi_stack1 p, pi_stack1 := addr AND pi_progMask p\<rparr>"

definition pic_pop :: "pic \<Rightarrow> u16 \<times> pic" where
  "pic_pop p = (pi_stack1 p AND pi_progMask p, p\<lparr>pi_stack1 := pi_stack0 p\<rparr>)"

text \<open>Setting or clearing a status bit, and the zero flag of a result.\<close>

definition pic_flag :: "u8 \<Rightarrow> bool \<Rightarrow> pic \<Rightarrow> pic" where
  "pic_flag m b p = p\<lparr>pi_status := (if b then pi_status p OR m else pi_status p AND NOT m)\<rparr>"

definition pic_setZ :: "u8 \<Rightarrow> pic \<Rightarrow> pic" where
  "pic_setZ v p = pic_flag ST_Z (v = 0) p"


section \<open>Instructions\<close>

definition pic_skip :: "pic \<Rightarrow> pic" where
  "pic_skip p = p\<lparr>pi_pc := (pi_pc p + 1) AND pi_progMask p\<rparr>"

definition pic_dest :: "'e pic_ports \<Rightarrow> bool \<Rightarrow> u8 \<Rightarrow> u8 \<Rightarrow> pic \<times> 'e \<Rightarrow> pic \<times> 'e" where
  "pic_dest ports d f r s = (if d then pic_writeReg ports f r s else ((fst s)\<lparr>pi_w := r\<rparr>, snd s))"

text \<open>Literal and control instructions; the first component is the cost in cycles.\<close>

definition pic_literal :: "u16 \<Rightarrow> pic \<Rightarrow> int \<times> pic" where
  "pic_literal op p =
     (let k = ucast (op AND 0xFF) :: u8; g = op AND 0x0F00
      in if g = 0x0800 then let (d, p) = pic_pop (p\<lparr>pi_w := k\<rparr>) in (2, p\<lparr>pi_pc := d\<rparr>)
         else if g = 0x0900 then
           let p = pic_push (pi_pc p) p in (2, p\<lparr>pi_pc := ((pic_page p OR ucast k) AND 0x6FF) AND pi_progMask p\<rparr>)
         else if g = 0x0A00 \<or> g = 0x0B00 then
           (2, p\<lparr>pi_pc := (pic_page p OR (op AND 0x1FF)) AND pi_progMask p\<rparr>)
         else if g = 0x0C00 then (1, p\<lparr>pi_w := k\<rparr>)
         else if g = 0x0D00 then (1, pic_setZ (pi_w p OR k) (p\<lparr>pi_w := pi_w p OR k\<rparr>))
         else if g = 0x0E00 then (1, pic_setZ (pi_w p AND k) (p\<lparr>pi_w := pi_w p AND k\<rparr>))
         else if g = 0x0F00 then (1, pic_setZ (pi_w p XOR k) (p\<lparr>pi_w := pi_w p XOR k\<rparr>))
         else (1, p))"

definition pic_bitop :: "'e pic_ports \<Rightarrow> u16 \<Rightarrow> pic \<times> 'e \<Rightarrow> int \<times> pic \<times> 'e" where
  "pic_bitop ports op s =
     (let b = push_bit (unat (drop_bit 5 op AND 7)) 1 :: u8; f = ucast (op AND 0x1F) :: u8; g = op AND 0x0300
      in if g = 0x0000 then (1, pic_writeReg ports f (pic_readReg ports f s AND NOT b) s)
         else if g = 0x0100 then (1, pic_writeReg ports f (pic_readReg ports f s OR b) s)
         else if g = 0x0200 then
           if \<not> flag (pic_readReg ports f s) b then (2, pic_skip (fst s), snd s) else (1, s)
         else
           if flag (pic_readReg ports f s) b then (2, pic_skip (fst s), snd s) else (1, s))"

text \<open>The byte-oriented instructions that only compute a result and the zero flag.\<close>

definition pic_unary :: "'e pic_ports \<Rightarrow> bool \<Rightarrow> u8 \<Rightarrow> u8 \<Rightarrow> pic \<times> 'e \<Rightarrow> int \<times> pic \<times> 'e" where
  "pic_unary ports d f r s = (let s = pic_dest ports d f r s in (1, pic_setZ r (fst s), snd s))"

definition pic_subwf :: "'e pic_ports \<Rightarrow> bool \<Rightarrow> u8 \<Rightarrow> pic \<times> 'e \<Rightarrow> pic \<times> 'e" where
  "pic_subwf ports d f s =
     (let fv = pic_readReg ports f s; r = fv - pi_w (fst s); s = pic_dest ports d f r s; p = fst s;
          p = pic_flag ST_C (\<not> fv < pi_w p) p;
          p = pic_flag ST_DC (\<not> (fv AND 0x0F) < (pi_w p AND 0x0F)) p
      in (pic_setZ r p, snd s))"

definition pic_addwf :: "'e pic_ports \<Rightarrow> bool \<Rightarrow> u8 \<Rightarrow> pic \<times> 'e \<Rightarrow> pic \<times> 'e" where
  "pic_addwf ports d f s =
     (let fv = pic_readReg ports f s; r = fv + pi_w (fst s); s = pic_dest ports d f r s; p = fst s;
          p = pic_flag ST_C (fv > r) p;
          p = pic_flag ST_DC ((fv AND 0x0F) > (r AND 0x0F)) p
      in (pic_setZ r p, snd s))"

definition pic_count_skip :: "'e pic_ports \<Rightarrow> bool \<Rightarrow> u8 \<Rightarrow> u8 \<Rightarrow> pic \<times> 'e \<Rightarrow> int \<times> pic \<times> 'e" where
  "pic_count_skip ports d f r s =
     (let s = pic_dest ports d f r s in if r = 0 then (2, pic_skip (fst s), snd s) else (1, s))"

definition pic_rrf :: "'e pic_ports \<Rightarrow> bool \<Rightarrow> u8 \<Rightarrow> pic \<times> 'e \<Rightarrow> pic \<times> 'e" where
  "pic_rrf ports d f s =
     (let fv = pic_readReg ports f s; r = drop_bit 1 fv OR (if flag (pi_status (fst s)) ST_C then 0x80 else 0);
          s = pic_dest ports d f r s
      in (pic_flag ST_C (flag fv 1) (fst s), snd s))"

definition pic_rlf :: "'e pic_ports \<Rightarrow> bool \<Rightarrow> u8 \<Rightarrow> pic \<times> 'e \<Rightarrow> pic \<times> 'e" where
  "pic_rlf ports d f s =
     (let fv = pic_readReg ports f s; r = push_bit 1 fv OR (if flag (pi_status (fst s)) ST_C then 1 else 0);
          s = pic_dest ports d f r s
      in (pic_flag ST_C (flag fv 0x80) (fst s), snd s))"

definition pic_byteop :: "'e pic_ports \<Rightarrow> u16 \<Rightarrow> pic \<times> 'e \<Rightarrow> int \<times> pic \<times> 'e" where
  "pic_byteop ports op s =
     (let f = ucast (op AND 0x1F) :: u8; d = (op AND 0x20 \<noteq> 0); g = drop_bit 6 op AND 0x0F;
          fv = pic_readReg ports f s; w = pi_w (fst s)
      in if g = 0x00 then (1, if d then pic_writeReg ports f w s else s)
         else if g = 0x01 then
           let s = (if d then pic_writeReg ports f 0 s else ((fst s)\<lparr>pi_w := 0\<rparr>, snd s))
           in (1, pic_flag ST_Z True (fst s), snd s)
         else if g = 0x02 then (1, pic_subwf ports d f s)
         else if g = 0x03 then pic_unary ports d f (fv - 1) s
         else if g = 0x04 then pic_unary ports d f (fv OR w) s
         else if g = 0x05 then pic_unary ports d f (fv AND w) s
         else if g = 0x06 then pic_unary ports d f (fv XOR w) s
         else if g = 0x07 then (1, pic_addwf ports d f s)
         else if g = 0x08 then pic_unary ports d f fv s
         else if g = 0x09 then pic_unary ports d f (NOT fv) s
         else if g = 0x0A then pic_unary ports d f (fv + 1) s
         else if g = 0x0B then pic_count_skip ports d f (fv - 1) s
         else if g = 0x0C then (1, pic_rrf ports d f s)
         else if g = 0x0D then (1, pic_rlf ports d f s)
         else if g = 0x0E then (1, pic_dest ports d f (drop_bit 4 fv OR push_bit 4 fv) s)
         else pic_count_skip ports d f (fv + 1) s)"

definition pic_exec :: "'e pic_ports \<Rightarrow> u16 \<Rightarrow> pic \<times> 'e \<Rightarrow> int \<times> pic \<times> 'e" where
  "pic_exec ports op s =
     (if op AND 0x0800 \<noteq> 0 then let (c, p) = pic_literal op (fst s) in (c, p, snd s)
      else if op AND 0x0C00 = 0x0400 then pic_bitop ports op s
      else pic_byteop ports op s)"

text \<open>One turn of the loop of \<^verbatim>\<open>run\<close>.\<close>

definition pic_step :: "'e pic_ports \<Rightarrow> pic \<times> 'e \<Rightarrow> int \<times> pic \<times> 'e" where
  "pic_step ports s =
     (let p = fst s; op = pi_prog p ! unat (pi_pc p AND pi_progMask p);
          p = p\<lparr>pi_pc := (pi_pc p + 1) AND pi_progMask p, pi_pclWritten := False\<rparr>;
          (cost, s) = pic_exec ports op (p, snd s)
      in (if pi_pclWritten (fst s) then cost + 1 else cost, s))"


section \<open>Running\<close>

lemma literal_cost: "1 \<le> fst (pic_literal op p) \<and> fst (pic_literal op p) \<le> 2"
  by (simp add: pic_literal_def Let_def pic_pop_def)

lemma bitop_cost: "1 \<le> fst (pic_bitop ports op s) \<and> fst (pic_bitop ports op s) \<le> 2"
  by (simp add: pic_bitop_def Let_def)

lemma byteop_cost: "1 \<le> fst (pic_byteop ports op s) \<and> fst (pic_byteop ports op s) \<le> 2"
  by (simp add: pic_byteop_def Let_def pic_unary_def pic_count_skip_def)

lemma step_cost: "1 \<le> fst (pic_step ports s) \<and> fst (pic_step ports s) \<le> 3"
proof -
  have "1 \<le> fst (pic_exec ports op s) \<and> fst (pic_exec ports op s) \<le> 2" for op s
    using literal_cost [of op "fst s"] bitop_cost [of ports op s] byteop_cost [of ports op s]
    by (simp add: pic_exec_def case_prod_beta)
  then show ?thesis unfolding pic_step_def Let_def case_prod_beta fst_conv
    by (smt (verit))
qed

text \<open>The loop of \<^verbatim>\<open>run\<close>; it ends because every instruction costs at least one cycle.\<close>

function pic_run_from :: "'e pic_ports \<Rightarrow> int \<Rightarrow> int \<Rightarrow> pic \<times> 'e \<Rightarrow> int \<times> pic \<times> 'e" where
  "pic_run_from ports cycles spent s =
     (if spent < cycles then
        let r = pic_step ports s in pic_run_from ports cycles (spent + fst r) (snd r)
      else (spent, s))"
  by pat_completeness auto
termination
proof (relation "measure (\<lambda>(ports, cycles, spent, s). nat (cycles - spent))")
  fix ports :: "'e pic_ports" and cycles spent :: int and s r
  assume "spent < cycles" "r = pic_step ports s"
  then show "((ports, cycles, spent + fst r, snd r), (ports, cycles, spent, s))
      \<in> measure (\<lambda>(ports, cycles, spent, s). nat (cycles - spent))"
    using step_cost [of ports s] by simp
qed simp

declare pic_run_from.simps [simp del]

definition pic_run :: "'e pic_ports \<Rightarrow> int \<Rightarrow> pic \<times> 'e \<Rightarrow> int \<times> pic \<times> 'e" where
  "pic_run ports cycles s = (if pi_prog (fst s) = [] then (cycles, s) else pic_run_from ports cycles 0 s)"

lemma run_from_stop: "cycles \<le> spent \<Longrightarrow> pic_run_from ports cycles spent s = (spent, s)"
  by (simp add: pic_run_from.simps)

lemma run_from_step:
  "spent < cycles \<Longrightarrow> pic_run_from ports cycles spent s =
     pic_run_from ports cycles (spent + fst (pic_step ports s)) (snd (pic_step ports s))"
  by (subst pic_run_from.simps) (simp add: Let_def)

lemma run_from_bounds:
  "spent < cycles + 3 \<Longrightarrow> cycles \<le> fst (pic_run_from ports cycles spent s) \<and>
     fst (pic_run_from ports cycles spent s) < cycles + 3"
proof (induction ports cycles spent s rule: pic_run_from.induct)
  case (1 ports cycles spent s)
  show ?case
  proof (cases "spent < cycles")
    case True
    then show ?thesis using 1 step_cost [of ports s] by (simp add: run_from_step)
  qed (use 1 in \<open>simp add: run_from_stop\<close>)
qed

lemma run_from_shift:
  "pic_run_from ports (cycles + k) (spent + k) s =
     (let r = pic_run_from ports cycles spent s in (fst r + k, snd r))"
proof (induction ports cycles spent s rule: pic_run_from.induct)
  case (1 ports cycles spent s)
  show ?case
  proof (cases "spent < cycles")
    case True
    then have e: "spent + k < cycles + k" by simp
    have a: "spent + k + fst (pic_step ports s) = spent + fst (pic_step ports s) + k" by simp
    show ?thesis unfolding run_from_step [OF e] run_from_step [OF True] a by (rule 1 [OF True refl])
  qed (simp add: run_from_stop Let_def)
qed

lemma run_from_split:
  assumes "a \<le> b"
  shows "pic_run_from ports b spent s =
     (let r = pic_run_from ports a spent s in pic_run_from ports b (fst r) (snd r))"
  using assms
proof (induction ports a spent s rule: pic_run_from.induct)
  case (1 ports a spent s)
  show ?case
  proof (cases "spent < a")
    case True
    then show ?thesis using 1 by (simp add: run_from_step [of spent])
  qed (simp add: run_from_stop Let_def)
qed


section \<open>Memory safety\<close>

lemma and_and_mask [simp]: "(x AND m) AND m = x AND (m :: 'a::len word)"
  by (simp add: and.assoc)

lemma and_1F_less: "(w :: u8) AND 0x1F < 32"
  by (rule le_less_trans [OF word_and_le1]) simp

lemma and_0F_lt: "(w :: u8) AND 0x0F < 16"
  by (rule le_less_trans [OF word_and_le1]) simp

definition pic_ok :: "pic \<Rightarrow> bool" where
  "pic_ok p \<longleftrightarrow> length (pi_ram p) = 32 \<and> unat (pi_progMask p) < length (pi_prog p) \<and>
     pi_pc p AND pi_progMask p = pi_pc p \<and> pi_fsr p < 32 \<and> pi_portA p < 16"

lemma pic_ok_updates [simp]:
  "pic_ok (p\<lparr>pi_w := v\<rparr>) = pic_ok p"
  "pic_ok (p\<lparr>pi_status := v\<rparr>) = pic_ok p"
  "pic_ok (p\<lparr>pi_pclWritten := b\<rparr>) = pic_ok p"
  "pic_ok (p\<lparr>pi_portB := v\<rparr>) = pic_ok p"
  "pic_ok (p\<lparr>pi_stack0 := a\<rparr>) = pic_ok p"
  "pic_ok (p\<lparr>pi_stack1 := a\<rparr>) = pic_ok p"
  "pic_ok (p\<lparr>pi_rtcc := b\<rparr>) = pic_ok p"
  "pic_ok p \<Longrightarrow> pic_ok (p\<lparr>pi_pc := a AND pi_progMask p\<rparr>)"
  "pic_ok p \<Longrightarrow> pic_ok (p\<lparr>pi_fsr := v AND 0x1F\<rparr>)"
  "pic_ok p \<Longrightarrow> pic_ok (p\<lparr>pi_portA := v AND 0x0F\<rparr>)"
  "pic_ok p \<Longrightarrow> pic_ok (p\<lparr>pi_ram := (pi_ram p)[n := v]\<rparr>)"
  "pic_ok (pic_flag m b p) = pic_ok p"
  "pic_ok (pic_setZ v p) = pic_ok p"
  by (simp_all add: pic_ok_def pic_flag_def pic_setZ_def and_1F_less and_0F_lt)

lemma writeDirect_ok: "pic_ok (fst s) \<Longrightarrow> pic_ok (fst (pic_writeDirect ports f v s))"
  by (simp add: pic_writeDirect_def Let_def)

lemma writeReg_ok: "pic_ok (fst s) \<Longrightarrow> pic_ok (fst (pic_writeReg ports f v s))"
  by (simp add: pic_writeReg_def Let_def writeDirect_ok)

lemma dest_ok: "pic_ok (fst s) \<Longrightarrow> pic_ok (fst (pic_dest ports d f r s))"
  by (simp add: pic_dest_def writeReg_ok)

lemma skip_ok: "pic_ok p \<Longrightarrow> pic_ok (pic_skip p)"
  by (simp add: pic_skip_def)

lemma literal_ok: "pic_ok p \<Longrightarrow> pic_ok (snd (pic_literal op p))"
  by (simp add: pic_literal_def Let_def pic_pop_def pic_push_def) (simp add: pic_ok_def)

lemma bitop_ok: "pic_ok (fst s) \<Longrightarrow> pic_ok (fst (snd (pic_bitop ports op s)))"
  by (simp add: pic_bitop_def Let_def writeReg_ok skip_ok)

lemma byteop_ok: "pic_ok (fst s) \<Longrightarrow> pic_ok (fst (snd (pic_byteop ports op s)))"
  by (simp add: pic_byteop_def Let_def writeReg_ok dest_ok skip_ok pic_unary_def pic_subwf_def pic_addwf_def
      pic_count_skip_def pic_rrf_def pic_rlf_def)

lemma exec_ok: "pic_ok (fst s) \<Longrightarrow> pic_ok (fst (snd (pic_exec ports op s)))"
  by (simp add: pic_exec_def case_prod_beta literal_ok bitop_ok byteop_ok)

lemma step_ok: "pic_ok (fst s) \<Longrightarrow> pic_ok (fst (snd (pic_step ports s)))"
  unfolding pic_step_def Let_def case_prod_beta snd_conv by (rule exec_ok) simp

lemma pow2_size_ge: "0 < sz \<Longrightarrow> words \<le> pow2_size words sz \<and> sz \<le> pow2_size words sz"
proof (induction words sz rule: pow2_size.induct)
  case (1 words sz)
  show ?case
  proof (cases "sz < words \<and> 0 < sz")
    case True
    then have "pow2_size words sz = pow2_size words (2 * sz)" by (subst pow2_size.simps) simp
    then show ?thesis using 1 True by auto
  next
    case False
    then have "pow2_size words sz = sz" by (subst pow2_size.simps) auto
    then show ?thesis using False "1.prems" by simp
  qed
qed

lemma loadRom_ok:
  assumes "pic_loadRom rom be p = (True, p')"
  shows "pic_ok p'"
proof -
  obtain data where d: "rom = Some data" "\<not> (length data < 2 \<or> odd (length data))"
    using assms by (auto simp: pic_loadRom_def split: option.splits if_splits)
  define words where "words = length data div 2"
  define sz where "sz = pow2_size words 1"
  have w: "0 < words" "words \<le> sz" using d(2) pow2_size_ge [of 1 words] by (auto simp: words_def sz_def)
  have "unat (of_nat (sz - 1) :: u16) \<le> sz - 1" by (simp add: unat_of_nat take_bit_nat_less_eq_self)
  then have "unat (of_nat (sz - 1) :: u16) < sz" using w by simp
  moreover have "p' = pic_reset (p\<lparr>pi_prog := map (rom_word be data) [0..<words] @ replicate (sz - words) 0x0FFF,
      pi_progMask := of_nat (sz - 1)\<rparr>)"
    using assms d unfolding words_def sz_def pic_loadRom_def Let_def by simp
  ultimately show ?thesis using w by (simp add: pic_reset_def pic_ok_def)
qed

lemma reset_ok: "pic_ok p \<Longrightarrow> pic_ok (pic_reset p)"
  by (simp add: pic_ok_def pic_reset_def)

lemma setRtcc_ok: "pic_ok p \<Longrightarrow> pic_ok (pic_setRtcc level p)"
  by (simp add: pic_setRtcc_def Let_def)

text \<open>What can happen to a chip once a firmware is loaded.  The environment may change at any time.\<close>

inductive pic_reachable :: "'e pic_ports \<Rightarrow> pic \<Rightarrow> bool" for ports :: "'e pic_ports" where
  rp_load: "pic_loadRom rom be p = (True, p') \<Longrightarrow> pic_reachable ports p'"
| rp_reset: "pic_reachable ports p \<Longrightarrow> pic_reachable ports (pic_reset p)"
| rp_rtcc: "pic_reachable ports p \<Longrightarrow> pic_reachable ports (pic_setRtcc level p)"
| rp_step: "pic_reachable ports p \<Longrightarrow> pic_reachable ports (fst (snd (pic_step ports (p, e))))"

lemma pic_reachable_ok: "pic_reachable ports p \<Longrightarrow> pic_ok p"
proof (induction rule: pic_reachable.induct)
  case (rp_load rom be p p')
  then show ?case by (rule loadRom_ok)
next
  case (rp_step p e)
  then show ?case using step_ok [of "(p, e)" ports] by simp
qed (simp_all add: reset_ok setRtcc_ok)

text \<open>C30: memory safety: for every firmware image the loader accepts and whatever the pins do, the
  next instruction fetch is inside the program memory, the program counter is a valid address, and
  every file register number an instruction can encode or the FSR can hold is inside the register
  file.\<close>

theorem pic_fetch_safe:
  assumes "pic_reachable ports p"
  shows "unat (pi_pc p AND pi_progMask p) < length (pi_prog p) \<and> unat (pi_pc p) < length (pi_prog p) \<and>
    (\<forall>f :: u8. unat (f AND 0x1F) < length (pi_ram p)) \<and> unat (pi_fsr p) < length (pi_ram p)"
proof -
  have ok: "pic_ok p" by (rule pic_reachable_ok [OF assms])
  have "unat (pi_pc p AND pi_progMask p) \<le> unat (pi_progMask p)" by (simp add: word_and_le1 flip: word_le_nat_alt)
  moreover have "unat (f AND 0x1F) < 32" for f :: u8 using and_1F_less [of f] by (simp add: word_less_nat_alt)
  ultimately show ?thesis using ok by (auto simp: pic_ok_def word_less_nat_alt)
qed

definition pic_no_ports :: "unit pic_ports" where
  "pic_no_ports = \<lparr>pp_readA = None, pp_readB = None, pp_writeA = None, pp_writeB = None\<rparr>"

lemma load_small:
  "pic_loadRom (Some [0x05, 0x0C, 0x00, 0x0A]) False pic_init =
    (True, pic_reset (pic_init\<lparr>pi_prog := [0xC05, 0xA00], pi_progMask := 1\<rparr>))"
proof -
  have "pow2_size 2 2 = 2" "pow2_size 2 1 = pow2_size 2 2" by (subst pow2_size.simps, simp)+
  then have "pow2_size (Suc (Suc 0)) (Suc 0) = 2" by (simp add: numeral_2_eq_2)
  moreover have "[0..<2] = [0, 1]" by (simp add: upt_rec)
  ultimately show ?thesis by (simp add: pic_loadRom_def rom_word_def Let_def)
qed

theorem pic_fetch_safe_witness:
  "unat (pi_pc (pic_reset (pic_init\<lparr>pi_prog := [0xC05, 0xA00], pi_progMask := 1\<rparr>))) < 2"
  using pic_fetch_safe [OF rp_load [OF load_small, of pic_no_ports]] by (simp add: pic_reset_def)


section \<open>Time\<close>

lemma writeReg_keeps [simp]:
  "pi_prog (fst (pic_writeReg ports f v s)) = pi_prog (fst s)" "pi_w (fst (pic_writeReg ports f v s)) = pi_w (fst s)"
  by (simp_all add: pic_writeReg_def pic_writeDirect_def Let_def)

lemma flag_keeps [simp]:
  "pi_prog (pic_flag m b p) = pi_prog p" "pi_w (pic_flag m b p) = pi_w p"
  "pi_prog (pic_setZ v p) = pi_prog p" "pi_prog (pic_skip p) = pi_prog p"
  "pi_prog (fst (pic_dest ports d f r s)) = pi_prog (fst s)"
  by (simp_all add: pic_flag_def pic_setZ_def pic_skip_def pic_dest_def)

lemma literal_prog: "pi_prog (snd (pic_literal op p)) = pi_prog p"
  unfolding pic_literal_def Let_def pic_pop_def pic_push_def case_prod_conv by (simp only: split: if_split) simp

lemma bitop_prog: "pi_prog (fst (snd (pic_bitop ports op s))) = pi_prog (fst s)"
  unfolding pic_bitop_def Let_def by (simp only: split: if_split) simp

lemma byteop_prog: "pi_prog (fst (snd (pic_byteop ports op s))) = pi_prog (fst s)"
  unfolding pic_byteop_def Let_def pic_unary_def pic_subwf_def pic_addwf_def pic_count_skip_def pic_rrf_def pic_rlf_def
  by (simp only: if_distrib [of snd] if_distrib [of fst] if_distrib [of pi_prog] fst_conv snd_conv flag_keeps
      writeReg_keeps if_cancel) simp

lemma exec_prog [simp]: "pi_prog (fst (snd (pic_exec ports op s))) = pi_prog (fst s)"
  by (simp add: pic_exec_def case_prod_beta literal_prog bitop_prog byteop_prog)

lemma step_prog: "pi_prog (fst (snd (pic_step ports s))) = pi_prog (fst s)"
  by (simp add: pic_step_def Let_def case_prod_beta)

lemma run_from_prog: "pi_prog (fst (snd (pic_run_from ports cycles spent s))) = pi_prog (fst s)"
proof (induction ports cycles spent s rule: pic_run_from.induct)
  case (1 ports cycles spent s)
  then show ?case
    by (cases "spent < cycles") (simp_all add: run_from_step run_from_stop step_prog)
qed

text \<open>C23: time is exact and divisible: \<^verbatim>\<open>run\<close> returns after executing whole instructions, the
  cycles it reports overshoot the request by at most two, and asking for the time in two portions,
  the second reduced by the overshoot of the first, executes exactly the same instructions.  This
  is what lets the owner step the chip one instruction at a time.\<close>

theorem pic_run_divisible:
  assumes "0 \<le> a" "0 \<le> b"
  shows "a + b \<le> fst (pic_run ports (a + b) s) \<and> fst (pic_run ports (a + b) s) \<le> a + b + 2 \<and>
    pic_run ports (a + b) s =
      (let (x, s1) = pic_run ports a s; (y, s2) = pic_run ports (a + b - x) s1 in (x + y, s2))"
proof (cases "pi_prog (fst s) = []")
  case True
  then show ?thesis by (simp add: pic_run_def Let_def)
next
  case False
  obtain x s1 where x: "pic_run_from ports a 0 s = (x, s1)" by (metis prod.collapse)
  have "pi_prog (fst s1) \<noteq> []" using run_from_prog [of ports a 0 s] False x by simp
  moreover have "pic_run_from ports (a + b) 0 s = pic_run_from ports (a + b - x + x) (0 + x) s1"
    using run_from_split [of a "a + b" ports 0 s] assms x by (simp add: Let_def)
  then have "pic_run_from ports (a + b) 0 s =
      (let r = pic_run_from ports (a + b - x) 0 s1 in (fst r + x, snd r))"
    by (simp only: run_from_shift)
  moreover have "a + b \<le> fst (pic_run_from ports (a + b) 0 s)" "fst (pic_run_from ports (a + b) 0 s) < a + b + 3"
    using run_from_bounds [of 0 "a + b" ports s] assms by simp_all
  ultimately show ?thesis using False x by (simp add: pic_run_def Let_def case_prod_beta add.commute)
qed

theorem pic_run_divisible_witness:
  "fst (pic_run pic_no_ports (1 + 2) (pic_reset (pic_init\<lparr>pi_prog := [0xC05, 0xA00], pi_progMask := 1\<rparr>), ())) \<le> 5"
  using conjunct1 [OF conjunct2 [OF pic_run_divisible
    [of 1 2 pic_no_ports "(pic_reset (pic_init\<lparr>pi_prog := [0xC05, 0xA00], pi_progMask := 1\<rparr>), ())"]]] by simp


section \<open>Arithmetic\<close>

lemma nibble: "unat ((x :: u8) AND 0x0F) = unat x mod 16"
  by (simp only: word_and_low_mask unsigned_take_bit_eq) (simp add: take_bit_eq_mod)

lemma unat_diff_u8: "unat ((x :: u8) - w) = (if unat w \<le> unat x then unat x - unat w else unat x + 256 - unat w)"
  by (simp add: unat_sub_if_size word_size)

lemma borrow_iff: "(x :: u8) < x - w \<longleftrightarrow> x < w"
  unfolding word_less_nat_alt unat_diff_u8 using unat_u8_less [of x] unat_u8_less [of w] by auto

lemma int_borrow:
  assumes "0 \<le> a" "a < (16::int)" "0 \<le> b" "b < 16"
  shows "a < (a - b) mod 16 \<longleftrightarrow> a < b"
proof (cases "a < b")
  case True
  then have "(a - b) mod 16 = a - b + 16" using mod_pos_pos_trivial [of "a - b + 16" 16] assms by simp
  then show ?thesis using True assms by simp
next
  case False
  then have "(a - b) mod 16 = a - b" using assms by (intro mod_pos_pos_trivial) simp_all
  then show ?thesis using False assms by simp
qed

lemma half_borrow_iff: "((x :: u8) AND 0x0F) < ((x - w) AND 0x0F) \<longleftrightarrow> unat x mod 16 < unat w mod 16"
proof -
  have "uint (x - w) mod 16 = (uint x - uint w) mod 256 mod 16" by (simp add: uint_word_ariths)
  also have "\<dots> = (uint x mod 16 - uint w mod 16) mod 16" by (simp add: mod_mod_cancel mod_diff_eq)
  finally have "int (unat x mod 16) < int (unat (x - w) mod 16) \<longleftrightarrow> int (unat x mod 16) < int (unat w mod 16)"
    using int_borrow [of "uint x mod 16" "uint w mod 16"] by (simp add: zmod_int)
  then show ?thesis unfolding word_less_nat_alt nibble of_nat_less_iff .
qed

lemma carry_iff: "(x :: u8) > x + w \<longleftrightarrow> 256 \<le> unat x + unat w"
proof -
  have "unat (x + w) = (if unat x + unat w < 256 then unat x + unat w else unat x + unat w - 256)"
    by (simp add: unat_plus_if_size word_size)
  then show ?thesis unfolding word_less_nat_alt using unat_u8_less [of x] unat_u8_less [of w] by auto
qed

lemma nat_carry:
  assumes "a < (16::nat)" "b < 16"
  shows "(a + b) mod 16 < a \<longleftrightarrow> 16 \<le> a + b"
proof (cases "16 \<le> a + b")
  case True
  then have "(a + b) mod 16 = a + b - 16" using assms by (simp add: le_mod_geq)
  then show ?thesis using True assms by simp
qed simp

lemma half_carry_iff: "((x :: u8) AND 0x0F) > ((x + w) AND 0x0F) \<longleftrightarrow> 16 \<le> unat x mod 16 + unat w mod 16"
proof -
  have "unat (x + w) mod 16 = (unat x + unat w) mod 256 mod 16"
    by (simp add: unat_word_ariths)
  also have "\<dots> = (unat x mod 16 + unat w mod 16) mod 16"
    by (simp add: mod_mod_cancel mod_add_eq)
  finally show ?thesis unfolding word_less_nat_alt nibble by (simp add: nat_carry)
qed

lemma status_flag [simp]:
  "pi_status (pic_flag m b p) = (if b then pi_status p OR m else pi_status p AND NOT m)"
  by (simp add: pic_flag_def)

lemma dest_w:
  "pi_w (fst (pic_dest ports d f r s)) = (if d then pi_w (fst s) else r)"
  by (simp add: pic_dest_def)

text \<open>C22: the status flags of addition and subtraction are exact for both destinations: carry,
  digit carry and zero are those of the true sum, and of the true difference with the borrow
  inverted.  For subtraction into W the code compares the operand with the register it has just
  overwritten; the flags are right all the same.\<close>

theorem pic_flags_exact:
  fixes d :: bool and s :: "pic \<times> 'e"
  shows "let x = unat (pic_readReg ports f s); w = unat (pi_w (fst s));
             a = pi_status (fst (pic_addwf ports d f s)); b = pi_status (fst (pic_subwf ports d f s))
         in bit a 0 = (256 \<le> x + w) \<and> bit a 1 = (16 \<le> x mod 16 + w mod 16) \<and> bit a 2 = ((x + w) mod 256 = 0) \<and>
            bit b 0 = (w \<le> x) \<and> bit b 1 = (w mod 16 \<le> x mod 16) \<and> bit b 2 = (x = w)"
proof -
  let ?x = "pic_readReg ports f s" and ?w = "pi_w (fst s)"
  have st: "bit (pi_status (pic_setZ r (pic_flag ST_DC h (pic_flag ST_C c p)))) 0 = c"
    "bit (pi_status (pic_setZ r (pic_flag ST_DC h (pic_flag ST_C c p)))) 1 = h"
    "bit (pi_status (pic_setZ r (pic_flag ST_DC h (pic_flag ST_C c p)))) 2 = (r = 0)" for r h c p
    by (simp_all add: pic_setZ_def bit_or_iff bit_and_iff bit_not_iff)
  have z: "?x + ?w = 0 \<longleftrightarrow> (unat ?x + unat ?w) mod 256 = 0"
    by (simp add: word_unat_eq_iff unat_word_ariths)
  have e: "?x - ?w = 0 \<longleftrightarrow> unat ?x = unat ?w" unfolding right_minus_eq by (rule word_unat_eq_iff)
  have sub: "(?x < (if d then ?w else ?x - ?w)) = (?x < ?w)" by (simp add: borrow_iff)
  have hsub: "((?x AND 0x0F) < ((if d then ?w else ?x - ?w) AND 0x0F)) = (unat ?x mod 16 < unat ?w mod 16)"
    by (cases d) (simp add: word_less_nat_alt nibble, simp add: half_borrow_iff)
  show ?thesis
    unfolding pic_addwf_def pic_subwf_def Let_def fst_conv flag_keeps dest_w st sub hsub carry_iff half_carry_iff z e
    by (auto simp: word_less_nat_alt)
qed

text \<open>Subroutines nest two deep: after two calls, with anything done to the program counter in
  between, the first return resumes behind the second call and the second return behind the first,
  each with its literal in W.\<close>

theorem pic_call_return:
  assumes "c1 AND 0x0F00 = 0x0900" "c2 AND 0x0F00 = 0x0900" "r1 AND 0x0F00 = 0x0800" "r2 AND 0x0F00 = 0x0800"
  shows "let p1 = (snd (pic_literal c1 p))\<lparr>pi_pc := x\<rparr>; p2 = (snd (pic_literal c2 p1))\<lparr>pi_pc := y\<rparr>;
      q1 = snd (pic_literal r1 p2); q2 = snd (pic_literal r2 (q1\<lparr>pi_pc := z\<rparr>))
    in pi_pc q1 = x AND pi_progMask p \<and> pi_w q1 = ucast (r1 AND 0xFF) \<and>
       pi_pc q2 = pi_pc p AND pi_progMask p \<and> pi_w q2 = ucast (r2 AND 0xFF)"
  using assms by (simp add: pic_literal_def pic_push_def pic_pop_def Let_def)

theorem pic_call_return_witness:
  "pi_pc (snd (pic_literal 0x8FF ((snd (pic_literal 0x801 ((snd (pic_literal 0x910
     ((snd (pic_literal 0x920 (pic_init\<lparr>pi_progMask := 0x1FF, pi_pc := 5\<rparr>)))\<lparr>pi_pc := 0x33\<rparr>)))\<lparr>pi_pc := 0x44\<rparr>)))\<lparr>pi_pc := 0x55\<rparr>))) = 5"
  using pic_call_return [where ?c1.0 = "0x920" and ?c2.0 = "0x910" and ?r1.0 = "0x801" and ?r2.0 = "0x8FF"
    and p = "pic_init\<lparr>pi_progMask := 0x1FF, pi_pc := 5\<rparr>" and x = "0x33" and y = "0x44" and z = "0x55"]
  by (simp add: Let_def)


section \<open>The environment\<close>

text \<open>The contract between the chip and its owner: a property of the environment that the port
  callbacks keep is kept by every instruction.\<close>

locale pic_owner =
  fixes ports :: "'e pic_ports" and P :: "'e \<Rightarrow> bool"
  assumes writeA_keeps: "pp_writeA ports = Some h \<Longrightarrow> P e \<Longrightarrow> P (h x e)"
    and writeB_keeps: "pp_writeB ports = Some h \<Longrightarrow> P e \<Longrightarrow> P (h x e)"
begin

lemma writeReg_env: "P (snd s) \<Longrightarrow> P (snd (pic_writeReg ports f v s))"
  by (simp add: pic_writeReg_def pic_writeDirect_def Let_def writeA_keeps writeB_keeps split: option.split)

lemma dest_env: "P (snd s) \<Longrightarrow> P (snd (pic_dest ports d f r s))"
  by (simp add: pic_dest_def writeReg_env)

lemma exec_env: "P (snd s) \<Longrightarrow> P (snd (snd (pic_exec ports op s)))"
  unfolding pic_exec_def pic_bitop_def pic_byteop_def Let_def pic_unary_def pic_subwf_def pic_addwf_def
    pic_count_skip_def pic_rrf_def pic_rlf_def case_prod_beta
  by (simp only: if_distrib [of snd] if_distrib [of P] snd_conv writeReg_env dest_env if_cancel simp_thms)

lemma step_env: "P (snd s) \<Longrightarrow> P (snd (snd (pic_step ports s)))"
  unfolding pic_step_def Let_def case_prod_beta snd_conv by (rule exec_env) simp

end

text \<open>Asking for one cycle executes one instruction.\<close>

lemma pic_run_1:
  "pi_prog (fst s) \<noteq> [] \<Longrightarrow> pic_run ports 1 s = pic_step ports s"
  "pi_prog (fst s) = [] \<Longrightarrow> pic_run ports 1 s = (1, s)"
  using step_cost [of ports s] by (simp_all add: pic_run_def run_from_step run_from_stop)

end
