(* ===== verification/Adb_Via.thy ===== *)
theory Adb_Via
  imports Via_6522 Adb_Line Pic_1654s
begin

text \<open>
  The ADB modem of the Macintosh II and SE, \<^verbatim>\<open>AdbVia.h\<close> and \<^verbatim>\<open>AdbVia.cpp\<close>.  It composes
  four components: on the firmware path the PIC1654S runs in step with the CPU clock, its ports
  wired to the VIA shift register and to the bit-serial line; on the fallback path a byte machine
  moves whole bytes between the VIA shift register and the command-level bus.

  The pointers \<^verbatim>\<open>via_\<close> and \<^verbatim>\<open>adb_\<close> are the fields \<open>av_via\<close> and \<open>av_adb\<close>, present once
  \<^verbatim>\<open>attach\<close> has run (\<open>av_attached\<close>).  The firmware search of \<^verbatim>\<open>FirmwareChoice.h\<close> reads host
  files; the image it finds, if any, is an argument of \<open>adb_via_attach\<close>.  The narrowing of the elapsed
  cycles and of the deadline to \<^verbatim>\<open>int\<close> is written out (\<open>i32\<close>); the accumulator is an \<^verbatim>\<open>int64_t\<close> that at
  real clock rates stays within three PIC cycles.
\<close>

datatype adb_state = NEW | EVEN | ODD | IDLE

definition adb_state_of :: "u8 \<Rightarrow> adb_state" where
  "adb_state_of n = (if n = 0 then NEW else if n = 1 then EVEN else if n = 2 then ODD else IDLE)"

abbreviation (input) "kByteDelay \<equiv> 2000 :: int"
abbreviation (input) "kPicHz \<equiv> 460800 :: int"
abbreviation (input) "kPicTick \<equiv> 34 :: int"

record adb_via =
  av_via :: via
  av_adb :: adb_bus
  av_attached :: bool
  av_state :: adb_state
  av_lastState :: adb_state
  av_cmd :: "u8 list"
  av_resp :: "u8 list"
  av_respPos :: nat
  av_irqPending :: bool
  av_expectingListen :: bool
  av_timer :: int
  av_lle :: bool
  av_pic :: pic
  av_line :: adb_line
  av_picAcc :: int
  av_lastPicClock :: int
  av_cpuHz :: int

definition adb_via_init :: "via \<Rightarrow> adb_bus \<Rightarrow> adb_via" where
  "adb_via_init v b = \<lparr>av_via = v, av_adb = b, av_attached = False, av_state = IDLE, av_lastState = IDLE, av_cmd = [],
     av_resp = [], av_respPos = 0, av_irqPending = False, av_expectingListen = False, av_timer = 0, av_lle = False,
     av_pic = pic_init, av_line = adb_line_init, av_picAcc = 0, av_lastPicClock = -1, av_cpuHz = 15667200\<rparr>"

definition adb_via_reset :: "adb_via \<Rightarrow> adb_via" where
  "adb_via_reset s =
     (let s = s\<lparr>av_state := IDLE, av_lastState := IDLE, av_cmd := [], av_resp := [], av_respPos := 0,
                av_irqPending := False, av_expectingListen := False, av_timer := 0\<rparr>
      in if av_lle s then s\<lparr>av_pic := pic_reset (av_pic s), av_line := adb_line_reset (av_line s), av_picAcc := 0\<rparr>
         else s)"

definition adb_via_attach :: "via \<Rightarrow> adb_bus \<Rightarrow> int \<Rightarrow> u8 list option \<Rightarrow> adb_via \<Rightarrow> adb_via" where
  "adb_via_attach v b cpuHz rom s =
     (let s = s\<lparr>av_via := v, av_adb := b, av_attached := True,
                av_cpuHz := (if 0 < cpuHz then cpuHz else 15667200)\<rparr>;
          s = adb_via_reset s;
          (ok, p) = pic_loadRom rom False (av_pic s);
          s = s\<lparr>av_lle := ok, av_pic := p\<rparr>
      in if av_lle s then s\<lparr>av_line := adb_line_reset (av_line s), av_picAcc := 0\<rparr> else s)"


section \<open>The transceiver ports\<close>

text \<open>What the port callbacks see and change: the VIA, the line and the interrupt request.\<close>

type_synonym pic_env = "via \<times> adb_line \<times> bool"

definition adb_readA :: "pic_env \<Rightarrow> u8" where
  "adb_readA e = (case e of (v, l, irq) \<Rightarrow>
     let pb = via_portB v OR NOT (via_ddrb v); st = drop_bit 4 pb AND 3
     in st OR (if adb_line_level l then 0x08 else 0))"

definition adb_writeA :: "u8 \<Rightarrow> pic_env \<Rightarrow> pic_env" where
  "adb_writeA x e = (case e of (v, l, irq) \<Rightarrow> (v, adb_line_setHostDrive (\<not> flag x 0x04) l, irq))"

definition adb_readB :: "pic_env \<Rightarrow> u8" where
  "adb_readB e = (case e of (v, l, irq) \<Rightarrow> 0xF7 OR (if via_extShiftCB2Out v then 0x08 else 0))"

definition adb_writeB :: "u8 \<Rightarrow> pic_env \<Rightarrow> pic_env" where
  "adb_writeB x e = (case e of (v, l, irq) \<Rightarrow> (via_extShiftCB1 (flag x 0x04) (flag x 0x08) v, l, \<not> flag x 0x10))"

definition adb_pic_ports :: "pic_env pic_ports" where
  "adb_pic_ports = \<lparr>pp_readA = Some adb_readA, pp_readB = Some adb_readB, pp_writeA = Some adb_writeA,
     pp_writeB = Some adb_writeB\<rparr>"

definition adb_applyIrqToVia :: "adb_via \<Rightarrow> adb_via" where
  "adb_applyIrqToVia s =
     (if \<not> av_attached s then s
      else let inp = via_portB (av_via s);
               inp = (if av_irqPending s then inp AND NOT 0x08 else inp OR 0x08)
           in s\<lparr>av_via := via_setInB ((via_portB (av_via s) AND NOT 0x08) OR (inp AND 0x08)) (av_via s)\<rparr>)"

text \<open>One turn of the co-stepping loop: one instruction, its time on the line, and the RTCC pin.\<close>

definition adb_lle_step :: "adb_via \<Rightarrow> adb_via" where
  "adb_lle_step s =
     (let (cost, p, v, l, irq) = pic_run adb_pic_ports 1 (av_pic s, av_via s, av_line s, av_irqPending s);
          l = adb_line_tick (cost * kPicTick) l
      in s\<lparr>av_pic := pic_setRtcc (adb_line_level l) p, av_via := v, av_line := l, av_irqPending := irq,
           av_picAcc := av_picAcc s - cost * av_cpuHz s\<rparr>)"

lemma pic_run_1_cost: "1 \<le> fst (pic_run ports 1 s) \<and> fst (pic_run ports 1 s) \<le> 3"
  using step_cost [of ports s] by (cases "pi_prog (fst s) = []") (simp_all add: pic_run_1)

lemma lle_step_acc:
  "av_cpuHz (adb_lle_step s) = av_cpuHz s"
  "0 < av_cpuHz s \<Longrightarrow> av_picAcc (adb_lle_step s) \<le> av_picAcc s - av_cpuHz s"
  "0 < av_cpuHz s \<Longrightarrow> av_picAcc s - 3 * av_cpuHz s \<le> av_picAcc (adb_lle_step s)"
  using pic_run_1_cost [of adb_pic_ports "(av_pic s, av_via s, av_line s, av_irqPending s)"]
  by (simp_all add: adb_lle_step_def case_prod_beta Let_def)

text \<open>The loop of \<^verbatim>\<open>tickLle\<close>.  It ends because each turn spends at least one PIC cycle; \<^verbatim>\<open>attach\<close>
  installs a positive clock.\<close>

function adb_lle_loop :: "adb_via \<Rightarrow> adb_via" where
  "adb_lle_loop s = (if av_cpuHz s \<le> av_picAcc s \<and> 0 < av_cpuHz s then adb_lle_loop (adb_lle_step s) else s)"
  by pat_completeness auto
termination
proof (relation "measure (\<lambda>s. nat (av_picAcc s))")
  fix s :: adb_via
  assume "av_cpuHz s \<le> av_picAcc s \<and> 0 < av_cpuHz s"
  then show "(adb_lle_step s, s) \<in> measure (\<lambda>s. nat (av_picAcc s))"
    using lle_step_acc(2) [of s] by simp
qed simp

declare adb_lle_loop.simps [simp del]

lemma lle_loop_go: "av_cpuHz s \<le> av_picAcc s \<Longrightarrow> 0 < av_cpuHz s \<Longrightarrow> adb_lle_loop s = adb_lle_loop (adb_lle_step s)"
  by (subst adb_lle_loop.simps) simp

lemma lle_loop_stop: "\<not> (av_cpuHz s \<le> av_picAcc s \<and> 0 < av_cpuHz s) \<Longrightarrow> adb_lle_loop s = s"
  by (subst adb_lle_loop.simps) auto

definition adb_tickLle :: "int \<Rightarrow> adb_via \<Rightarrow> adb_via" where
  "adb_tickLle cpuCycles s = adb_applyIrqToVia (adb_lle_loop (s\<lparr>av_picAcc := av_picAcc s + cpuCycles * kPicHz\<rparr>))"

definition adb_syncTo :: "int \<Rightarrow> adb_via \<Rightarrow> adb_via" where
  "adb_syncTo cpuClock s =
     (if \<not> av_lle s then s
      else if av_lastPicClock s < 0 then s\<lparr>av_lastPicClock := cpuClock\<rparr>
      else let delta = i64 (cpuClock - av_lastPicClock s)
           in if delta \<le> 0 then s else adb_tickLle (i32 delta) (s\<lparr>av_lastPicClock := cpuClock\<rparr>))"


section \<open>The byte machine\<close>

definition adb_onState :: "adb_state \<Rightarrow> adb_via \<Rightarrow> adb_via" where
  "adb_onState st s =
     (let s = s\<lparr>av_timer := 0\<rparr>
      in case st of
           NEW \<Rightarrow> s\<lparr>av_cmd := [], av_resp := [], av_respPos := 0, av_expectingListen := False,
                    av_irqPending := False, av_timer := kByteDelay\<rparr>
         | IDLE \<Rightarrow> s\<lparr>av_irqPending := False, av_expectingListen := False\<rparr>
         | _ \<Rightarrow> if av_expectingListen s then s\<lparr>av_timer := kByteDelay\<rparr>
                else if av_respPos s < length (av_resp s) then s\<lparr>av_timer := kByteDelay\<rparr>
                else if av_cmd s \<noteq> [] \<and> av_resp s = [] then s\<lparr>av_timer := kByteDelay\<rparr>
                else s)"

definition adb_sync :: "adb_via \<Rightarrow> adb_via" where
  "adb_sync s =
     (if \<not> av_attached s then s
      else if av_lle s then adb_applyIrqToVia s
      else let st = adb_state_of (drop_bit 4 (via_portB (av_via s)) AND 3);
               s = (if st \<noteq> av_state s then adb_onState st (s\<lparr>av_lastState := av_state s, av_state := st\<rparr>) else s)
           in adb_applyIrqToVia s)"

definition adb_takeHostByte :: "adb_via \<Rightarrow> adb_via" where
  "adb_takeHostByte s =
     (if \<not> av_attached s then s
      else
        let b = via_sr (av_via s); s = s\<lparr>av_via := via_raiseShift (av_via s)\<rparr>
        in if av_state s = NEW then
             let s = s\<lparr>av_cmd := [b]\<rparr>; op = drop_bit 2 b AND 3;
                 s = (if op = 2 then s\<lparr>av_expectingListen := True, av_resp := [], av_respPos := 0\<rparr>
                      else let (r, bus) = adb_bus_command b [] (av_adb s)
                           in s\<lparr>av_expectingListen := False, av_resp := r, av_adb := bus, av_respPos := 0\<rparr>)
             in s\<lparr>av_irqPending := True\<rparr>
           else if (av_state s = EVEN \<or> av_state s = ODD) \<and> av_expectingListen s then
             let s = s\<lparr>av_cmd := av_cmd s @ [b]\<rparr>;
                 s = (if 3 \<le> length (av_cmd s) then
                        let (r, bus) = adb_bus_command (av_cmd s ! 0) (tl (av_cmd s)) (av_adb s)
                        in s\<lparr>av_resp := r, av_adb := bus, av_respPos := 0, av_expectingListen := False\<rparr>
                      else s)
             in s\<lparr>av_irqPending := True\<rparr>
           else s)"

definition adb_pushDeviceByte :: "adb_via \<Rightarrow> adb_via" where
  "adb_pushDeviceByte s =
     (if \<not> av_attached s then s
      else let s = (if av_respPos s < length (av_resp s)
                    then s\<lparr>av_via := via_loadSR (av_resp s ! av_respPos s) (av_via s), av_respPos := av_respPos s + 1\<rparr>
                    else s\<lparr>av_via := via_loadSR 0xFF (av_via s)\<rparr>)
           in s\<lparr>av_irqPending := True\<rparr>)"

text \<open>What \<^verbatim>\<open>tick\<close> does when the byte timer has run out.  The flag says that it returns at once, to
  wait for the host to load the shift register.\<close>

definition adb_byte_due :: "adb_via \<Rightarrow> bool \<times> adb_via" where
  "adb_byte_due s =
     (let acrShift = drop_bit 2 (via_acr (av_via s)) AND 7; hostToPic = (4 \<le> acrShift);
          mid = (av_state s = EVEN \<or> av_state s = ODD)
      in if av_state s = NEW \<and> hostToPic then
           if \<not> via_srHostWritten (av_via s) then (True, s\<lparr>av_timer := kByteDelay\<rparr>) else (False, adb_takeHostByte s)
         else if mid \<and> av_expectingListen s \<and> hostToPic then
           if \<not> via_srHostWritten (av_via s) then (True, s\<lparr>av_timer := kByteDelay\<rparr>) else (False, adb_takeHostByte s)
         else if mid \<and> \<not> av_expectingListen s then (False, adb_pushDeviceByte s)
         else if av_state s = NEW \<and> \<not> hostToPic then
           (False, s\<lparr>av_via := via_raiseShift (av_via s), av_irqPending := True\<rparr>)
         else (False, s))"

definition adb_tick :: "int \<Rightarrow> adb_via \<Rightarrow> adb_via" where
  "adb_tick cpuCycles s =
     (if \<not> av_attached s then s
      else if av_lle s then s
      else
        let s = (if (av_state s = EVEN \<or> av_state s = ODD) \<and> av_timer s \<le> 0 then s\<lparr>av_timer := kByteDelay\<rparr> else s);
            (ret, s) =
              (if 0 < av_timer s then
                 let s = s\<lparr>av_timer := av_timer s - cpuCycles\<rparr>
                 in if av_timer s \<le> 0 then adb_byte_due (s\<lparr>av_timer := 0\<rparr>) else (False, s)
               else (False, s))
        in if ret then s
           else let s = (if av_state s = IDLE \<and> adb_bus_srqPending (av_adb s) then s\<lparr>av_irqPending := True\<rparr> else s)
                in adb_applyIrqToVia s)"

definition adb_cyclesToNextEvent :: "adb_via \<Rightarrow> int" where
  "adb_cyclesToNextEvent s =
     (if \<not> av_attached s then 0x7fffffff
      else if av_lle s then
        let need = i64 (av_cpuHz s - av_picAcc s)
        in if need \<le> 0 then 1 else i32 (max 1 (i64 (need + kPicHz - 1) sdiv kPicHz))
      else if 0 < av_timer s then av_timer s
      else 1)"

definition adb_via_keyEvent :: "u8 \<Rightarrow> bool \<Rightarrow> adb_via \<Rightarrow> adb_via" where
  "adb_via_keyEvent adbCode down s =
     (if av_lle s then s\<lparr>av_line := adb_line_keyEvent adbCode down (av_line s)\<rparr>
      else if av_attached s then s\<lparr>av_adb := adb_bus_keyEvent adbCode down (av_adb s)\<rparr> else s)"

definition adb_via_mouseMove :: "int \<Rightarrow> int \<Rightarrow> adb_via \<Rightarrow> adb_via" where
  "adb_via_mouseMove dx dy s =
     (if av_lle s then s\<lparr>av_line := adb_line_mouseMove dx dy (av_line s)\<rparr>
      else if av_attached s then s\<lparr>av_adb := adb_bus_mouseMove dx dy (av_adb s)\<rparr> else s)"

definition adb_via_mouseButton :: "bool \<Rightarrow> int \<Rightarrow> adb_via \<Rightarrow> adb_via" where
  "adb_via_mouseButton down button s =
     (if av_lle s then s\<lparr>av_line := adb_line_mouseButton down button (av_line s)\<rparr>
      else if av_attached s \<and> button = 0 then s\<lparr>av_adb := adb_bus_mouseButton down (av_adb s)\<rparr> else s)"


section \<open>The clock of the transceiver\<close>

lemma resetDevices_now: "al_now (adb_line_resetDevices l) = al_now l"
  by (simp add: adb_line_resetDevices_def)

lemma mouse_r0_now: "al_now (adb_line_talk_mouse_r0 l) = al_now l"
proof (cases "al_srqSwitch l")
  case True
  then show ?thesis by (simp add: adb_line_talk_mouse_r0_def Let_def)
next
  case False
  have "al_now (adb_mouse_reported l) = al_now l" by (simp add: adb_mouse_reported_def)
  then show ?thesis using False by (simp add: talk_mouse_r0_eq Let_def)
qed

lemma talk_now:
  "al_now (adb_line_talk_kbd_r0 l) = al_now l" "al_now (adb_line_talk_absent l) = al_now l"
  by (simp_all add: adb_line_talk_kbd_r0_def adb_line_talk_absent_def Let_def split: list.split)

lemma talk_reg_now: "al_now (adb_line_talk_mouse reg l) = al_now l" "al_now (adb_line_talk_kbd reg l) = al_now l"
  by (simp_all add: adb_line_talk_mouse_def adb_line_talk_kbd_def mouse_r0_now talk_now)

lemma listen_now: "al_now (adb_line_listen l) = al_now l"
  by (simp add: adb_line_listen_def adb_line_listen_mouse_r3_def adb_line_listen_kbd_r3_def Let_def)

lemma command_now: "al_now (adb_line_command l) = al_now l"
  unfolding adb_line_command_def Let_def
  by (simp add: if_distrib [of al_now] resetDevices_now talk_reg_now talk_now)

lemma adbTalk_now: "al_now (adb_line_adbTalk l) = al_now l"
  by (simp add: adb_line_adbTalk_def command_now listen_now)

lemma stop_now: "al_now (adb_line_stop l) = al_now l"
  by (simp add: adb_line_stop_def Let_def adbTalk_now adb_line_armTimer_def)

lemma receiveEdge_now: "al_now (adb_line_receiveEdge level d l) = al_now l"
  by (simp add: adb_line_receiveEdge_def Let_def stop_now adb_line_bit_def adb_line_resetDevices_def adb_line_resume_def)

lemma setHostDrive_now: "al_now (adb_line_setHostDrive high l) = al_now l"
  by (simp add: adb_line_setHostDrive_def Let_def receiveEdge_now)

lemma timerTick_now: "al_now (adb_line_timerTick l) = al_now l"
  by (simp add: adb_line_timerTick_def Let_def adb_line_armTimer_def)

lemma expire_now: "al_now (adb_line_expire l) = al_now l"
proof (induction l rule: adb_line_expire.induct)
  case (1 l)
  show ?case
    by (subst adb_line_expire.simps) (use 1 in \<open>simp add: Let_def timerTick_now\<close>)
qed

lemma line_tick_now: "al_now (adb_line_tick cyc l) = al_now l + cyc"
  by (simp add: adb_line_tick_def Let_def expire_now)

text \<open>The two facts about the line that the transceiver firmware cannot break: its clock only moves
  by ticks, and its invariant holds.\<close>

interpretation lle_time: pic_owner adb_pic_ports "\<lambda>e. al_now (fst (snd e)) = t" for t
  by unfold_locales (auto simp: adb_pic_ports_def adb_writeA_def adb_writeB_def setHostDrive_now)

interpretation lle_line: pic_owner adb_pic_ports "\<lambda>e. adb_line_core (fst (snd e)) \<and> adb_line_wire (fst (snd e))"
  by unfold_locales (auto simp: adb_pic_ports_def adb_writeA_def adb_writeB_def setHostDrive_ok)

lemma run_1_now: "al_now (fst (snd (snd (snd (pic_run adb_pic_ports 1 s))))) = al_now (fst (snd (snd s)))"
  using lle_time.step_env [of s "al_now (fst (snd (snd s)))"]
  by (cases "pi_prog (fst s) = []") (simp_all add: pic_run_1)

lemma lle_step_rate:
  "av_cpuHz s * (al_now (av_line (adb_lle_step s)) - al_now (av_line s)) = kPicTick * (av_picAcc s - av_picAcc (adb_lle_step s))"
  using run_1_now [of "(av_pic s, av_via s, av_line s, av_irqPending s)"]
  by (simp add: adb_lle_step_def case_prod_beta Let_def line_tick_now)

lemma lle_loop_rate:
  assumes "0 < av_cpuHz s" "-2 * av_cpuHz s \<le> av_picAcc s"
  shows "av_cpuHz (adb_lle_loop s) = av_cpuHz s \<and> av_picAcc (adb_lle_loop s) < av_cpuHz s \<and>
    -2 * av_cpuHz s \<le> av_picAcc (adb_lle_loop s) \<and>
    av_cpuHz s * (al_now (av_line (adb_lle_loop s)) - al_now (av_line s)) =
      kPicTick * (av_picAcc s - av_picAcc (adb_lle_loop s))"
  using assms
proof (induction s rule: adb_lle_loop.induct)
  case (1 s)
  show ?case
  proof (cases "av_cpuHz s \<le> av_picAcc s")
    case True
    define q where "q = adb_lle_step s"
    have q: "av_cpuHz q = av_cpuHz s" "-2 * av_cpuHz s \<le> av_picAcc q"
      using lle_step_acc [of s] True "1.prems" by (simp_all add: q_def)
    have "adb_lle_loop s = adb_lle_loop q" using True "1.prems" by (subst adb_lle_loop.simps) (simp add: q_def)
    moreover note "1.IH" [folded q_def] lle_step_rate [of s, folded q_def]
    ultimately show ?thesis using True "1.prems" q by (simp add: algebra_simps)
  next
    case False
    then have "adb_lle_loop s = s" by (subst adb_lle_loop.simps) simp
    then show ?thesis using False "1.prems" by simp
  qed
qed

lemma applyIrq_keeps [simp]:
  "av_cpuHz (adb_applyIrqToVia s) = av_cpuHz s" "av_picAcc (adb_applyIrqToVia s) = av_picAcc s"
  "av_line (adb_applyIrqToVia s) = av_line s" "av_pic (adb_applyIrqToVia s) = av_pic s"
  "av_attached (adb_applyIrqToVia s) = av_attached s" "av_lle (adb_applyIrqToVia s) = av_lle s"
  "av_state (adb_applyIrqToVia s) = av_state s" "av_timer (adb_applyIrqToVia s) = av_timer s"
  "av_irqPending (adb_applyIrqToVia s) = av_irqPending s" "av_resp (adb_applyIrqToVia s) = av_resp s"
  "av_respPos (adb_applyIrqToVia s) = av_respPos s" "av_expectingListen (adb_applyIrqToVia s) = av_expectingListen s"
  "av_adb (adb_applyIrqToVia s) = av_adb s" "av_cmd (adb_applyIrqToVia s) = av_cmd s"
  by (simp_all add: adb_applyIrqToVia_def Let_def)

text \<open>C14: the transceiver runs at its own rate on every machine: after any number of CPU cycles the
  time the line has seen, counted in PIC cycles of 34 units, is the CPU time converted at exactly
  460800 cycles per CPU second, up to the accumulator, and the accumulator never leaves a window
  of three PIC cycles.  No drift builds up, and the loop always ends.\<close>

theorem adb_lle_rate:
  assumes "0 < av_cpuHz s" "-2 * av_cpuHz s \<le> av_picAcc s" "0 \<le> n"
  shows "let s' = adb_tickLle n s
    in av_cpuHz s * (al_now (av_line s') - al_now (av_line s)) = kPicTick * (av_picAcc s + n * kPicHz - av_picAcc s') \<and>
       -2 * av_cpuHz s \<le> av_picAcc s' \<and> av_picAcc s' < av_cpuHz s"
  using lle_loop_rate [of "s\<lparr>av_picAcc := av_picAcc s + n * kPicHz\<rparr>"] assms
  by (simp add: adb_tickLle_def Let_def)

theorem adb_lle_rate_witness:
  "av_picAcc (adb_tickLle 34 (adb_via_init via_power_on adb_bus_init)) < 15667200"
  using adb_lle_rate [of "adb_via_init via_power_on adb_bus_init" 34] by (simp add: adb_via_init_def Let_def)

text \<open>C25: the deadline of the firmware path is exact: before it, CPU time only fills the accumulator
  and no instruction runs, and from it on at least one does.  The bound on the clock is where the
  deadline, an \<^verbatim>\<open>int\<close>, would no longer hold its value.\<close>

theorem adb_lle_deadline:
  assumes "av_attached s" "av_lle s" "0 < av_cpuHz s" "-2 * av_cpuHz s \<le> av_picAcc s" "av_picAcc s < av_cpuHz s" "0 \<le> n"
    and "av_cpuHz s \<le> 2 ^ 48"
  shows "if n < adb_cyclesToNextEvent s
    then adb_tickLle n s = adb_applyIrqToVia (s\<lparr>av_picAcc := av_picAcc s + n * kPicHz\<rparr>)
    else al_now (av_line s) < al_now (av_line (adb_tickLle n s))"
proof -
  define need where "need = av_cpuHz s - av_picAcc s"
  have need: "0 < need" "need \<le> 3 * 2 ^ 48" using assms(4,5,7) by (simp_all add: need_def)
  have ev: "adb_cyclesToNextEvent s = (need + kPicHz - 1) div kPicHz"
  proof -
    have "1 \<le> (need + kPicHz - 1) div kPicHz" using need by (simp add: int_le_div_iff)
    moreover have "(need + kPicHz - 1) div kPicHz < 2147483648"
      using need int_le_div_iff [of kPicHz 2147483648 "need + kPicHz - 1"] by simp
    ultimately show ?thesis
      using assms(1,2) need by (simp add: adb_cyclesToNextEvent_def need_def [symmetric] sdiv_nonneg)
  qed
  have "n + 1 \<le> (need + kPicHz - 1) div kPicHz \<longleftrightarrow> (n + 1) * kPicHz \<le> need + kPicHz - 1"
    by (rule int_le_div_iff) simp
  then have lt: "n < adb_cyclesToNextEvent s \<longleftrightarrow> av_picAcc s + n * kPicHz < av_cpuHz s"
    unfolding ev need_def by (simp add: algebra_simps) linarith
  show ?thesis
  proof (cases "n < adb_cyclesToNextEvent s")
    case True
    then show ?thesis using lt by (simp add: adb_tickLle_def adb_lle_loop.simps)
  next
    case False
    let ?q = "s\<lparr>av_picAcc := av_picAcc s + n * kPicHz\<rparr>"
    have r: "av_picAcc (adb_lle_loop ?q) < av_cpuHz s"
      "av_cpuHz s * (al_now (av_line (adb_lle_loop ?q)) - al_now (av_line s)) =
        kPicTick * (av_picAcc s + n * kPicHz - av_picAcc (adb_lle_loop ?q))"
      using lle_loop_rate [of ?q] assms(3,4,6) by simp_all
    then have "0 < av_cpuHz s * (al_now (av_line (adb_lle_loop ?q)) - al_now (av_line s))"
      using False lt unfolding r(2) by simp
    then have "0 < al_now (av_line (adb_lle_loop ?q)) - al_now (av_line s)" using assms(3) by (simp add: zero_less_mult_iff)
    then show ?thesis using False by (simp add: adb_tickLle_def)
  qed
qed

theorem adb_lle_deadline_witness:
  "let s = (adb_via_init via_power_on adb_bus_init)\<lparr>av_attached := True, av_lle := True\<rparr>
   in adb_tickLle 33 s = adb_applyIrqToVia (s\<lparr>av_picAcc := 33 * kPicHz\<rparr>)"
  using adb_lle_deadline [of "(adb_via_init via_power_on adb_bus_init)\<lparr>av_attached := True, av_lle := True\<rparr>" 33]
  by (simp add: adb_via_init_def adb_cyclesToNextEvent_def sdiv_nonneg)


section \<open>Invariant\<close>

text \<open>A run is \<open>paced\<close> when the platforms keep to real clocks: below 4.3 GHz, and with the transceiver
  synchronised at least every \<open>2 ^ 31\<close> CPU cycles (a minute at 33 MHz; they do so at every VIA access and
  every slice).  Then the \<^verbatim>\<open>int\<close> that \<^verbatim>\<open>syncTo\<close> narrows the elapsed cycles to holds them.\<close>

definition adb_via_ok :: "bool \<Rightarrow> adb_via \<Rightarrow> bool" where
  "adb_via_ok paced s \<longleftrightarrow> 0 < av_cpuHz s \<and> av_picAcc s < av_cpuHz s \<and>
     (paced \<longrightarrow> -2 * av_cpuHz s \<le> av_picAcc s \<and> av_cpuHz s \<le> 2 ^ 32) \<and>
     (\<not> av_lle s \<longrightarrow> av_picAcc s = 0) \<and> (av_lle s \<longrightarrow> pic_ok (av_pic s)) \<and>
     adb_line_core (av_line s) \<and> adb_line_wire (av_line s) \<and> av_respPos s \<le> length (av_resp s) \<and> av_timer s \<le> kByteDelay"

definition sync_paced :: "int \<Rightarrow> adb_via \<Rightarrow> bool" where
  "sync_paced clock s \<longleftrightarrow> av_lastPicClock s < 0 \<or>
     -(2 ^ 63) \<le> clock - av_lastPicClock s \<and> clock - av_lastPicClock s < 2 ^ 31"

inductive adb_via_run :: "bool \<Rightarrow> adb_via \<Rightarrow> bool" for paced where
  rv_init: "adb_via_run paced (adb_via_init v b)"
| rv_attach: "adb_via_run paced s \<Longrightarrow> (paced \<longrightarrow> hz \<le> 2 ^ 32) \<Longrightarrow> adb_via_run paced (adb_via_attach v b hz rom s)"
| rv_reset: "adb_via_run paced s \<Longrightarrow> adb_via_run paced (adb_via_reset s)"
| rv_cpu: "adb_via_run paced s \<Longrightarrow> adb_via_run paced (s\<lparr>av_via := v\<rparr>)"
| rv_sync: "adb_via_run paced s \<Longrightarrow> adb_via_run paced (adb_sync s)"
| rv_syncTo: "adb_via_run paced s \<Longrightarrow> (paced \<longrightarrow> sync_paced clock s) \<Longrightarrow> adb_via_run paced (adb_syncTo clock s)"
| rv_tick: "adb_via_run paced s \<Longrightarrow> 0 \<le> n \<Longrightarrow> adb_via_run paced (adb_tick n s)"
| rv_key: "adb_via_run paced s \<Longrightarrow> adb_via_run paced (adb_via_keyEvent c down s)"
| rv_move: "adb_via_run paced s \<Longrightarrow> adb_via_run paced (adb_via_mouseMove dx dy s)"
| rv_button: "adb_via_run paced s \<Longrightarrow> adb_via_run paced (adb_via_mouseButton down button s)"

text \<open>The states reached with no assumption on the clocks.\<close>

abbreviation adb_via_reachable :: "adb_via \<Rightarrow> bool" where
  "adb_via_reachable \<equiv> adb_via_run False"

lemma lle_step_ok:
  assumes "adb_line_core (av_line s)" "adb_line_wire (av_line s)" "pic_ok (av_pic s)"
  shows "adb_line_core (av_line (adb_lle_step s)) \<and> adb_line_wire (av_line (adb_lle_step s)) \<and> pic_ok (av_pic (adb_lle_step s))"
proof -
  let ?x = "(av_pic s, av_via s, av_line s, av_irqPending s)"
  let ?r = "pic_run adb_pic_ports 1 ?x"
  have c: "0 \<le> fst ?r * kPicTick" "fst ?r * kPicTick \<le> 2 ^ 30" using pic_run_1_cost [of adb_pic_ports ?x] by simp_all
  have "pi_prog (av_pic s) \<noteq> []" using assms(3) by (auto simp: pic_ok_def)
  then have r: "?r = pic_step adb_pic_ports ?x" by (simp add: pic_run_1)
  have "adb_line_core (fst (snd (snd (snd ?r)))) \<and> adb_line_wire (fst (snd (snd (snd ?r))))"
    unfolding r using lle_line.step_env [of ?x] assms(1,2) by simp
  moreover have "pic_ok (fst (snd ?r))" unfolding r using step_ok [of ?x adb_pic_ports] assms(3) by simp
  ultimately show ?thesis
    using tick_ok_line [OF _ _ c] by (simp add: adb_lle_step_def case_prod_beta Let_def setRtcc_ok)
qed

lemma lle_loop_ok:
  assumes "adb_line_core (av_line s)" "adb_line_wire (av_line s)" "pic_ok (av_pic s)"
  shows "adb_line_core (av_line (adb_lle_loop s)) \<and> adb_line_wire (av_line (adb_lle_loop s)) \<and> pic_ok (av_pic (adb_lle_loop s))"
  using assms
proof (induction s rule: adb_lle_loop.induct)
  case (1 s)
  then show ?case
    using lle_step_ok [of s] by (cases "av_cpuHz s \<le> av_picAcc s \<and> 0 < av_cpuHz s") (simp_all add: lle_loop_go lle_loop_stop)
qed

lemma lle_loop_keeps:
  "av_lle (adb_lle_loop s) = av_lle s \<and> av_resp (adb_lle_loop s) = av_resp s \<and> av_respPos (adb_lle_loop s) = av_respPos s \<and>
    av_timer (adb_lle_loop s) = av_timer s"
proof (induction s rule: adb_lle_loop.induct)
  case (1 s)
  have "av_lle (adb_lle_step s) = av_lle s" "av_resp (adb_lle_step s) = av_resp s" "av_respPos (adb_lle_step s) = av_respPos s"
    "av_timer (adb_lle_step s) = av_timer s"
    by (simp_all add: adb_lle_step_def case_prod_beta Let_def)
  then show ?case using 1
    by (cases "av_cpuHz s \<le> av_picAcc s \<and> 0 < av_cpuHz s") (simp_all add: lle_loop_go lle_loop_stop)
qed

lemma lle_loop_below: "0 < av_cpuHz s \<Longrightarrow> av_cpuHz (adb_lle_loop s) = av_cpuHz s \<and> av_picAcc (adb_lle_loop s) < av_cpuHz s"
proof (induction s rule: adb_lle_loop.induct)
  case (1 s)
  then show ?case
    using lle_step_acc(1) [of s]
    by (cases "av_cpuHz s \<le> av_picAcc s \<and> 0 < av_cpuHz s") (simp_all add: lle_loop_go lle_loop_stop)
qed

lemma tickLle_ok:
  assumes "adb_via_ok paced s" "av_lle s" "paced \<longrightarrow> 0 \<le> n"
  shows "adb_via_ok paced (adb_tickLle n s)"
proof -
  let ?q = "s\<lparr>av_picAcc := av_picAcc s + n * kPicHz\<rparr>"
  have "av_cpuHz (adb_lle_loop ?q) = av_cpuHz s" "av_picAcc (adb_lle_loop ?q) < av_cpuHz s"
    using lle_loop_below [of ?q] assms(1) by (simp_all add: adb_via_ok_def)
  moreover have "-2 * av_cpuHz s \<le> av_picAcc (adb_lle_loop ?q)" if paced
    using lle_loop_rate [of ?q] assms(1,3) that by (simp add: adb_via_ok_def)
  moreover have "adb_line_core (av_line (adb_lle_loop ?q)) \<and> adb_line_wire (av_line (adb_lle_loop ?q)) \<and>
      pic_ok (av_pic (adb_lle_loop ?q))"
    using assms by (intro lle_loop_ok) (simp_all add: adb_via_ok_def)
  ultimately show ?thesis
    using assms lle_loop_keeps [of ?q] by (simp add: adb_via_ok_def adb_tickLle_def)
qed

lemma syncTo_ok:
  assumes "adb_via_ok paced s" "paced \<longrightarrow> sync_paced clock s"
  shows "adb_via_ok paced (adb_syncTo clock s)"
proof -
  let ?d = "i64 (clock - av_lastPicClock s)"
  have "0 \<le> i32 ?d" if "paced" "\<not> av_lastPicClock s < 0" "0 < ?d"
    using assms(2) that by (simp add: sync_paced_def)
  then show ?thesis
    using assms(1) tickLle_ok [of paced "s\<lparr>av_lastPicClock := clock\<rparr>" "i32 ?d"]
    by (auto simp: adb_syncTo_def Let_def adb_via_ok_def)
qed

lemma ok_updates [simp]:
  "adb_via_ok paced (s\<lparr>av_via := v\<rparr>) = adb_via_ok paced s"
  "adb_via_ok paced (s\<lparr>av_adb := b\<rparr>) = adb_via_ok paced s"
  "adb_via_ok paced (s\<lparr>av_attached := t\<rparr>) = adb_via_ok paced s"
  "adb_via_ok paced (s\<lparr>av_irqPending := t\<rparr>) = adb_via_ok paced s"
  "adb_via_ok paced (s\<lparr>av_expectingListen := t\<rparr>) = adb_via_ok paced s"
  "adb_via_ok paced (s\<lparr>av_state := st\<rparr>) = adb_via_ok paced s"
  "adb_via_ok paced (s\<lparr>av_lastState := st\<rparr>) = adb_via_ok paced s"
  "adb_via_ok paced (s\<lparr>av_cmd := bs\<rparr>) = adb_via_ok paced s"
  "adb_via_ok paced (s\<lparr>av_lastPicClock := i\<rparr>) = adb_via_ok paced s"
  "adb_via_ok paced s \<Longrightarrow> i \<le> kByteDelay \<Longrightarrow> adb_via_ok paced (s\<lparr>av_timer := i\<rparr>)"
  "adb_via_ok paced s \<Longrightarrow> adb_via_ok paced (s\<lparr>av_resp := bs, av_respPos := 0\<rparr>)"
  "adb_via_ok paced s \<Longrightarrow> adb_via_ok paced (s\<lparr>av_respPos := 0\<rparr>)"
  "adb_via_ok paced s \<Longrightarrow> adb_line_core l \<Longrightarrow> adb_line_wire l \<Longrightarrow> adb_via_ok paced (s\<lparr>av_line := l\<rparr>)"
  by (simp_all add: adb_via_ok_def)

lemma ok_resp: "adb_via_ok paced s \<Longrightarrow> adb_via_ok paced (s\<lparr>av_resp := bs, av_adb := b, av_respPos := 0\<rparr>)"
  by (simp add: adb_via_ok_def)

lemma applyIrq_ok [simp]: "adb_via_ok paced (adb_applyIrqToVia s) = adb_via_ok paced s"
  by (simp add: adb_applyIrqToVia_def Let_def)

lemma ok_line: "adb_via_ok paced s \<Longrightarrow> adb_line_core (av_line s) \<and> adb_line_wire (av_line s)"
  by (simp add: adb_via_ok_def)

lemma onState_ok: "adb_via_ok paced s \<Longrightarrow> adb_via_ok paced (adb_onState st s)"
  by (cases st) (simp_all add: adb_onState_def Let_def)

lemma sync_ok: "adb_via_ok paced s \<Longrightarrow> adb_via_ok paced (adb_sync s)"
  by (simp add: adb_sync_def Let_def onState_ok)

lemma takeHostByte_ok: "adb_via_ok paced s \<Longrightarrow> adb_via_ok paced (adb_takeHostByte s)"
  by (simp add: adb_takeHostByte_def Let_def case_prod_beta adb_via_ok_def)

lemma pushDeviceByte_ok: "adb_via_ok paced s \<Longrightarrow> adb_via_ok paced (adb_pushDeviceByte s)"
  by (simp add: adb_pushDeviceByte_def Let_def adb_via_ok_def)

lemma byte_due_ok: "adb_via_ok paced s \<Longrightarrow> adb_via_ok paced (snd (adb_byte_due s))"
  by (simp add: adb_byte_due_def Let_def takeHostByte_ok pushDeviceByte_ok)

lemma tick_via_ok:
  assumes "adb_via_ok paced s" "0 \<le> n"
  shows "adb_via_ok paced (adb_tick n s)"
proof -
  have t: "av_timer s \<le> kByteDelay" using assms(1) by (simp add: adb_via_ok_def)
  then have "adb_via_ok paced (s\<lparr>av_timer := kByteDelay - n\<rparr>)" "adb_via_ok paced (s\<lparr>av_timer := av_timer s - n\<rparr>)"
    using assms by simp_all
  then show ?thesis
    using assms(1) byte_due_ok [of paced "s\<lparr>av_timer := 0\<rparr>"] by (simp add: adb_tick_def Let_def case_prod_beta)
qed

lemma reset_via_ok: "adb_via_ok paced s \<Longrightarrow> adb_via_ok paced (adb_via_reset s)"
  using host_event_ok(3) [of "av_line s"]
  by (simp add: adb_via_reset_def Let_def adb_via_ok_def reset_ok)

lemma attach_ok:
  assumes "adb_via_ok paced s" "paced \<longrightarrow> hz \<le> 2 ^ 32"
  shows "adb_via_ok paced (adb_via_attach v b hz rom s)"
proof -
  define q where "q = adb_via_reset (s\<lparr>av_via := v, av_adb := b, av_attached := True,
    av_cpuHz := (if 0 < hz then hz else 15667200)\<rparr>)"
  have q: "0 < av_cpuHz q" "paced \<longrightarrow> av_cpuHz q \<le> 2 ^ 32" "av_picAcc q = 0" "av_respPos q = 0" "av_timer q = 0" "adb_line_core (av_line q)" "adb_line_wire (av_line q)"
    using assms host_event_ok(3) [of "av_line s"] by (simp_all add: q_def adb_via_reset_def Let_def adb_via_ok_def)
  obtain r p where l: "pic_loadRom rom False (av_pic q) = (r, p)" by (metis prod.collapse)
  have "adb_via_attach v b hz rom s =
      (if r then q\<lparr>av_lle := True, av_pic := p, av_line := adb_line_reset (av_line q), av_picAcc := 0\<rparr>
       else q\<lparr>av_lle := False, av_pic := p\<rparr>)"
    using l by (simp add: adb_via_attach_def Let_def q_def [symmetric])
  then show ?thesis
    using q loadRom_ok [of rom False "av_pic q" p] l host_event_ok(3) [OF q(6,7)] by (simp add: adb_via_ok_def)
qed

lemma adb_via_run_ok: "adb_via_run paced s \<Longrightarrow> adb_via_ok paced s"
proof (induction rule: adb_via_run.induct)
  case (rv_init v b)
  show ?case using adb_line_init_ok by (simp add: adb_via_ok_def adb_via_init_def)
next
  case (rv_syncTo s clock)
  then show ?case using syncTo_ok by blast
next
  case (rv_key s c down)
  then show ?case using ok_line keyEvent_ok by (simp add: adb_via_keyEvent_def)
next
  case (rv_move s dx dy)
  then show ?case using ok_line host_event_ok(1) by (simp add: adb_via_mouseMove_def)
next
  case (rv_button s down button)
  then show ?case using ok_line host_event_ok(2) by (simp add: adb_via_mouseButton_def)
qed (simp_all add: attach_ok reset_via_ok sync_ok tick_via_ok)

text \<open>C24: the composed transceiver keeps every part well-formed: whatever image is loaded, whatever
  the CPU writes to the VIA and however time and input events interleave, the firmware fetches
  inside its program, the line engine keeps its invariant, the clock accumulator ends every operation
  below one PIC cycle, and the byte machine reads its answer inside the buffer with a bounded timer.  In
  a paced run (real clock rates, and less than \<open>2 ^ 31\<close> CPU cycles between two synchronisations) the
  accumulator also never falls more than two PIC cycles behind.\<close>

theorem adb_via_well_formed:
  assumes "adb_via_run paced s"
  shows "0 < av_cpuHz s \<and> av_picAcc s < av_cpuHz s \<and>
    (paced \<longrightarrow> -2 * av_cpuHz s \<le> av_picAcc s \<and> av_cpuHz s \<le> 2 ^ 32) \<and>
    (av_lle s \<longrightarrow> unat (pi_pc (av_pic s) AND pi_progMask (av_pic s)) < length (pi_prog (av_pic s)) \<and>
       length (pi_ram (av_pic s)) = 32) \<and>
    length (al_buffer (av_line s)) = 8 \<and> al_streamPtr (av_line s) \<le> 8 \<and> al_linestate (av_line s) \<le> LST_SENDSTOPa \<and>
    av_respPos s \<le> length (av_resp s) \<and> av_timer s \<le> kByteDelay"
proof -
  have ok: "adb_via_ok paced s" by (rule adb_via_run_ok [OF assms])
  have m: "unat (pi_pc p AND pi_progMask p) \<le> unat (pi_progMask p)" for p by (simp add: word_and_le1 flip: word_le_nat_alt)
  have "unat (pi_pc p AND pi_progMask p) < length (pi_prog p) \<and> length (pi_ram p) = 32" if "pic_ok p" for p
    using le_less_trans [OF m [of p], of "length (pi_prog p)"] that unfolding pic_ok_def by blast
  then show ?thesis using ok by (simp add: adb_via_ok_def adb_line_core_def adb_line_wire_def)
qed

theorem adb_via_well_formed_witness:
  "let s = adb_syncTo 5000 (adb_syncTo 100 (adb_via_attach via_power_on adb_bus_init 7833600 (Some (replicate 1024 0))
     (adb_via_init via_power_on adb_bus_init)))
   in -2 * av_cpuHz s \<le> av_picAcc s \<and> av_picAcc s < av_cpuHz s \<and> av_timer s \<le> kByteDelay"
proof -
  let ?a = "adb_via_attach via_power_on adb_bus_init 7833600 (Some (replicate 1024 0)) (adb_via_init via_power_on adb_bus_init)"
  have a: "adb_via_run True ?a" by (intro adb_via_run.intros) simp
  have l: "av_lastPicClock ?a = -1" "av_lle ?a"
    by (simp_all add: adb_via_attach_def adb_via_init_def adb_via_reset_def pic_loadRom_def Let_def case_prod_beta)
  then have "av_lastPicClock (adb_syncTo 100 ?a) = 100" by (simp add: adb_syncTo_def)
  then have "adb_via_run True (adb_syncTo 5000 (adb_syncTo 100 ?a))"
    by (intro rv_syncTo [OF rv_syncTo [OF a]]) (simp_all add: sync_paced_def l(1))
  from adb_via_well_formed [OF this] show ?thesis by (simp add: Let_def)
qed


section \<open>The byte machine\<close>

lemma setInB_keeps: "via_sr (via_setInB x v) = via_sr v" "bit (via_ifr (via_setInB x v)) 2 = bit (via_ifr v) 2"
  by (simp_all add: via_setInB_def via_countPb6Pulse_def via_setIfr_def Let_def bit_or_iff)

lemma applyIrq_via:
  "via_sr (av_via (adb_applyIrqToVia s)) = via_sr (av_via s)"
  "bit (via_ifr (av_via (adb_applyIrqToVia s))) 2 = bit (via_ifr (av_via s)) 2"
  by (simp_all add: adb_applyIrqToVia_def Let_def setInB_keeps)

lemma raise_shift: "bit (via_ifr (via_raiseShift v)) 2" "bit (via_ifr (via_loadSR x v)) 2" "via_sr (via_loadSR x v) = x"
  by (simp_all add: via_raiseShift_def via_loadSR_def via_setIfr_def bit_or_iff)

definition adb_mid :: "adb_via \<Rightarrow> bool" where
  "adb_mid s \<longleftrightarrow> av_attached s \<and> \<not> av_lle s \<and> (av_state s = EVEN \<or> av_state s = ODD) \<and> \<not> av_expectingListen s"

lemma pushDeviceByte_keeps:
  "av_attached (adb_pushDeviceByte s) = av_attached s" "av_lle (adb_pushDeviceByte s) = av_lle s"
  "av_state (adb_pushDeviceByte s) = av_state s" "av_expectingListen (adb_pushDeviceByte s) = av_expectingListen s"
  "av_timer (adb_pushDeviceByte s) = av_timer s"
  "av_attached s \<Longrightarrow> bit (via_ifr (av_via (adb_pushDeviceByte s))) 2 \<and> av_irqPending (adb_pushDeviceByte s)"
  by (simp_all add: adb_pushDeviceByte_def Let_def raise_shift)

text \<open>One tick in the middle of a Talk: the timer runs down, or the next byte is presented.\<close>

lemma mid_tick:
  assumes "adb_mid s"
  defines "t \<equiv> (if av_timer s \<le> 0 then kByteDelay else av_timer s)"
  shows "adb_tick n s =
    (if t \<le> n then adb_applyIrqToVia (adb_pushDeviceByte (s\<lparr>av_timer := 0\<rparr>)) else adb_applyIrqToVia (s\<lparr>av_timer := t - n\<rparr>))"
proof -
  have "adb_byte_due (s\<lparr>av_timer := 0\<rparr>) = (False, adb_pushDeviceByte (s\<lparr>av_timer := 0\<rparr>))"
    using assms(1) by (auto simp: adb_mid_def adb_byte_due_def Let_def)
  then show ?thesis
    using assms(1) by (auto simp: adb_tick_def Let_def t_def adb_mid_def pushDeviceByte_keeps)
qed

lemma mid_applyIrq: "adb_mid (adb_applyIrqToVia s) = adb_mid s"
  by (simp add: adb_mid_def)

lemma mid_live:
  assumes "adb_mid s" "\<forall>n\<in>set ns. 0 < n"
    "bit (via_ifr (av_via s)) 2 \<and> av_irqPending s \<or> (if av_timer s \<le> 0 then kByteDelay else av_timer s) \<le> sum_list ns"
  shows "bit (via_ifr (av_via (fold adb_tick ns s))) 2 \<and> av_irqPending (fold adb_tick ns s)"
  using assms
proof (induction ns arbitrary: s)
  case Nil
  then show ?case by (simp split: if_splits)
next
  case (Cons n ns)
  let ?t = "if av_timer s \<le> 0 then kByteDelay else av_timer s"
  have pos: "0 < n" "\<forall>m\<in>set ns. 0 < m" using Cons.prems(2) by simp_all
  show ?case
  proof (cases "?t \<le> n")
    case True
    let ?q = "adb_applyIrqToVia (adb_pushDeviceByte (s\<lparr>av_timer := 0\<rparr>))"
    have "adb_mid ?q" using Cons.prems(1) by (simp add: mid_applyIrq adb_mid_def pushDeviceByte_keeps)
    moreover have "bit (via_ifr (av_via ?q)) 2 \<and> av_irqPending ?q"
      using Cons.prems(1) pushDeviceByte_keeps(6) [of "s\<lparr>av_timer := 0\<rparr>"] by (simp add: applyIrq_via adb_mid_def)
    ultimately show ?thesis using Cons.IH [of ?q] pos mid_tick [OF Cons.prems(1), of n] True by simp
  next
    case False
    let ?q = "adb_applyIrqToVia (s\<lparr>av_timer := ?t - n\<rparr>)"
    have "adb_mid ?q" using Cons.prems(1) by (simp add: mid_applyIrq adb_mid_def)
    moreover have "bit (via_ifr (av_via ?q)) 2 \<and> av_irqPending ?q \<or>
        (if av_timer ?q \<le> 0 then kByteDelay else av_timer ?q) \<le> sum_list ns"
      using Cons.prems(3) False by (auto simp: applyIrq_via)
    ultimately show ?thesis using Cons.IH [of ?q] pos mid_tick [OF Cons.prems(1), of n] False by simp
  qed
qed

text \<open>C15: the fallback never leaves the ROM waiting: in the middle of a Talk, however the time is cut
  into ticks, within one byte time the shift interrupt is raised and the modem interrupt is
  asserted.\<close>

theorem adb_hle_live:
  assumes "adb_via_reachable s" "av_attached s" "\<not> av_lle s" "av_state s = EVEN \<or> av_state s = ODD"
    "\<not> av_expectingListen s" "\<forall>n\<in>set ns. 0 < n" "kByteDelay \<le> sum_list ns"
  shows "bit (via_ifr (av_via (fold adb_tick ns s))) 2 \<and> av_irqPending (fold adb_tick ns s)"
proof (rule mid_live [OF _ assms(6)])
  show "adb_mid s" using assms(2-5) by (simp add: adb_mid_def)
  have "av_timer s \<le> kByteDelay" using adb_via_run_ok [OF assms(1)] by (simp add: adb_via_ok_def)
  then show "bit (via_ifr (av_via s)) 2 \<and> av_irqPending s \<or>
      (if av_timer s \<le> 0 then kByteDelay else av_timer s) \<le> sum_list ns"
    using assms(7) by auto
qed

lemma sync_even_reachable:
  "adb_via_reachable (adb_sync ((adb_via_attach via_power_on adb_bus_init 7833600 None
     (adb_via_init via_power_on adb_bus_init))\<lparr>av_via := via_power_on\<lparr>via_inB := 0x10\<rparr>\<rparr>))"
  by (intro adb_via_run.intros) simp

theorem adb_hle_live_witness:
  "av_irqPending (fold adb_tick [900, 900, 900] (adb_sync ((adb_via_attach via_power_on adb_bus_init 7833600 None
     (adb_via_init via_power_on adb_bus_init))\<lparr>av_via := via_power_on\<lparr>via_inB := 0x10\<rparr>\<rparr>)))"
  by (rule conjunct2 [OF adb_hle_live [OF sync_even_reachable]])
    (simp_all add: adb_sync_def adb_via_attach_def adb_via_init_def adb_via_reset_def pic_loadRom_def via_portB_def
      via_power_on_def adb_state_of_def adb_onState_def flag_simps Let_def)

text \<open>The state the CPU selects on port B.\<close>

definition via_st :: "via \<Rightarrow> adb_state" where
  "via_st v = adb_state_of (drop_bit 4 (via_portB v) AND 3)"

text \<open>The modem in the middle of a two-byte answer, the byte at \<open>i\<close> next.\<close>

definition adb_answering :: "adb_state \<Rightarrow> u8 list \<Rightarrow> nat \<Rightarrow> adb_bus \<Rightarrow> adb_via \<Rightarrow> bool" where
  "adb_answering st r i b s \<longleftrightarrow> av_attached s \<and> \<not> av_lle s \<and> av_state s = st \<and> \<not> av_expectingListen s \<and>
     av_resp s = r \<and> av_respPos s = i \<and> av_adb s = b \<and> bit (via_ifr (av_via s)) 2 \<and> av_irqPending s"

lemma hle_command:
  assumes "av_attached s" "\<not> av_lle s" "av_state s = NEW" "0 < av_timer s" "av_timer s \<le> n"
    "4 \<le> drop_bit 2 (via_acr (av_via s)) AND 7" "via_srHostWritten (av_via s)" "drop_bit 2 (via_sr (av_via s)) AND 3 \<noteq> 2"
    "adb_bus_command (via_sr (av_via s)) [] (av_adb s) = (r, b)"
  shows "adb_answering NEW r 0 b (adb_tick n s)"
proof -
  let ?q = "s\<lparr>av_timer := 0\<rparr>"
  have "adb_byte_due ?q = (False, adb_takeHostByte ?q)" using assms by (simp add: adb_byte_due_def Let_def)
  moreover have "av_state (adb_takeHostByte ?q) = NEW"
    using assms by (simp add: adb_takeHostByte_def Let_def)
  ultimately have "adb_tick n s = adb_applyIrqToVia (adb_takeHostByte ?q)"
    using assms by (simp add: adb_tick_def Let_def)
  then show ?thesis
    using assms by (simp add: adb_answering_def applyIrq_via adb_takeHostByte_def Let_def raise_shift)
qed

lemma hle_byte:
  assumes "adb_answering st r i b s" "via_st v = st'" "st' \<noteq> st" "st' = EVEN \<or> st' = ODD" "i < length r" "kByteDelay \<le> n"
  shows "via_sr (av_via (adb_tick n (adb_sync (s\<lparr>av_via := v\<rparr>)))) = r ! i \<and>
    adb_answering st' r (Suc i) b (adb_tick n (adb_sync (s\<lparr>av_via := v\<rparr>)))"
proof -
  let ?s = "adb_sync (s\<lparr>av_via := v\<rparr>)"
  have q: "adb_mid ?s" "av_timer ?s = kByteDelay" "av_resp ?s = r" "av_respPos ?s = i" "av_adb ?s = b" "av_state ?s = st'"
    using assms by (auto simp: adb_sync_def Let_def adb_answering_def via_st_def adb_mid_def adb_onState_def)
  have "adb_tick n ?s = adb_applyIrqToVia (adb_pushDeviceByte (?s\<lparr>av_timer := 0\<rparr>))"
    using mid_tick [OF q(1), of n] q(2) assms(6) by simp
  then show ?thesis
    using q assms(5) by (simp add: adb_answering_def applyIrq_via adb_pushDeviceByte_def Let_def raise_shift adb_mid_def)
qed

text \<open>C6: a Talk over the fallback, end to end through the VIA: the CPU loads the command into the
  shift register in state NEW, then steps the state lines to EVEN and ODD, each time leaving the
  modem a byte time; the bus executes the command once, and the two bytes of its answer appear in
  the shift register in order, each announced by the shift interrupt and the modem interrupt.\<close>

theorem adb_hle_talk:
  assumes "av_attached s" "\<not> av_lle s" "av_state s = NEW" "0 < av_timer s" "av_timer s \<le> n1"
    "4 \<le> drop_bit 2 (via_acr (av_via s)) AND 7" "via_srHostWritten (av_via s)" "drop_bit 2 (via_sr (av_via s)) AND 3 \<noteq> 2"
    "adb_bus_command (via_sr (av_via s)) [] (av_adb s) = ([r0, r1], b)"
    "via_st v2 = EVEN" "via_st v3 = ODD" "kByteDelay \<le> n2" "kByteDelay \<le> n3"
  shows "let s1 = adb_tick n1 s; s2 = adb_tick n2 (adb_sync (s1\<lparr>av_via := v2\<rparr>));
      s3 = adb_tick n3 (adb_sync (s2\<lparr>av_via := v3\<rparr>))
    in via_sr (av_via s2) = r0 \<and> via_sr (av_via s3) = r1 \<and> av_adb s3 = b \<and>
       (\<forall>q\<in>{s1, s2, s3}. bit (via_ifr (av_via q)) 2 \<and> av_irqPending q)"
proof -
  define s1 where "s1 = adb_tick n1 s"
  define s2 where "s2 = adb_tick n2 (adb_sync (s1\<lparr>av_via := v2\<rparr>))"
  define s3 where "s3 = adb_tick n3 (adb_sync (s2\<lparr>av_via := v3\<rparr>))"
  have 1: "adb_answering NEW [r0, r1] 0 b s1" unfolding s1_def by (rule hle_command [OF assms(1-9)])
  have 2: "via_sr (av_via s2) = r0" "adb_answering EVEN [r0, r1] 1 b s2"
    using hle_byte [OF 1 assms(10)] assms(12) by (simp_all add: s2_def)
  have 3: "via_sr (av_via s3) = r1" "adb_answering ODD [r0, r1] 2 b s3"
    using hle_byte [OF 2(2) assms(11)] assms(13) by (simp_all add: s3_def numeral_2_eq_2)
  show ?thesis unfolding Let_def s1_def [symmetric] s2_def [symmetric] s3_def [symmetric]
    using 1 2 3 by (simp add: adb_answering_def)
qed

theorem adb_hle_talk_witness:
  "let b = adb_bus_keyEvent 0x24 True adb_bus_init;
       v = via_power_on\<lparr>via_acr := 0x1C, via_sr := 0x2C, via_srHostWritten := True, via_inB := 0\<rparr>;
       s = (adb_via_init v b)\<lparr>av_attached := True, av_state := NEW, av_timer := kByteDelay\<rparr>;
       s1 = adb_tick 2000 s; s2 = adb_tick 2000 (adb_sync (s1\<lparr>av_via := via_power_on\<lparr>via_inB := 0x10\<rparr>\<rparr>))
   in via_sr (av_via s2) = 0x24"
proof -
  let ?b = "adb_bus_keyEvent 0x24 True adb_bus_init"
  let ?v = "via_power_on\<lparr>via_acr := 0x1C, via_sr := 0x2C, via_srHostWritten := True, via_inB := 0\<rparr>"
  let ?s = "(adb_via_init ?v ?b)\<lparr>av_attached := True, av_state := NEW, av_timer := kByteDelay\<rparr>"
  have c: "adb_bus_command 0x2C [] ?b = ([0x24, 0xFF], ?b\<lparr>ab_keyQueue := []\<rparr>)"
    by (simp add: adb_bus_command_def adb_bus_talk_kbd_def adb_bus_keyEvent_def adb_bus_init_def Let_def)
  have st: "via_st (via_power_on\<lparr>via_inB := 0x10\<rparr>) = EVEN" "via_st (via_power_on\<lparr>via_inB := 0x20\<rparr>) = ODD"
    by (simp_all add: via_st_def via_portB_def via_power_on_def adb_state_of_def flag_simps Let_def)
  from adb_hle_talk [where s = ?s and ?n1.0 = 2000 and ?n2.0 = 2000 and ?n3.0 = 2000, OF _ _ _ _ _ _ _ _ _ st] c
  show ?thesis by (simp add: adb_via_init_def via_power_on_def Let_def)
qed

end
