(* ===== verification/Disk_Timeline.thy ===== *)
theory Disk_Timeline
  imports Save_State
begin

text \<open>
  The history of a writable block medium (\<^verbatim>\<open>src/src/DiskTimeline.h\<close>,
  \<^verbatim>\<open>src/src/DiskTimeline.cpp\<close>): the content digest, the copy-on-first-write log since the image
  was attached, the reverse journal beside the image, and the save and restore of a disk's part of
  a save state.

  The image is a list of bytes, a block its slice of \<^verbatim>\<open>blockSize_\<close> bytes.  A bit vector is
  the list of its 64-bit words, as in the code.  The journal file is the list of its bytes
  \<open>tl_file\<close>; \<open>tl_journal\<close> says whether the process holds it open.  What the host's file system
  answers is not known: the outcome of each journal write comes from \<open>tl_host\<close> (\<open>None\<close> for success,
  \<open>Some k\<close> for a write that failed with \<open>k\<close> bytes on disk, an empty list for success for good), and
  the outcomes of opening, trimming and compacting from a record \<open>host_files\<close>.

  What is shown: the log always reverts the image to the one attached and the incremental digest
  is the digest of the content; a restore that is accepted lands exactly on the digest the state
  names; a state saved in this process is always restored; an accepted journal rewinds the image to
  the content it had when the epoch was marked, and a torn tail is cut without losing a record.
\<close>

unbundle bit_operations_syntax

section \<open>Bytes, bits and the block hash\<close>

definition mix :: "u64 \<Rightarrow> u64" where
  "mix x =
     (let x = x XOR drop_bit 30 x; x = x * 0xbf58476d1ce4e5b9;
          x = x XOR drop_bit 27 x; x = x * 0x94d049bb133111eb
      in x XOR drop_bit 31 x)"

definition put32 :: "u32 \<Rightarrow> u8 list" where
  "put32 v = map (\<lambda>i. ucast (drop_bit (8 * i) v)) [0..<4]"

definition put64 :: "u64 \<Rightarrow> u8 list" where
  "put64 v = map (\<lambda>i. ucast (drop_bit (8 * i) v)) [0..<8]"

definition get32 :: "u8 list \<Rightarrow> u32" where
  "get32 p = foldl (\<lambda>v i. v OR push_bit (8 * i) (ucast (p ! i))) 0 [0..<4]"

definition get64 :: "u8 list \<Rightarrow> u64" where
  "get64 p = foldl (\<lambda>v i. v OR push_bit (8 * i) (ucast (p ! i))) 0 [0..<8]"

definition bits_test :: "u64 list \<Rightarrow> u32 \<Rightarrow> bool" where
  "bits_test bits i = bit (bits ! unat (drop_bit 6 i)) (unat (i AND 63))"

definition testSet :: "u64 list \<Rightarrow> u32 \<Rightarrow> bool \<times> u64 list" where
  "testSet bits i =
     (bits_test bits i,
      bits[unat (drop_bit 6 i) := bits ! unat (drop_bit 6 i) OR push_bit (unat (i AND 63)) 1])"

function (sequential) blockHash_from :: "nat \<Rightarrow> u8 list \<Rightarrow> u64 \<Rightarrow> u64" where
  "blockHash_from i p h =
     (if 8 \<le> length p then
        blockHash_from (i + 8) (drop 8 p) ((h XOR mix (get64 p + of_nat i)) * 0x9fb21c651e98df25)
      else foldl (\<lambda>h b. (h XOR ucast b) * 0x100000001b3) h p)"
  by pat_completeness auto

termination blockHash_from
  by (relation "measure (\<lambda>(i, p, h). length p)") auto

declare blockHash_from.simps [simp del]

definition blockHash :: "u32 \<Rightarrow> u8 list \<Rightarrow> u64" where
  "blockHash lba p = mix (blockHash_from 0 p (mix (0x9e3779b97f4a7c15 XOR ucast lba)))"


section \<open>The journal file\<close>

datatype jrec = JEpoch u64 | JBlock u32 "u8 list"

definition kMagic :: "u8 list" where
  "kMagic = map (\<lambda>c. of_nat (of_char c)) ''POMUNDO1''"

definition kHeader :: nat where
  "kHeader = 16"

fun jrec_bytes :: "jrec \<Rightarrow> u8 list" where
  "jrec_bytes (JEpoch d) = 0x45 # put64 d"
| "jrec_bytes (JBlock lba p) = 0x42 # put32 lba @ p"

definition journal_header :: "nat \<Rightarrow> nat \<Rightarrow> u8 list" where
  "journal_header bs blocks = kMagic @ put32 (of_nat bs) @ put32 (of_nat blocks)"

text \<open>The complete records from offset \<open>at\<close> on, each with its offset, and the end of the last one.\<close>

function (sequential) walk_from :: "nat \<Rightarrow> nat \<Rightarrow> nat \<Rightarrow> u8 list \<Rightarrow> (nat \<times> jrec) list \<times> nat" where
  "walk_from bs blocks at f =
     (case f of [] \<Rightarrow> ([], at)
      | tag # r \<Rightarrow>
          if tag = 0x45 then
            if length r < 8 then ([], at)
            else let (rs, e) = walk_from bs blocks (at + 9) (drop 8 r)
                 in ((at, JEpoch (get64 r)) # rs, e)
          else if tag = 0x42 then
            if length r < 4 then ([], at)
            else let lba = get32 r
                 in if blocks \<le> unat lba then ([], at)
                    else if length (drop 4 r) < bs then ([], at)
                    else let (rs, e) = walk_from bs blocks (at + (5 + bs)) (drop (4 + bs) r)
                         in ((at, JBlock lba (take bs (drop 4 r))) # rs, e)
          else ([], at))"
  by pat_completeness auto

termination walk_from
  by (relation "measure (\<lambda>(bs, blocks, at, f). length f)") auto

declare walk_from.simps [simp del]

definition walkJournal :: "nat \<Rightarrow> nat \<Rightarrow> u8 list \<Rightarrow> (nat \<times> jrec) list \<times> nat" where
  "walkJournal bs blocks f = walk_from bs blocks kHeader (drop kHeader f)"


section \<open>The timeline\<close>

record disk_timeline =
  tl_blockSize :: nat
  tl_blocks :: nat
  tl_digest :: u64
  tl_stale :: bool
  tl_dirtyBits :: "u64 list"
  tl_dirtyList :: "u32 list"
  tl_pristine :: "u8 list"
  tl_loadOrder :: "u32 list"
  tl_name :: string
  tl_journalPath :: string
  tl_journal :: bool
  tl_epochBits :: "u64 list"
  tl_journalCap :: nat
  tl_file :: "u8 list option"
  tl_host :: "nat option list"

definition kDefaultJournalCap :: nat where
  "kDefaultJournalCap = 256 * 2 ^ 20"

definition timeline_init :: disk_timeline where
  "timeline_init = \<lparr>tl_blockSize = 0, tl_blocks = 0, tl_digest = 0, tl_stale = False, tl_dirtyBits = [],
     tl_dirtyList = [], tl_pristine = [], tl_loadOrder = [], tl_name = [], tl_journalPath = [],
     tl_journal = False, tl_epochBits = [], tl_journalCap = kDefaultJournalCap, tl_file = None, tl_host = []\<rparr>"

definition tl_attached :: "disk_timeline \<Rightarrow> bool" where
  "tl_attached t \<longleftrightarrow> tl_blockSize t \<noteq> 0"

definition tl_detach :: "disk_timeline \<Rightarrow> disk_timeline" where
  "tl_detach t = t\<lparr>tl_journal := False, tl_journalPath := [], tl_blockSize := 0, tl_blocks := 0,
     tl_digest := 0, tl_stale := False, tl_dirtyBits := [], tl_dirtyList := [], tl_pristine := [],
     tl_epochBits := []\<rparr>"

definition imageTouched :: "disk_timeline \<Rightarrow> disk_timeline" where
  "imageTouched t = t\<lparr>tl_stale := True\<rparr>"

definition tl_setJournalCap :: "nat \<Rightarrow> disk_timeline \<Rightarrow> disk_timeline" where
  "tl_setJournalCap bytes t = t\<lparr>tl_journalCap := bytes\<rparr>"

definition digest_of :: "nat \<Rightarrow> nat \<Rightarrow> u8 list \<Rightarrow> u64" where
  "digest_of bs n img = foldl (\<lambda>d b. d XOR blockHash (of_nat b) (block_at bs b img)) 0 [0..<n]"

definition fullDigest :: "u8 list \<Rightarrow> disk_timeline \<Rightarrow> u64" where
  "fullDigest img t = digest_of (tl_blockSize t) (tl_blocks t) img"

definition digest :: "u8 list \<Rightarrow> disk_timeline \<Rightarrow> u64 \<times> disk_timeline" where
  "digest img t =
     (let t = (if tl_stale t then t\<lparr>tl_digest := fullDigest img t, tl_stale := False\<rparr> else t)
      in (tl_digest t, t))"

definition dropJournal :: "disk_timeline \<Rightarrow> disk_timeline" where
  "dropJournal t = t\<lparr>tl_journal := False\<rparr>"

text \<open>Append a record and flush; the host may fail with part of it on disk.\<close>

definition journal_put :: "u8 list \<Rightarrow> disk_timeline \<Rightarrow> bool \<times> disk_timeline" where
  "journal_put bs t =
     (let f = (case tl_file t of None \<Rightarrow> [] | Some f \<Rightarrow> f)
      in case tl_host t of
           Some k # hs \<Rightarrow> (False, dropJournal (t\<lparr>tl_file := Some (f @ take k bs), tl_host := hs\<rparr>))
         | None # hs \<Rightarrow> (True, t\<lparr>tl_file := Some (f @ bs), tl_host := hs\<rparr>)
         | [] \<Rightarrow> (True, t\<lparr>tl_file := Some (f @ bs)\<rparr>))"

definition willWrite :: "u32 \<Rightarrow> u8 list \<Rightarrow> u8 list \<Rightarrow> disk_timeline \<Rightarrow> disk_timeline" where
  "willWrite lba cur next t =
     (if \<not> tl_attached t \<or> tl_blocks t \<le> unat lba then t
      else
        let (was, bits) = testSet (tl_dirtyBits t) lba;
            t = t\<lparr>tl_dirtyBits := bits\<rparr>;
            t = (if \<not> was then t\<lparr>tl_dirtyList := tl_dirtyList t @ [lba], tl_pristine := tl_pristine t @ cur\<rparr>
                 else t);
            t = (if tl_journal t then
                   let (was, bits) = testSet (tl_epochBits t) lba;
                       t = t\<lparr>tl_epochBits := bits\<rparr>
                   in if \<not> was then snd (journal_put (jrec_bytes (JBlock lba cur)) t) else t
                 else t)
        in if \<not> tl_stale t then t\<lparr>tl_digest := tl_digest t XOR (blockHash lba cur XOR blockHash lba next)\<rparr>
           else t)"

definition journalEpoch :: "u64 \<Rightarrow> disk_timeline \<Rightarrow> disk_timeline" where
  "journalEpoch d t =
     (if \<not> tl_journal t then t
      else let (wrote, t) = journal_put (jrec_bytes (JEpoch d)) t
           in if \<not> wrote then t else t\<lparr>tl_epochBits := map (\<lambda>_. 0) (tl_epochBits t)\<rparr>)"

text \<open>What the host answers when the journal is opened, trimmed and compacted.\<close>

record host_files =
  hf_open :: bool
  hf_create :: bool
  hf_resize :: bool
  hf_reopen :: bool
  hf_compact :: bool
  hf_reopen_compacted :: bool

definition journal_matches :: "disk_timeline \<Rightarrow> u8 list \<Rightarrow> bool" where
  "journal_matches t f \<longleftrightarrow> kHeader \<le> length f \<and> take 8 f = kMagic \<and>
     unat (get32 (drop 8 f)) = tl_blockSize t \<and> unat (get32 (drop 12 f)) = tl_blocks t"

definition compactJournal :: "host_files \<Rightarrow> u8 list \<Rightarrow> disk_timeline \<Rightarrow> disk_timeline" where
  "compactJournal h f t =
     (let (rs, e) = walkJournal (tl_blockSize t) (tl_blocks t) f;
          epochs = [at. (at, r) \<leftarrow> rs, case r of JEpoch _ \<Rightarrow> True | JBlock _ _ \<Rightarrow> False];
          cut = (case filter (\<lambda>at. e - at \<le> tl_journalCap t div 2) epochs of [] \<Rightarrow> e | at # _ \<Rightarrow> at);
          t = (if hf_compact h
               then t\<lparr>tl_file := Some (journal_header (tl_blockSize t) (tl_blocks t) @ take (e - cut) (drop cut f))\<rparr>
               else t)
      in t\<lparr>tl_journal := hf_reopen_compacted h\<rparr>)"

definition openJournal :: "host_files \<Rightarrow> disk_timeline \<Rightarrow> disk_timeline" where
  "openJournal h t =
     (let opened = (case tl_file t of Some f \<Rightarrow> hf_open h \<and> journal_matches t f | None \<Rightarrow> False)
      in if \<not> opened then
           if \<not> hf_create h then dropJournal t
           else snd (journal_put (journal_header (tl_blockSize t) (tl_blocks t))
                  (t\<lparr>tl_journal := True, tl_file := Some []\<rparr>))
         else
           let f = the (tl_file t);
               (rs, e) = walkJournal (tl_blockSize t) (tl_blocks t) f;
               t = t\<lparr>tl_journal := True\<rparr>;
               f' = (if e \<noteq> length f \<and> hf_resize h then take e f else f);
               t = t\<lparr>tl_file := Some f'\<rparr>
           in if e \<noteq> length f \<and> (\<not> hf_resize h \<or> \<not> hf_reopen h) then dropJournal t
              else if tl_journalCap t < e then compactJournal h f' t
              else t)"

text \<open>\<^verbatim>\<open>attach\<close>; \<open>file\<close> is what the host holds at the journal's path.\<close>

definition tl_attach :: "host_files \<Rightarrow> u8 list option \<Rightarrow> u8 list \<Rightarrow> nat \<Rightarrow> nat \<Rightarrow> string \<Rightarrow> string \<Rightarrow>
    disk_timeline \<Rightarrow> disk_timeline" where
  "tl_attach h file img sz bs path name t =
     (let t = tl_detach t
      in if bs = 0 then t
         else
           let blocks = (sz div bs) mod 2 ^ 32;
               t = t\<lparr>tl_name := name, tl_blockSize := bs, tl_blocks := blocks,
                     tl_dirtyBits := replicate ((blocks + 63) div 64) 0,
                     tl_epochBits := replicate ((blocks + 63) div 64) 0\<rparr>;
               t = t\<lparr>tl_digest := fullDigest img t, tl_stale := False, tl_journalPath := path, tl_file := file\<rparr>
           in if path \<noteq> [] then openJournal h t else t)"

text \<open>The first record of each block behind the epoch at offset \<open>epoch\<close>.\<close>

fun first_records :: "nat \<Rightarrow> u64 list \<Rightarrow> (nat \<times> jrec) list \<Rightarrow> (u32 \<times> u8 list) list" where
  "first_records epoch seen [] = []"
| "first_records epoch seen ((at, JEpoch d) # rs) = first_records epoch seen rs"
| "first_records epoch seen ((at, JBlock lba p) # rs) =
     (if epoch < at then
        let (was, seen) = testSet seen lba
        in if \<not> was then (lba, p) # first_records epoch seen rs else first_records epoch seen rs
      else first_records epoch seen rs)"

fun last_epoch :: "u64 \<Rightarrow> nat option \<Rightarrow> (nat \<times> jrec) list \<Rightarrow> nat option" where
  "last_epoch target e [] = e"
| "last_epoch target e ((at, JEpoch d) # rs) = last_epoch target (if d = target then Some at else e) rs"
| "last_epoch target e ((at, JBlock _ _) # rs) = last_epoch target e rs"

definition journalCandidate :: "u64 \<Rightarrow> disk_timeline \<Rightarrow> (u32 \<times> u8 list) list option" where
  "journalCandidate target t =
     (if tl_journalPath t = [] then None
      else case tl_file t of
        None \<Rightarrow> None
      | Some f \<Rightarrow>
          let rs = fst (walkJournal (tl_blockSize t) (tl_blocks t) f)
          in case last_epoch target None rs of
               None \<Rightarrow> None
             | Some epoch \<Rightarrow> Some (first_records epoch (replicate (length (tl_dirtyBits t)) 0) rs))"

definition digestAfter :: "u8 list \<Rightarrow> (u32 \<times> u8 list) list \<Rightarrow> disk_timeline \<Rightarrow> u64 \<times> disk_timeline" where
  "digestAfter img m t =
     (let (d, t) = digest img t
      in (foldl (\<lambda>d (lba, bytes). d XOR (blockHash lba (block_at (tl_blockSize t) (unat lba) img) XOR
                                          blockHash lba bytes)) d m, t))"


section \<open>Save and restore\<close>

definition timeline_save :: "u8 list \<Rightarrow> disk_timeline \<Rightarrow> u8 list \<times> disk_timeline" where
  "timeline_save img t =
     (let head = le_bytes 4 (tl_blockSize t) @ le_bytes 4 (tl_blocks t)
      in if \<not> tl_attached t then (head, t)
         else
           let body = concat (map (\<lambda>blk. le_bytes 4 (unat blk) @ block_at (tl_blockSize t) (unat blk) img)
                        (tl_dirtyList t));
               (d, t') = digest img t
           in (head @ write_varint (of_nat (length (tl_dirtyList t))) @ body @ le_bytes 8 (unat d),
               journalEpoch d t'))"

text \<open>The state's blocks: \<open>None\<close> where the code fails the reader and returns.\<close>

fun load_snap :: "nat \<Rightarrow> nat \<Rightarrow> nat \<Rightarrow> u64 list \<Rightarrow> (u32 \<times> u8 list) list \<Rightarrow> sav_reader \<Rightarrow>
    (u64 list \<times> (u32 \<times> u8 list) list) option \<times> sav_reader" where
  "load_snap bs blocks 0 seen snap r = (Some (seen, snap), r)"
| "load_snap bs blocks (Suc k) seen snap r =
     (let (i, r) = read_int 4 False r; lba = word_of_int i :: u32;
          (bytes, r) = read_bytes bs r
      in if \<not> rd_ok r \<or> blocks \<le> unat lba then (None, rd_fail r)
         else let (was, seen) = testSet seen lba
              in if was then (None, rd_fail r)
                 else load_snap bs blocks k seen (snap @ [(lba, bytes)]) r)"

definition log_entries :: "disk_timeline \<Rightarrow> (u32 \<times> u8 list) list" where
  "log_entries t = map (\<lambda>i. (tl_dirtyList t ! i, block_at (tl_blockSize t) i (tl_pristine t)))
     [0..<length (tl_dirtyList t)]"

definition timeline_plan :: "u8 list \<Rightarrow> u64 list \<Rightarrow> (u32 \<times> u8 list) list \<Rightarrow> u64 \<Rightarrow> disk_timeline \<Rightarrow>
    (u32 \<times> u8 list) list option \<times> disk_timeline" where
  "timeline_plan img seen snap target t =
     (let m = filter (\<lambda>(lba, _). \<not> bits_test seen lba) (log_entries t) @ snap;
          t = t\<lparr>tl_loadOrder := map fst snap\<rparr>;
          (d, t) = digestAfter img m t
      in if d = target then (Some m, t)
         else case journalCandidate target t of
             None \<Rightarrow> (None, t)
           | Some m \<Rightarrow> (if fst (digestAfter img m t) = target then (Some m, t) else (None, t)))"

definition timeline_load :: "u8 list \<Rightarrow> disk_timeline \<Rightarrow> sav_reader \<Rightarrow>
    (u32 \<times> u8 list) list \<times> disk_timeline \<times> sav_reader" where
  "timeline_load img t r =
     (let (bs, r) = read_int 4 False r; (n, r) = read_int 4 False r
      in if \<not> rd_ok r \<or> bs = 0 then ([], t, r)
         else if \<not> tl_attached t then
           ([], t, rd_fail_why ''the state has a disk where this machine has none'' r)
         else
           let who = ''disk '' @ tl_name t @ '': ''
           in if bs \<noteq> int (tl_blockSize t) \<or> n \<noteq> int (tl_blocks t) then
                ([], t, rd_fail_why (who @ ''the attached image has another size than the state's'') r)
              else
                let (count, r) = read_varint r
                in if \<not> rd_ok r \<or> tl_blocks t < unat count then ([], t, rd_fail r)
                   else case load_snap (nat bs) (tl_blocks t) (unat count)
                               (replicate (length (tl_dirtyBits t)) 0) [] r of
                       (None, r) \<Rightarrow> ([], t, r)
                     | (Some (seen, snap), r) \<Rightarrow>
                         let (target, r) = read_int 8 False r
                         in if \<not> rd_ok r then ([], t, r)
                            else case timeline_plan img seen snap (word_of_int target) t of
                                (None, t) \<Rightarrow> ([], t, rd_fail_why (who @
                                  (if tl_journalPath t = []
                                   then ''its content differs from the state's (the image changed after the state was saved)''
                                   else ''its content differs from the state's and its journal cannot rewind it ('' @
                                        tl_journalPath t @ '')'')) r)
                              | (Some m, t) \<Rightarrow>
                                  (filter (\<lambda>(lba, bytes). block_at (nat bs) (unat lba) img \<noteq> bytes) m, t, r))"

text \<open>The log after a restore: the state's own blocks first, then the blocks of the old log that
  still differ from the image as attached.\<close>

definition log_slot :: "disk_timeline \<Rightarrow> u32 \<Rightarrow> u8 list option" where
  "log_slot t lba = map_of (rev (log_entries t)) lba"

fun commit_old :: "u64 list \<Rightarrow> nat \<Rightarrow> u8 list \<Rightarrow> (u32 \<times> u8 list) list \<Rightarrow> (u32 \<times> u8 list) list \<times> u64 list" where
  "commit_old bits bs img [] = ([], bits)"
| "commit_old bits bs img ((lba, opened) # es) =
     (if bits_test bits lba then commit_old bits bs img es
      else if opened = block_at bs (unat lba) img then commit_old bits bs img es
      else let (rest, bits) = commit_old (snd (testSet bits lba)) bs img es in ((lba, opened) # rest, bits))"

definition commitLoad :: "u8 list \<Rightarrow> disk_timeline \<Rightarrow> disk_timeline" where
  "commitLoad img t =
     (if \<not> tl_attached t then t
      else
        let bs = tl_blockSize t;
            first = map (\<lambda>lba. (lba, case log_slot t lba of Some p \<Rightarrow> p | None \<Rightarrow> block_at bs (unat lba) img))
                      (tl_loadOrder t);
            bits = foldl (\<lambda>b lba. snd (testSet b lba)) (replicate (length (tl_dirtyBits t)) 0) (tl_loadOrder t);
            (rest, bits) = commit_old bits bs img (log_entries t);
            all = first @ rest
        in t\<lparr>tl_dirtyList := map fst all, tl_pristine := concat (map snd all), tl_dirtyBits := bits,
             tl_loadOrder := []\<rparr>)"


section \<open>Bit vectors and bytes\<close>

lemma bit_gather:
  "bit (foldl (\<lambda>v i. v OR push_bit (8 * i) (ucast (p ! i))) 0 [0..<w] :: 'a::len word) n \<longleftrightarrow>
     n < LENGTH('a) \<and> n div 8 < w \<and> bit (p ! (n div 8) :: u8) (n mod 8)"
proof (induction w)
  case (Suc w)
  have "8 * w \<le> n \<and> n - 8 * w < 8 \<longleftrightarrow> n div 8 = w" by auto
  moreover have "n - 8 * (n div 8) = n mod 8" by (simp add: minus_mult_div_eq_mod)
  moreover have "bit (p ! w) (n - 8 * w) \<Longrightarrow> n - 8 * w < 8"
    using bit_imp_le_length [of "p ! w" "n - 8 * w"] by simp
  ultimately show ?case
    using Suc.IH by (auto simp: bit_or_iff bit_push_bit_iff bit_ucast_iff less_Suc_eq)
qed simp

lemma bit_scatter: "n div 8 < w \<Longrightarrow>
    bit ((map (\<lambda>i. ucast (drop_bit (8 * i) v) :: u8) [0..<w] @ r) ! (n div 8)) (n mod 8) = bit v n"
  by (simp add: nth_append bit_ucast_iff bit_drop_bit_eq)

lemma get32_put32 [simp]: "get32 (put32 v @ r) = v"
  by (rule bit_word_eqI) (simp add: get32_def put32_def bit_gather bit_scatter div_less_iff_less_mult)

lemma get64_put64 [simp]: "get64 (put64 v @ r) = v"
  by (rule bit_word_eqI) (simp add: get64_def put64_def bit_gather bit_scatter div_less_iff_less_mult)

lemma length_put [simp]: "length (put32 v) = 4" "length (put64 d) = 8"
  by (simp_all add: put32_def put64_def)

lemma mask_63: "(i :: u32) AND 63 = take_bit 6 i"
  by (simp add: take_bit_eq_mask mask_eq_exp_minus_1)

lemma word_index: "unat (drop_bit 6 (i :: u32)) = unat i div 64" "unat ((i :: u32) AND 63) = unat i mod 64"
  by (simp_all add: unat_drop_bit_eq drop_bit_eq_div mask_63 take_bit_eq_mod unat_div unat_mod)

lemma unat_inj [simp]: "unat (a :: u32) = unat b \<longleftrightarrow> a = b"
  by (simp add: word_unat_eq_iff)

lemma bits_test_alt: "bits_test bits i = bit (bits ! (unat i div 64)) (unat i mod 64)"
  by (simp add: bits_test_def word_index)

definition bits_for :: "nat \<Rightarrow> u64 list \<Rightarrow> bool" where
  "bits_for n bits \<longleftrightarrow> length bits = (n + 63) div 64"

lemma bits_for_index: "bits_for n bits \<Longrightarrow> unat i < n \<Longrightarrow> unat i div 64 < length bits"
  unfolding bits_for_def by (simp add: less_mult_imp_div_less)

lemma testSet_was [simp]: "fst (testSet bits i) = bits_test bits i"
  by (simp add: testSet_def)

lemma testSet_bits_for [simp]: "bits_for n (snd (testSet bits i)) = bits_for n bits"
  by (simp add: testSet_def bits_for_def)

lemma div_mod_64_eq: "a div 64 = b div 64 \<Longrightarrow> a mod 64 = b mod 64 \<Longrightarrow> (a :: nat) = b"
  by (metis div_mod_decomp)

lemma bits_test_testSet:
  assumes "bits_for n bits" "unat i < n"
  shows "bits_test (snd (testSet bits i)) j \<longleftrightarrow> j = i \<or> bits_test bits j"
proof -
  have "unat i div 64 < length bits" using assms by (rule bits_for_index)
  then show ?thesis
    using div_mod_64_eq [of "unat j" "unat i"]
    by (auto simp: testSet_def bits_test_alt word_index nth_list_update bit_simps dest: word_unat_eq_iff [THEN iffD2])
qed

lemma bits_test_replicate [simp]: "unat i < n \<Longrightarrow> \<not> bits_test (replicate ((n + 63) div 64) 0) i"
  using bits_for_index [of n "replicate ((n + 63) div 64) 0" i] by (simp add: bits_test_alt bits_for_def)

lemma bits_for_replicate [simp]: "bits_for n (replicate ((n + 63) div 64) 0)"
  by (simp add: bits_for_def)


section \<open>The digest\<close>

lemma foldl_xor_update:
  assumes "k < n"
  shows "foldl (\<lambda>d b. d XOR (f(k := v)) b) a [0..<n] = foldl (\<lambda>d b. d XOR f b) a [0..<n] XOR (f k XOR (v :: u64))"
  using assms
proof (induction n)
  case (Suc n)
  show ?case
  proof (cases "k = n")
    case True
    have "foldl (\<lambda>d b. d XOR (f(k := v)) b) a [0..<n] = foldl (\<lambda>d b. d XOR f b) a [0..<n]"
      using True by (intro foldl_cong) auto
    then show ?thesis using True by (simp add: xor.assoc xor.left_commute)
  next
    case False
    then show ?thesis using Suc by (simp add: xor.assoc xor.commute xor.left_commute)
  qed
qed simp

lemma digest_of_cong:
  assumes "\<And>b. b < n \<Longrightarrow> block_at bs b x = block_at bs b y"
  shows "digest_of bs n x = digest_of bs n y"
  unfolding digest_of_def using assms by (intro foldl_cong) auto

lemma digest_of_overwrite:
  assumes "n < 2 ^ 32" "n * bs \<le> length img" "unat lba < n" "length d = bs"
  shows "digest_of bs n (overwrite (unat lba * bs) d img) =
    digest_of bs n img XOR (blockHash lba (block_at bs (unat lba) img) XOR blockHash lba d)"
proof -
  let ?f = "\<lambda>b. blockHash (of_nat b) (block_at bs b img)" and ?k = "unat lba"
  have "digest_of bs n (overwrite (?k * bs) d img) =
      foldl (\<lambda>a b. a XOR (?f(?k := blockHash lba d)) b) 0 [0..<n]"
    unfolding digest_of_def
  proof (intro foldl_cong refl)
    fix a b assume "b \<in> set [0..<n]"
    then show "a XOR blockHash (of_nat b) (block_at bs b (overwrite (?k * bs) d img)) =
        a XOR (?f(?k := blockHash lba d)) b"
      using assms block_fits [of b n bs "length img"] block_fits [of ?k n bs "length img"]
      by (simp add: block_overwrite)
  qed
  also have "\<dots> = digest_of bs n img XOR (?f ?k XOR blockHash lba d)"
    unfolding digest_of_def using assms(3) by (rule foldl_xor_update)
  finally show ?thesis by simp
qed


section \<open>The log\<close>

definition tl_sane :: "disk_timeline \<Rightarrow> bool" where
  "tl_sane t \<longleftrightarrow> tl_attached t \<and> tl_blocks t < 2 ^ 32 \<and>
     bits_for (tl_blocks t) (tl_dirtyBits t) \<and> bits_for (tl_blocks t) (tl_epochBits t) \<and>
     distinct (tl_dirtyList t) \<and> length (tl_pristine t) = length (tl_dirtyList t) * tl_blockSize t \<and>
     (\<forall>lba \<in> set (tl_dirtyList t). unat lba < tl_blocks t) \<and>
     (\<forall>lba. unat lba < tl_blocks t \<longrightarrow> bits_test (tl_dirtyBits t) lba = (lba \<in> set (tl_dirtyList t)))"

text \<open>\<open>img0\<close> is the image as attached, \<open>img\<close> the image now.\<close>

definition tl_inv :: "u8 list \<Rightarrow> u8 list \<Rightarrow> disk_timeline \<Rightarrow> bool" where
  "tl_inv img0 img t \<longleftrightarrow> tl_sane t \<and> tl_blocks t * tl_blockSize t \<le> length img \<and> length img = length img0 \<and>
     log_entries t = map (\<lambda>lba. (lba, block_at (tl_blockSize t) (unat lba) img0)) (tl_dirtyList t) \<and>
     (\<forall>lba. unat lba < tl_blocks t \<longrightarrow> lba \<notin> set (tl_dirtyList t) \<longrightarrow>
        block_at (tl_blockSize t) (unat lba) img = block_at (tl_blockSize t) (unat lba) img0) \<and>
     (tl_stale t \<or> tl_digest t = fullDigest img t)"

text \<open>A write by the owner of the image: the timeline is told first, then the block is replaced.\<close>

definition tl_write :: "u32 \<times> u8 list \<Rightarrow> u8 list \<times> disk_timeline \<Rightarrow> u8 list \<times> disk_timeline" where
  "tl_write w s =
     (let (lba, d) = w; (img, t) = s; bs = tl_blockSize t
      in (overwrite (unat lba * bs) d img, willWrite lba (block_at bs (unat lba) img) d t))"

definition tl_write_ok :: "disk_timeline \<Rightarrow> u32 \<times> u8 list \<Rightarrow> bool" where
  "tl_write_ok t w \<longleftrightarrow> unat (fst w) < tl_blocks t \<and> length (snd w) = tl_blockSize t"

lemma journal_put_frame [simp]:
  "tl_blockSize (snd (journal_put bs t)) = tl_blockSize t" "tl_blocks (snd (journal_put bs t)) = tl_blocks t"
  "tl_digest (snd (journal_put bs t)) = tl_digest t" "tl_stale (snd (journal_put bs t)) = tl_stale t"
  "tl_dirtyBits (snd (journal_put bs t)) = tl_dirtyBits t" "tl_dirtyList (snd (journal_put bs t)) = tl_dirtyList t"
  "tl_pristine (snd (journal_put bs t)) = tl_pristine t" "tl_loadOrder (snd (journal_put bs t)) = tl_loadOrder t"
  "tl_name (snd (journal_put bs t)) = tl_name t" "tl_journalPath (snd (journal_put bs t)) = tl_journalPath t"
  "tl_epochBits (snd (journal_put bs t)) = tl_epochBits t" "tl_journalCap (snd (journal_put bs t)) = tl_journalCap t"
  by (simp_all add: journal_put_def dropJournal_def Let_def split: list.splits option.splits)

lemma willWrite_frame [simp]:
  "tl_blockSize (willWrite lba cur nxt t) = tl_blockSize t" "tl_blocks (willWrite lba cur nxt t) = tl_blocks t"
  "tl_stale (willWrite lba cur nxt t) = tl_stale t" "tl_loadOrder (willWrite lba cur nxt t) = tl_loadOrder t"
  "tl_name (willWrite lba cur nxt t) = tl_name t" "tl_journalPath (willWrite lba cur nxt t) = tl_journalPath t"
  "tl_journalCap (willWrite lba cur nxt t) = tl_journalCap t"
  by (simp_all add: willWrite_def testSet_def Let_def)

lemma willWrite_log:
  assumes "tl_attached t" "unat lba < tl_blocks t"
  shows "tl_dirtyBits (willWrite lba cur nxt t) = snd (testSet (tl_dirtyBits t) lba)"
    "tl_dirtyList (willWrite lba cur nxt t) =
       tl_dirtyList t @ (if bits_test (tl_dirtyBits t) lba then [] else [lba])"
    "tl_pristine (willWrite lba cur nxt t) =
       tl_pristine t @ (if bits_test (tl_dirtyBits t) lba then [] else cur)"
    "tl_digest (willWrite lba cur nxt t) =
       (if tl_stale t then tl_digest t else tl_digest t XOR (blockHash lba cur XOR blockHash lba nxt))"
    "tl_epochBits (willWrite lba cur nxt t) =
       (if tl_journal t then snd (testSet (tl_epochBits t) lba) else tl_epochBits t)"
  using assms by (simp_all add: willWrite_def testSet_def Let_def)

lemma block_at_append:
  assumes "length p = n * bs"
  shows "i < n \<Longrightarrow> block_at bs i (p @ q) = block_at bs i p"
    "length q = bs \<Longrightarrow> block_at bs n (p @ q) = q"
  using block_fits [of i n bs "length p"] assms by (simp_all add: block_at_def)

lemma log_entries_frame:
  "tl_blockSize t' = tl_blockSize t \<Longrightarrow> tl_dirtyList t' = tl_dirtyList t \<Longrightarrow> tl_pristine t' = tl_pristine t \<Longrightarrow>
   log_entries t' = log_entries t"
  by (simp add: log_entries_def)

lemma log_entries_willWrite:
  assumes "tl_sane t" "unat lba < tl_blocks t" "length cur = tl_blockSize t"
  shows "log_entries (willWrite lba cur nxt t) =
    log_entries t @ (if bits_test (tl_dirtyBits t) lba then [] else [(lba, cur)])"
proof (cases "bits_test (tl_dirtyBits t) lba")
  case True
  then show ?thesis using assms by (simp add: tl_sane_def willWrite_log log_entries_def)
next
  case False
  then show ?thesis
    using assms block_at_append [of "tl_pristine t" "length (tl_dirtyList t)" "tl_blockSize t"]
    by (auto simp: tl_sane_def willWrite_log log_entries_def nth_append)
qed

lemma willWrite_sane:
  assumes "tl_sane t" "unat lba < tl_blocks t" "length cur = tl_blockSize t"
  shows "tl_sane (willWrite lba cur nxt t)"
  using assms bits_test_testSet [of "tl_blocks t" "tl_dirtyBits t" lba]
  by (auto simp: tl_sane_def willWrite_log tl_attached_def)

lemma tl_write_inv:
  assumes "tl_inv img0 img t" "tl_write_ok t w"
  shows "tl_inv img0 (fst (tl_write w (img, t))) (snd (tl_write w (img, t)))"
proof -
  obtain lba d where w: "w = (lba, d)" by force
  let ?bs = "tl_blockSize t" and ?n = "tl_blocks t"
  let ?cur = "block_at ?bs (unat lba) img"
  have s: "tl_sane t" "?n * ?bs \<le> length img" "unat lba < ?n" "length d = ?bs" "tl_attached t" "?n < 2 ^ 32"
    using assms by (auto simp: tl_inv_def tl_write_ok_def w tl_sane_def)
  have fit: "k < ?n \<Longrightarrow> k * ?bs + ?bs \<le> length img" for k using s(2) by (rule block_fits [rotated])
  then have cur: "length ?cur = ?bs" using s(3) by simp
  have mem: "bits_test (tl_dirtyBits t) lba = (lba \<in> set (tl_dirtyList t))" using s by (simp add: tl_sane_def)
  have "?cur = block_at ?bs (unat lba) img0" if "lba \<notin> set (tl_dirtyList t)"
    using assms(1) s(3) that by (simp add: tl_inv_def)
  moreover have "fullDigest (overwrite (unat lba * ?bs) d img) (willWrite lba ?cur d t) =
      fullDigest img t XOR (blockHash lba ?cur XOR blockHash lba d)"
    unfolding fullDigest_def using digest_of_overwrite [OF s(6,2,3,4)] by simp
  ultimately show ?thesis
    using assms(1) s cur mem fit willWrite_sane [OF s(1,3) cur] log_entries_willWrite [OF s(1,3) cur]
    by (auto simp: tl_inv_def tl_write_def w Let_def willWrite_log block_overwrite)
qed

lemma tl_writes_inv:
  assumes "tl_inv img0 img t" "list_all (tl_write_ok t) ws"
  shows "tl_inv img0 (fst (fold tl_write ws (img, t))) (snd (fold tl_write ws (img, t))) \<and>
    tl_blockSize (snd (fold tl_write ws (img, t))) = tl_blockSize t \<and>
    tl_blocks (snd (fold tl_write ws (img, t))) = tl_blocks t"
  using assms
proof (induction ws arbitrary: img t)
  case (Cons w ws)
  obtain img1 t1 where w: "tl_write w (img, t) = (img1, t1)" by force
  have "tl_blockSize t1 = tl_blockSize t" "tl_blocks t1 = tl_blocks t"
    using w by (auto simp: tl_write_def Let_def split: prod.splits)
  moreover from this have "tl_write_ok t1 = tl_write_ok t" by (intro ext) (simp add: tl_write_ok_def)
  ultimately show ?case
    using Cons.IH [of img1 t1] tl_write_inv [OF Cons.prems(1), of w] Cons.prems(2) w by simp
qed simp

text \<open>Writing the entries of a block map into an image.\<close>

definition apply_blocks :: "nat \<Rightarrow> (u32 \<times> u8 list) list \<Rightarrow> u8 list \<Rightarrow> u8 list" where
  "apply_blocks bs m img = fold (\<lambda>(lba, d). overwrite (unat lba * bs) d) m img"

definition blocks_ok :: "nat \<Rightarrow> nat \<Rightarrow> (u32 \<times> u8 list) list \<Rightarrow> bool" where
  "blocks_ok bs n m \<longleftrightarrow> distinct (map fst m) \<and> (\<forall>(lba, d) \<in> set m. unat lba < n \<and> length d = bs)"

lemma apply_blocks_snoc:
  "apply_blocks bs (m @ [(lba, d)]) img = overwrite (unat lba * bs) d (apply_blocks bs m img)"
  by (simp add: apply_blocks_def)

lemma blocks_ok_snoc:
  "blocks_ok bs n (m @ [(lba, d)]) \<longleftrightarrow> blocks_ok bs n m \<and> lba \<notin> fst ` set m \<and> unat lba < n \<and> length d = bs"
  by (auto simp: blocks_ok_def)

lemma length_apply_blocks [simp]:
  "n * bs \<le> length img \<Longrightarrow> blocks_ok bs n m \<Longrightarrow> length (apply_blocks bs m img) = length img"
proof (induction m rule: rev_induct)
  case (snoc e m)
  then show ?case
    using block_fits [of "unat (fst e)" n bs "length img"]
    by (cases e) (auto simp: apply_blocks_snoc blocks_ok_snoc)
qed (simp add: apply_blocks_def)

lemma block_apply_blocks:
  assumes "n * bs \<le> length img" "blocks_ok bs n m" "unat lba < n"
  shows "block_at bs (unat lba) (apply_blocks bs m img) =
    (case map_of m lba of Some d \<Rightarrow> d | None \<Rightarrow> block_at bs (unat lba) img)"
  using assms
proof (induction m rule: rev_induct)
  case (snoc e m)
  obtain a d where e: "e = (a, d)" by force
  have "length (apply_blocks bs m img) = length img" using snoc.prems by (simp add: blocks_ok_snoc e)
  moreover have "unat a * bs + bs \<le> length img" "unat lba * bs + bs \<le> length img"
    using snoc.prems block_fits [of "unat a" n bs] block_fits [of "unat lba" n bs]
    by (auto simp: blocks_ok_snoc e)
  moreover have "a = lba \<Longrightarrow> map_of m lba = None"
    using snoc.prems by (auto simp: blocks_ok_snoc e map_of_eq_None_iff)
  ultimately show ?case
    using snoc.prems snoc.IH
    by (auto simp: blocks_ok_snoc e apply_blocks_snoc block_overwrite map_add_def split: option.splits)
qed (simp add: apply_blocks_def)

lemma dropJournal_frame [simp]:
  "tl_blockSize (dropJournal t) = tl_blockSize t" "tl_blocks (dropJournal t) = tl_blocks t"
  "tl_digest (dropJournal t) = tl_digest t" "tl_stale (dropJournal t) = tl_stale t"
  "tl_dirtyBits (dropJournal t) = tl_dirtyBits t" "tl_dirtyList (dropJournal t) = tl_dirtyList t"
  "tl_pristine (dropJournal t) = tl_pristine t" "tl_epochBits (dropJournal t) = tl_epochBits t"
  by (simp_all add: dropJournal_def)

lemma compactJournal_frame [simp]:
  "tl_blockSize (compactJournal h f t) = tl_blockSize t" "tl_blocks (compactJournal h f t) = tl_blocks t"
  "tl_digest (compactJournal h f t) = tl_digest t" "tl_stale (compactJournal h f t) = tl_stale t"
  "tl_dirtyBits (compactJournal h f t) = tl_dirtyBits t" "tl_dirtyList (compactJournal h f t) = tl_dirtyList t"
  "tl_pristine (compactJournal h f t) = tl_pristine t" "tl_epochBits (compactJournal h f t) = tl_epochBits t"
  by (simp_all add: compactJournal_def Let_def split: prod.splits)

lemma openJournal_frame [simp]:
  "tl_blockSize (openJournal h t) = tl_blockSize t" "tl_blocks (openJournal h t) = tl_blocks t"
  "tl_digest (openJournal h t) = tl_digest t" "tl_stale (openJournal h t) = tl_stale t"
  "tl_dirtyBits (openJournal h t) = tl_dirtyBits t" "tl_dirtyList (openJournal h t) = tl_dirtyList t"
  "tl_pristine (openJournal h t) = tl_pristine t" "tl_epochBits (openJournal h t) = tl_epochBits t"
  by (simp_all add: openJournal_def Let_def split: prod.splits)

lemma tl_inv_frame:
  assumes "tl_inv img0 img t" "tl_blockSize t' = tl_blockSize t" "tl_blocks t' = tl_blocks t"
    "tl_dirtyBits t' = tl_dirtyBits t" "tl_dirtyList t' = tl_dirtyList t" "tl_pristine t' = tl_pristine t"
    "bits_for (tl_blocks t) (tl_epochBits t')"
    "tl_stale t' \<or> tl_digest t' = fullDigest img t"
  shows "tl_inv img0 img t'"
  using assms by (auto simp: tl_inv_def tl_sane_def tl_attached_def fullDigest_def log_entries_def)

lemma tl_attach_inv:
  assumes "bs \<noteq> 0" "sz \<le> length img"
  shows "tl_inv img img (tl_attach h file img sz bs path name t)"
    "tl_blockSize (tl_attach h file img sz bs path name t) = bs"
    "tl_blocks (tl_attach h file img sz bs path name t) = (sz div bs) mod 2 ^ 32"
proof -
  have "(sz div bs) mod 2 ^ 32 * bs \<le> sz div bs * bs" by (intro mult_le_mono1) (rule mod_less_eq_dividend)
  then have "(sz div bs) mod 2 ^ 32 * bs \<le> length img"
    using div_times_less_eq_dividend [of sz bs] assms(2) by linarith
  then show "tl_inv img img (tl_attach h file img sz bs path name t)"
    using assms
    by (simp add: tl_inv_def tl_sane_def tl_attach_def Let_def tl_detach_def tl_attached_def log_entries_def
        fullDigest_def)
  show "tl_blockSize (tl_attach h file img sz bs path name t) = bs"
    "tl_blocks (tl_attach h file img sz bs path name t) = (sz div bs) mod 2 ^ 32"
    using assms(1) by (simp_all add: tl_attach_def Let_def)
qed

lemma log_ok: "tl_inv img0 img t \<Longrightarrow> blocks_ok (tl_blockSize t) (tl_blocks t) (log_entries t)"
  using block_fits [of _ "tl_blocks t" "tl_blockSize t" "length img0"]
  by (auto simp: tl_inv_def tl_sane_def blocks_ok_def comp_def)

lemma map_of_log:
  "tl_inv img0 img t \<Longrightarrow> map_of (log_entries t) lba =
     (if lba \<in> set (tl_dirtyList t) then Some (block_at (tl_blockSize t) (unat lba) img0) else None)"
  by (simp add: tl_inv_def map_of_map_restrict restrict_map_def)

lemma log_reverts:
  fixes lba :: u32
  assumes "tl_inv img0 img t" "unat lba < tl_blocks t"
  shows "block_at (tl_blockSize t) (unat lba) (apply_blocks (tl_blockSize t) (log_entries t) img) =
    block_at (tl_blockSize t) (unat lba) img0"
proof -
  have "tl_blocks t * tl_blockSize t \<le> length img" using assms(1) by (simp add: tl_inv_def)
  from block_apply_blocks [OF this log_ok [OF assms(1)] assms(2)] show ?thesis
    using assms by (simp add: map_of_log) (simp add: tl_inv_def)
qed

lemma unat_of_nat_u32: "n < 2 ^ 32 \<Longrightarrow> unat (of_nat n :: u32) = n"
  by (simp add: unat_of_nat)

text \<open>Whatever blocks the guest writes after an image is attached, writing the log back gives
  the image as it was attached, block for block, and the digest, which each write only adjusts, is
  the digest of the whole content.\<close>

theorem timeline_log_exact:
  assumes "bs \<noteq> 0" "list_all (tl_write_ok (tl_attach h file img (length img) bs path name t)) ws"
    and "fold tl_write ws (img, tl_attach h file img (length img) bs path name t) = (img', t')"
  shows "(\<forall>b < (length img div bs) mod 2 ^ 32.
       block_at bs b (apply_blocks bs (log_entries t') img') = block_at bs b img) \<and>
     fst (digest img' t') = fullDigest img' t'"
proof (intro conjI allI impI)
  note a = tl_attach_inv [OF assms(1), of "length img" img]
  have i: "tl_inv img img' t'" "tl_blockSize t' = bs" "tl_blocks t' = (length img div bs) mod 2 ^ 32"
    using tl_writes_inv [OF a(1) assms(2)] assms(3) a(2,3) by simp_all
  show "fst (digest img' t') = fullDigest img' t'"
    using i(1) by (auto simp: digest_def tl_inv_def Let_def)
  fix b assume b: "b < (length img div bs) mod 2 ^ 32"
  then have u: "unat (of_nat b :: u32) = b" by (intro unat_of_nat_u32) simp
  show "block_at bs b (apply_blocks bs (log_entries t') img') = block_at bs b img"
    using log_reverts [OF i(1), of "of_nat b"] i(2,3) b by (simp add: u)
qed

definition demo_host :: host_files where
  "demo_host = \<lparr>hf_open = True, hf_create = True, hf_resize = True, hf_reopen = True, hf_compact = True,
     hf_reopen_compacted = True\<rparr>"

definition demo_disk :: disk_timeline where
  "demo_disk = tl_attach demo_host None [1, 2, 3, 4] (length [1, 2, 3, 4 :: u8]) 2 [] [] timeline_init"

lemma demo_disk_write_ok: "tl_write_ok demo_disk (1, [8, 9])"
  by (simp add: demo_disk_def tl_attach_def Let_def tl_write_ok_def)

theorem timeline_log_exact_witness:
  "block_at 2 1 (apply_blocks 2 (log_entries (snd (tl_write (1, [8, 9]) ([1, 2, 3, 4], demo_disk))))
     (fst (tl_write (1, [8, 9]) ([1, 2, 3, 4], demo_disk)))) = [3, 4]"
proof -
  let ?w = "tl_write (1, [8, 9]) ([1, 2, 3, 4], demo_disk)"
  have "(\<forall>b<(length [1, 2, 3, 4 :: u8] div 2) mod 2 ^ 32.
      block_at 2 b (apply_blocks 2 (log_entries (snd ?w)) (fst ?w)) = block_at 2 b [1, 2, 3, 4]) \<and>
    fst (digest (fst ?w) (snd ?w)) = fullDigest (fst ?w) (snd ?w)"
    by (rule timeline_log_exact [of 2 demo_host None "[1, 2, 3, 4]" "[]" "[]" timeline_init "[(1, [8, 9])]",
          folded demo_disk_def]) (simp_all add: demo_disk_write_ok)
  then have "block_at 2 1 (apply_blocks 2 (log_entries (snd ?w)) (fst ?w)) = block_at 2 1 [1, 2, 3, 4]" by simp
  then show ?thesis by (simp add: block_at_def)
qed


section \<open>Restoring\<close>

lemma digest_exact:
  assumes "tl_inv img0 img t" "digest img t = (d, t')"
  shows "d = fullDigest img t" "tl_inv img0 img t'" "tl_blockSize t' = tl_blockSize t" "tl_blocks t' = tl_blocks t"
    "tl_dirtyList t' = tl_dirtyList t" "log_entries t' = log_entries t" "tl_loadOrder t' = tl_loadOrder t"
    "tl_dirtyBits t' = tl_dirtyBits t" "tl_journalPath t' = tl_journalPath t" "tl_file t' = tl_file t"
    "tl_journal t' = tl_journal t" "tl_host t' = tl_host t" "tl_epochBits t' = tl_epochBits t"
    "tl_name t' = tl_name t"
proof -
  have t': "t' = (if tl_stale t then t\<lparr>tl_digest := fullDigest img t, tl_stale := False\<rparr> else t)"
    and d: "d = tl_digest t'"
    using assms(2) by (auto simp: digest_def Let_def)
  show f: "tl_blockSize t' = tl_blockSize t" "tl_blocks t' = tl_blocks t"
    "tl_dirtyList t' = tl_dirtyList t" "log_entries t' = log_entries t" "tl_loadOrder t' = tl_loadOrder t"
    "tl_dirtyBits t' = tl_dirtyBits t" "tl_journalPath t' = tl_journalPath t" "tl_file t' = tl_file t"
    "tl_journal t' = tl_journal t" "tl_host t' = tl_host t" "tl_epochBits t' = tl_epochBits t"
    "tl_name t' = tl_name t"
    by (simp_all add: t' log_entries_def)
  show dg: "d = fullDigest img t" using assms(1) by (auto simp: d t' tl_inv_def)
  have "tl_pristine t' = tl_pristine t" by (simp add: t')
  then show "tl_inv img0 img t'"
    using f dg d assms(1) by (intro tl_inv_frame [OF assms(1)]) (simp_all add: tl_inv_def tl_sane_def)
qed

lemma digest_of_apply:
  assumes "n < 2 ^ 32" "n * bs \<le> length img" "blocks_ok bs n m"
  shows "digest_of bs n (apply_blocks bs m img) =
    foldl (\<lambda>d (lba, bytes). d XOR (blockHash lba (block_at bs (unat lba) img) XOR blockHash lba bytes))
      (digest_of bs n img) m"
  using assms
proof (induction m rule: rev_induct)
  case (snoc e m)
  obtain lba d where e: "e = (lba, d)" by force
  have o: "blocks_ok bs n m" "unat lba < n" "length d = bs" "map_of m lba = None"
    using snoc.prems by (auto simp: blocks_ok_snoc e map_of_eq_None_iff)
  then show ?case
    using snoc.IH snoc.prems block_apply_blocks [OF snoc.prems(2) o(1,2)]
    by (simp add: e apply_blocks_snoc digest_of_overwrite)
qed (simp add: apply_blocks_def)

lemma apply_needed:
  fixes lba :: u32
  assumes "n * bs \<le> length img" "blocks_ok bs n m" "unat lba < n"
  shows "block_at bs (unat lba) (apply_blocks bs (filter (\<lambda>(lba, bytes). block_at bs (unat lba) img \<noteq> bytes) m) img) =
    block_at bs (unat lba) (apply_blocks bs m img)"
proof -
  let ?m = "filter (\<lambda>(lba, bytes). block_at bs (unat lba) img \<noteq> bytes) m"
  have "distinct (map fst m)" using assms(2) by (simp add: blocks_ok_def)
  then have "distinct (map fst ?m)" by (rule distinct_map_filter)
  then have "blocks_ok bs n ?m" using assms(2) by (auto simp: blocks_ok_def)
  moreover have "map_of ?m lba = (case map_of m lba of None \<Rightarrow> None
      | Some d \<Rightarrow> if block_at bs (unat lba) img = d then None else Some d)"
    using \<open>distinct (map fst m)\<close> by (induction m) (auto split: option.splits simp: map_of_eq_None_iff)
  ultimately show ?thesis using assms by (simp add: block_apply_blocks split: option.splits)
qed

lemma digestAfter_exact:
  assumes "tl_inv img0 img t" "blocks_ok (tl_blockSize t) (tl_blocks t) m"
  shows "fst (digestAfter img m t) = fullDigest (apply_blocks (tl_blockSize t) m img) t"
proof -
  obtain d t' where d: "digest img t = (d, t')" by force
  note e = digest_exact [OF assms(1) d]
  show ?thesis
    using assms e(1,3,4) digest_of_apply [of "tl_blocks t" "tl_blockSize t" img m]
    by (simp add: digestAfter_def d Let_def fullDigest_def tl_inv_def tl_sane_def)
qed

definition bits_set :: "nat \<Rightarrow> u64 list \<Rightarrow> u32 set \<Rightarrow> bool" where
  "bits_set n bits S \<longleftrightarrow> bits_for n bits \<and> (\<forall>lba. unat lba < n \<longrightarrow> bits_test bits lba = (lba \<in> S))"

lemma bits_set_testSet: "bits_set n bits S \<Longrightarrow> unat lba < n \<Longrightarrow> bits_set n (snd (testSet bits lba)) (insert lba S)"
  by (auto simp: bits_set_def bits_test_testSet)

lemma bits_set_empty: "bits_for n bits \<Longrightarrow> bits_set n (replicate (length bits) 0) {}"
  by (simp add: bits_set_def bits_for_def)

lemma load_snap_ok:
  assumes "load_snap bs n k seen snap r = (Some (seen', snap'), r')"
    and "bits_set n seen (fst ` set snap)" "blocks_ok bs n snap"
  shows "bits_set n seen' (fst ` set snap') \<and> blocks_ok bs n snap'"
  using assms
proof (induction k arbitrary: seen snap r)
  case (Suc k)
  obtain i r1 where i: "read_int 4 False r = (i, r1)" by force
  obtain bytes r2 where b: "read_bytes bs r1 = (bytes, r2)" by force
  obtain was seen1 where s: "testSet seen (word_of_int i) = (was, seen1)" by force
  let ?lba = "word_of_int i :: u32"
  have ok: "rd_ok r2" "unat ?lba < n" "\<not> was"
    and rec: "load_snap bs n k seen1 (snap @ [(?lba, bytes)]) r2 = (Some (seen', snap'), r')"
    using Suc.prems(1) i b s by (auto simp: Let_def split: if_splits)
  have "length bytes = bs" using length_read_bytes [of bs r1] b by simp
  moreover have "?lba \<notin> fst ` set snap"
    using Suc.prems(2) ok(2,3) s testSet_was [of seen ?lba] by (auto simp: bits_set_def)
  moreover have "bits_set n seen1 (insert ?lba (fst ` set snap))"
    using bits_set_testSet [OF Suc.prems(2) ok(2)] s by simp
  ultimately show ?case
    using Suc.IH [OF rec] Suc.prems(3) ok(2) by (simp add: blocks_ok_snoc)
qed simp

lemma load_snap_fail: "load_snap bs n k seen snap r = (None, r') \<Longrightarrow> \<not> rd_ok r'"
  by (induction k arbitrary: seen snap r) (auto simp: Let_def split: if_splits prod.splits)

lemma walk_from_blocks:
  "\<forall>(at, rec) \<in> set (fst (walk_from bs n off f)). case rec of JEpoch _ \<Rightarrow> True
     | JBlock lba p \<Rightarrow> unat lba < n \<and> length p = bs"
proof (induction bs n off f rule: walk_from.induct)
  case (1 bs n off f)
  show ?case
  proof (cases f)
    case Nil
    then show ?thesis by (simp add: walk_from.simps)
  next
    case (Cons tag r)
    then show ?thesis
      using 1 [OF Cons] by (subst walk_from.simps) (auto simp: Let_def split: prod.splits)
  qed
qed

lemma first_records_ok:
  assumes "\<forall>(at, rec) \<in> set rs. case rec of JEpoch _ \<Rightarrow> True | JBlock lba p \<Rightarrow> unat lba < n \<and> length p = bs"
    and "bits_set n seen S"
  shows "blocks_ok bs n (first_records e seen rs) \<and> fst ` set (first_records e seen rs) \<inter> S = {}"
  using assms
proof (induction rs arbitrary: seen S)
  case (Cons x rs)
  obtain at rec where x: "x = (at, rec)" by force
  show ?case
  proof (cases rec)
    case (JEpoch d)
    then show ?thesis using Cons.IH [of seen S] Cons.prems x by simp
  next
    case (JBlock lba p)
    have l: "unat lba < n" "length p = bs" using Cons.prems(1) x JBlock by simp_all
    have t: "bits_set n (snd (testSet seen lba)) (insert lba S)" "bits_test seen lba = (lba \<in> S)"
      using bits_set_testSet [OF Cons.prems(2) l(1)] Cons.prems(2) l(1) by (simp_all add: bits_set_def)
    then show ?thesis
      using Cons.IH [of "snd (testSet seen lba)" "insert lba S"] Cons.IH [of seen S] Cons.prems x JBlock l
      by (auto simp: Let_def split_beta blocks_ok_def)
  qed
qed (simp add: blocks_ok_def)

lemma candidate_ok:
  assumes "journalCandidate target t = Some m" "bits_for (tl_blocks t) (tl_dirtyBits t)"
  shows "blocks_ok (tl_blockSize t) (tl_blocks t) m"
proof -
  obtain f epoch where "m = first_records epoch (replicate (length (tl_dirtyBits t)) 0)
      (fst (walk_from (tl_blockSize t) (tl_blocks t) kHeader (drop kHeader f)))"
    using assms(1) by (auto simp: journalCandidate_def walkJournal_def Let_def split: if_splits option.splits)
  then show ?thesis
    using first_records_ok [OF walk_from_blocks bits_set_empty [OF assms(2)]] by simp
qed

lemma log_candidate_ok:
  assumes "tl_inv img0 img t" "bits_set (tl_blocks t) seen (fst ` set snap)" "blocks_ok (tl_blockSize t) (tl_blocks t) snap"
  shows "blocks_ok (tl_blockSize t) (tl_blocks t) (filter (\<lambda>(lba, _). \<not> bits_test seen lba) (log_entries t) @ snap)"
proof -
  let ?l = "filter (\<lambda>(lba, _). \<not> bits_test seen lba) (log_entries t)"
  have l: "blocks_ok (tl_blockSize t) (tl_blocks t) (log_entries t)" using assms(1) by (rule log_ok)
  then have "distinct (map fst ?l)" by (simp add: blocks_ok_def distinct_map_filter)
  moreover have "lba \<notin> fst ` set snap" if "(lba, d) \<in> set ?l" for lba d
  proof -
    have "unat lba < tl_blocks t" "\<not> bits_test seen lba" using l that by (auto simp: blocks_ok_def)
    then show ?thesis using assms(2) by (simp add: bits_set_def)
  qed
  then have "fst ` set ?l \<inter> fst ` set snap = {}" by (force simp del: set_filter)
  ultimately show ?thesis using l assms(3) by (auto simp: blocks_ok_def)
qed

lemma timeline_plan_sound:
  assumes "tl_inv img0 img t" "bits_set (tl_blocks t) seen (fst ` set snap)" "blocks_ok (tl_blockSize t) (tl_blocks t) snap"
    and "timeline_plan img seen snap target t = (Some m, t')"
  shows "blocks_ok (tl_blockSize t) (tl_blocks t) m \<and> fullDigest (apply_blocks (tl_blockSize t) m img) t = target"
proof -
  let ?m = "filter (\<lambda>(lba, _). \<not> bits_test seen lba) (log_entries t) @ snap"
  let ?t = "t\<lparr>tl_loadOrder := map fst snap\<rparr>"
  have i: "tl_inv img0 img ?t"
    using assms(1) by (intro tl_inv_frame [OF assms(1)]) (simp_all add: tl_inv_def tl_sane_def)
  obtain d t1 where d: "digestAfter img ?m ?t = (d, t1)" by force
  obtain d0 t0 where g: "digest img ?t = (d0, t0)" by force
  then have "t1 = t0" using d by (simp add: digestAfter_def Let_def)
  note e = digest_exact [OF i g, folded this]
  have m: "blocks_ok (tl_blockSize t) (tl_blocks t) ?m" using assms(1-3) by (rule log_candidate_ok)
  then have "d = fullDigest (apply_blocks (tl_blockSize t) ?m img) t"
    using digestAfter_exact [OF i, of ?m] d by (simp add: fullDigest_def)
  moreover have "blocks_ok (tl_blockSize t) (tl_blocks t) c \<and> fullDigest (apply_blocks (tl_blockSize t) c img) t = target"
    if "journalCandidate target t1 = Some c" "fst (digestAfter img c t1) = target" for c
    using candidate_ok [OF that(1)] digestAfter_exact [OF e(2), of c] that(2) e(2,3,4)
    by (simp add: tl_inv_def tl_sane_def fullDigest_def)
  ultimately show ?thesis
    using assms(4) d m by (auto simp: timeline_plan_def Let_def split: if_splits option.splits)
qed

lemma timeline_load_sound:
  assumes "tl_inv img0 img t" "timeline_load img t r = (plan, t', r')" "rd_ok r'"
  shows "plan = [] \<and> fst (read_int 4 False r) = 0 \<or>
    fullDigest (apply_blocks (tl_blockSize t) plan img) t = of_nat (le_value (rd_last 8 r'))"
proof -
  obtain bs r1 where r1: "read_int 4 False r = (bs, r1)" by force
  obtain n r2 where r2: "read_int 4 False r1 = (n, r2)" by force
  obtain c r3 where r3: "read_varint r2 = (c, r3)" by force
  let ?ls = "load_snap (nat bs) (tl_blocks t) (unat c) (replicate (length (tl_dirtyBits t)) 0) [] r3"
  have s: "tl_attached t" "bits_for (tl_blocks t) (tl_dirtyBits t)" "tl_blocks t * tl_blockSize t \<le> length img"
    using assms(1) by (simp_all add: tl_inv_def tl_sane_def)
  note L = assms(2) [unfolded timeline_load_def Let_def r1 r2 r3 prod.case]
  show ?thesis
  proof (cases "bs = 0")
    case True
    then show ?thesis using L r1 by simp
  next
    case False
    have "rd_ok r2" using L assms(3) False by (auto split: if_splits)
    then have g: "bs = int (tl_blockSize t)" "rd_ok r3" "unat c \<le> tl_blocks t"
      using L assms(3) False s(1) by (auto simp: rd_fail_why_def split: if_splits)
    then obtain seen snap r4 where ls: "?ls = (Some (seen, snap), r4)"
      using L assms(3) False s(1) \<open>rd_ok r2\<close>
      by (auto simp: rd_fail_why_def dest: load_snap_fail split: if_splits option.splits prod.splits)
    obtain target r5 where r5: "read_int 8 False r4 = (target, r5)" by force
    have sn: "bits_set (tl_blocks t) seen (fst ` set snap)" "blocks_ok (tl_blockSize t) (tl_blocks t) snap"
      using load_snap_ok [OF ls] bits_set_empty [OF s(2)] g(1) by (simp_all add: blocks_ok_def)
    have "rd_ok r5" and "\<exists>m t1. timeline_plan img seen snap (word_of_int target) t = (Some m, t1) \<and> r' = r5 \<and>
        plan = filter (\<lambda>(lba, bytes). block_at (nat bs) (unat lba) img \<noteq> bytes) m"
      using L assms(3) False s(1) \<open>rd_ok r2\<close> g ls r5
      by (auto simp: rd_fail_why_def split: if_splits option.splits prod.splits)
    then obtain m t1 where m: "timeline_plan img seen snap (word_of_int target) t = (Some m, t1)" "r' = r5"
        "plan = filter (\<lambda>(lba, bytes). block_at (nat bs) (unat lba) img \<noteq> bytes) m" by blast
    have p: "blocks_ok (tl_blockSize t) (tl_blocks t) m"
      "fullDigest (apply_blocks (tl_blockSize t) m img) t = word_of_int target"
      using timeline_plan_sound [OF assms(1) sn m(1)] by simp_all
    have "fullDigest (apply_blocks (tl_blockSize t) plan img) t = fullDigest (apply_blocks (tl_blockSize t) m img) t"
      unfolding fullDigest_def
    proof (rule digest_of_cong)
      fix b assume "b < tl_blocks t"
      then show "block_at (tl_blockSize t) b (apply_blocks (tl_blockSize t) plan img) =
          block_at (tl_blockSize t) b (apply_blocks (tl_blockSize t) m img)"
        using apply_needed [OF s(3) p(1), of "of_nat b"] m(3) g(1) assms(1)
        by (simp add: unat_of_nat_u32 tl_inv_def tl_sane_def)
    qed
    moreover have "target = int (le_value (rd_last 8 r'))"
      using r5 \<open>rd_ok r5\<close> m(2)
      by (auto simp: read_int_def of_unsigned_def rd_take_def Let_def split: if_splits)
    ultimately show ?thesis using p(2) by simp
  qed
qed

text \<open>The bytes of a saved state, from its entries.\<close>

definition state_bytes :: "nat \<Rightarrow> nat \<Rightarrow> (u32 \<times> u8 list) list \<Rightarrow> u64 \<Rightarrow> u8 list" where
  "state_bytes bs n es d = le_bytes 4 bs @ le_bytes 4 n @ write_varint (of_nat (length es)) @
     concat (map (\<lambda>(lba, p). le_bytes 4 (unat lba) @ p) es) @ le_bytes 8 (unat d)"

definition saved_entries :: "u8 list \<Rightarrow> disk_timeline \<Rightarrow> (u32 \<times> u8 list) list" where
  "saved_entries img t = map (\<lambda>lba. (lba, block_at (tl_blockSize t) (unat lba) img)) (tl_dirtyList t)"

lemma timeline_save_bytes:
  assumes "tl_inv img0 img t"
  shows "fst (timeline_save img t) =
    state_bytes (tl_blockSize t) (tl_blocks t) (saved_entries img t) (fullDigest img t)"
proof -
  obtain d t' where d: "digest img t = (d, t')" by force
  have "tl_attached t" using assms by (simp add: tl_inv_def tl_sane_def)
  then show ?thesis
    using digest_exact(1) [OF assms d]
    by (simp add: timeline_save_def Let_def d state_bytes_def saved_entries_def comp_def)
qed

lemma saved_ok: "tl_inv img0 img t \<Longrightarrow> blocks_ok (tl_blockSize t) (tl_blocks t) (saved_entries img t)"
  using block_fits [of _ "tl_blocks t" "tl_blockSize t" "length img"]
  by (auto simp: tl_inv_def tl_sane_def blocks_ok_def saved_entries_def comp_def)

lemma blocks_ok_length: "blocks_ok bs n es \<Longrightarrow> length es \<le> n"
proof -
  assume "blocks_ok bs n es"
  then have d: "distinct (map fst es)" and u: "\<forall>lba \<in> set (map fst es). unat lba < n" by (auto simp: blocks_ok_def)
  have "length es = card (set (map fst es))" using distinct_card [OF d] by simp
  also have "\<dots> = card (unat ` set (map fst es))"
    by (intro card_image [symmetric] inj_onI) simp
  also have "\<dots> \<le> card {..<n}" using u by (intro card_mono) auto
  finally show ?thesis by simp
qed

lemma read_u32: "rd_sees r (le_bytes 4 v) \<Longrightarrow> v < 2 ^ 32 \<Longrightarrow> read_int 4 False r = (int v, rd_adv 4 r)"
  using read_int_write [of r 4 v False] by (simp add: of_unsigned_def)

lemma read_u64: "rd_sees r (le_bytes 8 (unat (d :: u64))) \<Longrightarrow> read_int 8 False r = (uint d, rd_adv 8 r)"
proof -
  have "unat d < 256 ^ 8" using unsigned_less [of d, where 'a = nat] by simp
  then show "rd_sees r (le_bytes 8 (unat d)) \<Longrightarrow> read_int 8 False r = (uint d, rd_adv 8 r)"
    using read_int_write [of r 8 "unat d" False] by (simp add: of_unsigned_def)
qed

lemma load_snap_sees:
  assumes "rd_sees r (concat (map (\<lambda>(lba, p). le_bytes 4 (unat lba) @ p) es))"
    and "blocks_ok bs n es" "bits_set n seen S" "fst ` set es \<inter> S = {}"
  shows "\<exists>seen'. load_snap bs n (length es) seen snap r =
    (Some (seen', snap @ es), rd_adv (length (concat (map (\<lambda>(lba, p). le_bytes 4 (unat lba) @ p) es))) r)"
  using assms
proof (induction es arbitrary: r seen snap S)
  case (Cons e es)
  obtain lba p where e: "e = (lba, p)" by force
  let ?rest = "concat (map (\<lambda>(lba, p). le_bytes 4 (unat lba) @ p) es)"
  have l: "unat lba < n" "length p = bs" "lba \<notin> S" "lba \<notin> fst ` set es" "blocks_ok bs n es"
    using Cons.prems by (auto simp: blocks_ok_def e)
  have s: "rd_sees r (le_bytes 4 (unat lba) @ p @ ?rest)" using Cons.prems(1) by (simp add: e)
  note s1 = rd_sees_append [OF s] and s2 = rd_sees_append [OF rd_sees_append(2) [OF s]]
  have r1: "read_int 4 False r = (int (unat lba), rd_adv 4 r)"
    by (rule read_u32 [OF s1(1)]) (use unsigned_less [of lba] in simp)
  have r2: "read_bytes bs (rd_adv 4 r) = (p, rd_adv bs (rd_adv 4 r))"
    using read_bytes_sees [of "rd_adv 4 r" p] s2(1) l(2) by simp
  have ok: "rd_ok r" using s by (simp add: rd_sees_def)
  have t: "bits_set n (snd (testSet seen lba)) (insert lba S)" "\<not> bits_test seen lba"
    using bits_set_testSet [OF Cons.prems(3) l(1)] Cons.prems(3) l(1,3) by (simp_all add: bits_set_def)
  have "rd_sees (rd_adv (4 + bs) r) ?rest" using s2(2) l(2) by simp
  from Cons.IH [OF this l(5) t(1), of "snap @ [(lba, p)]"]
  show ?case
    using r1 r2 t(2) l Cons.prems(4) ok by (auto simp: e Let_def split_beta add.assoc)
qed simp

lemma map_of_filter_keys: "map_of (filter (\<lambda>(a, _). \<not> P a) xs) k = (if P k then None else map_of xs k)"
  by (induction xs) auto

lemma log_candidate_apply:
  fixes lba :: u32
  assumes "tl_inv img0 img1 t1" "tl_inv img0 img2 t2" "tl_blockSize t1 = tl_blockSize t2" "tl_blocks t1 = tl_blocks t2"
    and "bits_set (tl_blocks t2) seen (fst ` set (saved_entries img1 t1))" "unat lba < tl_blocks t2"
  shows "block_at (tl_blockSize t2) (unat lba) (apply_blocks (tl_blockSize t2)
      (filter (\<lambda>(lba, _). \<not> bits_test seen lba) (log_entries t2) @ saved_entries img1 t1) img2) =
    block_at (tl_blockSize t2) (unat lba) img1"
proof -
  let ?l = "filter (\<lambda>(lba, _). \<not> bits_test seen lba) (log_entries t2)" and ?s = "saved_entries img1 t1"
  have ok: "blocks_ok (tl_blockSize t2) (tl_blocks t2) ?s" using saved_ok [OF assms(1)] assms(3,4) by simp
  have le: "tl_blocks t2 * tl_blockSize t2 \<le> length img2" using assms(2) by (simp add: tl_inv_def)
  note b = block_apply_blocks [OF le log_candidate_ok [OF assms(2,5) ok] assms(6)]
  have ms: "map_of ?s lba = (if lba \<in> set (tl_dirtyList t1) then Some (block_at (tl_blockSize t2) (unat lba) img1) else None)"
    using assms(3) by (simp add: saved_entries_def map_of_map_restrict restrict_map_def)
  have "fst ` set ?s = set (tl_dirtyList t1)" by (auto simp: saved_entries_def image_iff)
  then have sb: "bits_test seen lba = (lba \<in> set (tl_dirtyList t1))" using assms(5,6) by (simp add: bits_set_def)
  have "map_of ?l lba = (if lba \<in> set (tl_dirtyList t1) then None
      else if lba \<in> set (tl_dirtyList t2) then Some (block_at (tl_blockSize t2) (unat lba) img0) else None)"
    by (simp add: map_of_filter_keys sb map_of_log [OF assms(2)])
  moreover have "lba \<notin> set (tl_dirtyList t1) \<Longrightarrow> block_at (tl_blockSize t2) (unat lba) img0 = block_at (tl_blockSize t2) (unat lba) img1"
    using assms(1,3,4,6) by (simp add: tl_inv_def)
  moreover have "lba \<notin> set (tl_dirtyList t2) \<Longrightarrow> block_at (tl_blockSize t2) (unat lba) img2 = block_at (tl_blockSize t2) (unat lba) img0"
    using assms(2,6) by (simp add: tl_inv_def)
  ultimately show ?thesis using b ms by (auto simp: map_add_def)
qed

lemma timeline_plan_saved:
  assumes "tl_inv img0 img1 t1" "tl_inv img0 img2 t2" "tl_blockSize t1 = tl_blockSize t2" "tl_blocks t1 = tl_blocks t2"
    and "bits_set (tl_blocks t2) seen (fst ` set (saved_entries img1 t1))"
  shows "\<exists>t'. timeline_plan img2 seen (saved_entries img1 t1) (fullDigest img1 t1) t2 =
      (Some (filter (\<lambda>(lba, _). \<not> bits_test seen lba) (log_entries t2) @ saved_entries img1 t1), t') \<and>
    tl_inv img0 img2 t' \<and> tl_loadOrder t' = tl_dirtyList t1 \<and>
    tl_blockSize t' = tl_blockSize t2 \<and> tl_blocks t' = tl_blocks t2"
proof -
  let ?es = "saved_entries img1 t1"
  let ?m = "filter (\<lambda>(lba, _). \<not> bits_test seen lba) (log_entries t2) @ ?es"
  let ?t = "t2\<lparr>tl_loadOrder := map fst ?es\<rparr>"
  have i: "tl_inv img0 img2 ?t"
    using assms(2) by (intro tl_inv_frame [OF assms(2)]) (simp_all add: tl_inv_def tl_sane_def)
  obtain d0 t0 where g: "digest img2 ?t = (d0, t0)" by force
  note e = digest_exact [OF i g]
  have ok: "blocks_ok (tl_blockSize t2) (tl_blocks t2) ?es" using saved_ok [OF assms(1)] assms(3,4) by simp
  note m = log_candidate_ok [OF assms(2,5) ok]
  have "fullDigest (apply_blocks (tl_blockSize t2) ?m img2) t2 = fullDigest img1 t1"
    unfolding fullDigest_def assms(3,4)
  proof (rule digest_of_cong)
    fix b assume "b < tl_blocks t2"
    then show "block_at (tl_blockSize t2) b (apply_blocks (tl_blockSize t2) ?m img2) = block_at (tl_blockSize t2) b img1"
      using log_candidate_apply [OF assms, of "of_nat b"] assms(2)
      by (simp add: unat_of_nat_u32 tl_inv_def tl_sane_def)
  qed
  moreover have "digestAfter img2 ?m ?t = (fullDigest (apply_blocks (tl_blockSize t2) ?m img2) t2, t0)"
    using digestAfter_exact [OF i, of ?m] m g by (simp add: digestAfter_def Let_def fullDigest_def)
  ultimately have "timeline_plan img2 seen ?es (fullDigest img1 t1) t2 = (Some ?m, t0)"
    by (simp add: timeline_plan_def Let_def)
  moreover have "map fst ?es = tl_dirtyList t1" by (simp add: saved_entries_def comp_def)
  ultimately show ?thesis using e by auto
qed

lemma timeline_load_saved:
  assumes "tl_inv img0 img1 t1" "tl_inv img0 img2 t2" "tl_blockSize t1 = tl_blockSize t2" "tl_blocks t1 = tl_blocks t2"
    and "tl_blockSize t2 < 2 ^ 32"
    and r: "rd_sees r (state_bytes (tl_blockSize t2) (tl_blocks t2) (saved_entries img1 t1) (fullDigest img1 t1))"
  obtains seen t' where "bits_set (tl_blocks t2) seen (fst ` set (saved_entries img1 t1))"
    "timeline_load img2 t2 r =
      (filter (\<lambda>(lba, bytes). block_at (tl_blockSize t2) (unat lba) img2 \<noteq> bytes)
        (filter (\<lambda>(lba, _). \<not> bits_test seen lba) (log_entries t2) @ saved_entries img1 t1), t',
       rd_adv (length (state_bytes (tl_blockSize t2) (tl_blocks t2) (saved_entries img1 t1) (fullDigest img1 t1))) r)"
    "tl_inv img0 img2 t'" "tl_loadOrder t' = tl_dirtyList t1" "tl_blockSize t' = tl_blockSize t2" "tl_blocks t' = tl_blocks t2"
proof -
  let ?bs = "tl_blockSize t2" and ?n = "tl_blocks t2" and ?es = "saved_entries img1 t1" and ?d = "fullDigest img1 t1"
  let ?v = "write_varint (of_nat (length ?es))" and ?c = "concat (map (\<lambda>(lba, p). le_bytes 4 (unat lba) @ p) ?es)"
  have g: "tl_attached t2" "?bs \<noteq> 0" "?n < 2 ^ 32" "bits_for ?n (tl_dirtyBits t2)"
    using assms(2) by (simp_all add: tl_inv_def tl_sane_def tl_attached_def)
  have ok: "blocks_ok ?bs ?n ?es" using saved_ok [OF assms(1)] assms(3,4) by simp
  then have len: "length ?es \<le> ?n" by (rule blocks_ok_length)
  then have c: "unat (of_nat (length ?es) :: u64) = length ?es" using g(3) by (intro unat_of_nat_u64) simp
  note s = r [unfolded state_bytes_def]
  note s1 = rd_sees_append [OF s]
  note s2 = rd_sees_append [OF s1(2)]
  note s3 = rd_sees_append [OF s2(2)]
  note s4 = rd_sees_append [OF s3(2)]
  have rok: "rd_ok r" using s by (simp add: rd_sees_def)
  have r1: "read_int 4 False r = (int ?bs, rd_adv 4 r)" using s1(1) assms(5) by (rule read_u32)
  have r2: "read_int 4 False (rd_adv 4 r) = (int ?n, rd_adv 8 r)"
    using read_u32 [OF _ g(3), of "rd_adv 4 r"] s2(1) by simp
  have r3: "read_varint (rd_adv 8 r) = (of_nat (length ?es), rd_adv (8 + length ?v) r)"
    using read_varint_write [of "rd_adv 8 r" "of_nat (length ?es)"] s3(1) by simp
  have "\<exists>seen. load_snap ?bs ?n (length ?es) (replicate (length (tl_dirtyBits t2)) 0) [] (rd_adv (8 + length ?v) r) =
      (Some (seen, ?es), rd_adv (8 + length ?v + length ?c) r)"
    using load_snap_sees [OF s4(1) ok bits_set_empty [OF g(4)], of "[]"] by simp
  then obtain seen where ls: "load_snap ?bs ?n (length ?es) (replicate (length (tl_dirtyBits t2)) 0) [] (rd_adv (8 + length ?v) r) =
      (Some (seen, ?es), rd_adv (8 + length ?v + length ?c) r)" by blast
  have seen: "bits_set ?n seen (fst ` set ?es)"
    using load_snap_ok [OF ls] bits_set_empty [OF g(4)] by (simp add: blocks_ok_def)
  have r5: "read_int 8 False (rd_adv (8 + length ?v + length ?c) r) = (uint ?d, rd_adv (16 + length ?v + length ?c) r)"
    using read_u64 [of "rd_adv (8 + length ?v + length ?c) r" ?d] s4(2) by (simp add: add.assoc)
  obtain t' where p: "timeline_plan img2 seen ?es ?d t2 =
      (Some (filter (\<lambda>(lba, _). \<not> bits_test seen lba) (log_entries t2) @ ?es), t')"
    "tl_inv img0 img2 t'" "tl_loadOrder t' = tl_dirtyList t1" "tl_blockSize t' = ?bs" "tl_blocks t' = ?n"
    using timeline_plan_saved [OF assms(1-4) seen] by blast
  have "timeline_load img2 t2 r =
      (filter (\<lambda>(lba, bytes). block_at ?bs (unat lba) img2 \<noteq> bytes)
        (filter (\<lambda>(lba, _). \<not> bits_test seen lba) (log_entries t2) @ ?es), t', rd_adv (16 + length ?v + length ?c) r)"
    using g(1,2) len rok c by (simp add: timeline_load_def Let_def r1 r2 r3 ls r5 p(1))
  moreover have "16 + length ?v + length ?c = length (state_bytes ?bs ?n ?es ?d)" by (simp add: state_bytes_def)
  ultimately show ?thesis using that [OF seen _ p(2-5)] by (simp only:)
qed


section \<open>Runs of a process\<close>

lemma digest_frame [simp]:
  "tl_pristine (snd (digest img t)) = tl_pristine t" "tl_dirtyBits (snd (digest img t)) = tl_dirtyBits t"
  by (simp_all add: digest_def Let_def)

lemma journalEpoch_inv:
  assumes "tl_inv img0 img t"
  shows "tl_inv img0 img (journalEpoch d t)" "tl_blockSize (journalEpoch d t) = tl_blockSize t"
    "tl_blocks (journalEpoch d t) = tl_blocks t" "tl_loadOrder (journalEpoch d t) = tl_loadOrder t"
    "tl_dirtyList (journalEpoch d t) = tl_dirtyList t"
proof -
  show "tl_blockSize (journalEpoch d t) = tl_blockSize t"
    "tl_blocks (journalEpoch d t) = tl_blocks t" "tl_loadOrder (journalEpoch d t) = tl_loadOrder t"
    "tl_dirtyList (journalEpoch d t) = tl_dirtyList t"
    by (simp_all add: journalEpoch_def split_beta Let_def)
  show "tl_inv img0 img (journalEpoch d t)"
    using assms
    by (intro tl_inv_frame [OF assms])
      (auto simp: journalEpoch_def split_beta Let_def tl_inv_def tl_sane_def bits_for_def)
qed

lemma timeline_save_inv:
  assumes "tl_inv img0 img t" "timeline_save img t = (bytes, t')"
  shows "tl_inv img0 img t'" "tl_blockSize t' = tl_blockSize t" "tl_blocks t' = tl_blocks t"
    "tl_loadOrder t' = tl_loadOrder t" "tl_dirtyList t' = tl_dirtyList t"
proof -
  obtain d t1 where d: "digest img t = (d, t1)" by force
  have "tl_attached t" using assms(1) by (simp add: tl_inv_def tl_sane_def)
  then have "t' = journalEpoch d t1" using assms(2) d by (simp add: timeline_save_def Let_def)
  then show "tl_inv img0 img t'" "tl_blockSize t' = tl_blockSize t" "tl_blocks t' = tl_blocks t"
    "tl_loadOrder t' = tl_loadOrder t" "tl_dirtyList t' = tl_dirtyList t"
    using journalEpoch_inv [OF digest_exact(2) [OF assms(1) d], of d] digest_exact [OF assms(1) d] by simp_all
qed

definition order_ok :: "disk_timeline \<Rightarrow> bool" where
  "order_ok t \<longleftrightarrow> distinct (tl_loadOrder t) \<and> (\<forall>lba \<in> set (tl_loadOrder t). unat lba < tl_blocks t)"

text \<open>One save state's worth of restoring, as the owner does it: plan, write the plan, commit.\<close>

definition tl_restore :: "sav_reader \<Rightarrow> u8 list \<times> disk_timeline \<Rightarrow> bool \<times> u8 list \<times> disk_timeline" where
  "tl_restore r s =
     (let (img, t) = s; (plan, t, r) = timeline_load img t r
      in if \<not> rd_ok r then (False, img, t)
         else let (img, t) = fold tl_write plan (img, t) in (True, img, commitLoad img t))"

lemma commit_old_spec:
  assumes "bits_set n bits S" "\<forall>(lba, _) \<in> set es. unat lba < n" "distinct (map fst es)"
    and "commit_old bits bs img es = (rest, bits')"
  shows "rest = filter (\<lambda>(lba, p). lba \<notin> S \<and> p \<noteq> block_at bs (unat lba) img) es \<and>
    bits_set n bits' (S \<union> fst ` set rest)"
  using assms
proof (induction es arbitrary: bits S rest)
  case (Cons e es)
  obtain lba p where e: "e = (lba, p)" by force
  have l: "unat lba < n" "bits_test bits lba = (lba \<in> S)" "lba \<notin> fst ` set es"
    using Cons.prems e by (auto simp: bits_set_def)
  show ?case
  proof (cases "lba \<in> S \<or> p = block_at bs (unat lba) img")
    case True
    then show ?thesis using Cons.IH [OF Cons.prems(1)] Cons.prems e l by (auto split: if_splits)
  next
    case False
    obtain rest1 where r: "commit_old (snd (testSet bits lba)) bs img es = (rest1, bits')" "rest = (lba, p) # rest1"
      using False Cons.prems(4) e l by (auto simp: Let_def split: prod.splits)
    have "filter (\<lambda>(a, p). a \<notin> insert lba S \<and> p \<noteq> block_at bs (unat a) img) es =
        filter (\<lambda>(a, p). a \<notin> S \<and> p \<noteq> block_at bs (unat a) img) es"
      using l(3) by (intro filter_cong) force+
    then show ?thesis
      using Cons.IH [OF bits_set_testSet [OF Cons.prems(1) l(1)] _ _ r(1)] Cons.prems(2,3) e r(2) False
      by auto
  qed
qed simp

lemma block_at_concat:
  "\<forall>p \<in> set ps. length p = bs \<Longrightarrow> i < length ps \<Longrightarrow> block_at bs i (concat ps) = ps ! i"
proof (induction ps arbitrary: i)
  case (Cons p ps)
  then show ?case
    by (cases i) (auto simp: block_at_def)
qed simp

lemma log_entries_from:
  assumes "tl_dirtyList t = map fst es" "tl_pristine t = concat (map snd es)"
    "\<forall>(_, p) \<in> set es. length p = tl_blockSize t"
  shows "log_entries t = es"
proof -
  have "\<forall>p \<in> set (map snd es). length p = tl_blockSize t" using assms(3) by auto
  then have "i < length es \<Longrightarrow> block_at (tl_blockSize t) i (concat (map snd es)) = snd (es ! i)" for i
    using block_at_concat [of "map snd es" "tl_blockSize t" i] by simp
  then show ?thesis by (intro nth_equalityI) (simp_all add: log_entries_def assms(1,2))
qed

lemma log_slot_eq:
  assumes "tl_inv img0 img t"
  shows "log_slot t lba = (if lba \<in> set (tl_dirtyList t) then Some (block_at (tl_blockSize t) (unat lba) img0) else None)"
proof -
  have "distinct (map fst (log_entries t))" using log_ok [OF assms] by (simp add: blocks_ok_def)
  then have "map_of (rev (log_entries t)) = map_of (log_entries t)"
    by (intro map_of_inject_set [THEN iffD2]) (simp_all add: rev_map [symmetric])
  then show ?thesis using map_of_log [OF assms, of lba] by (simp add: log_slot_def)
qed

lemma bits_set_fold:
  "bits_set n bits S \<Longrightarrow> \<forall>lba \<in> set ls. unat lba < n \<Longrightarrow>
     bits_set n (foldl (\<lambda>b lba. snd (testSet b lba)) bits ls) (S \<union> set ls)"
  by (induction ls arbitrary: bits S) (simp_all add: bits_set_testSet Un_insert_left [symmetric] del: Un_insert_left)

lemma length_concat_blocks: "\<forall>p \<in> set ps. length p = bs \<Longrightarrow> length (concat ps) = length ps * bs"
  by (induction ps) simp_all

text \<open>The log \<^verbatim>\<open>commitLoad\<close> leaves, as entries.\<close>

definition committed :: "u8 list \<Rightarrow> u8 list \<Rightarrow> disk_timeline \<Rightarrow> u32 list" where
  "committed img0 img t = tl_loadOrder t @
     filter (\<lambda>lba. lba \<notin> set (tl_loadOrder t) \<and>
       block_at (tl_blockSize t) (unat lba) img0 \<noteq> block_at (tl_blockSize t) (unat lba) img) (tl_dirtyList t)"

lemma commitLoad_state:
  assumes "tl_inv img0 img t" "order_ok t"
  shows "\<exists>bits. bits_set (tl_blocks t) bits (set (committed img0 img t)) \<and>
    commitLoad img t = t\<lparr>tl_dirtyList := committed img0 img t,
      tl_pristine := concat (map (\<lambda>lba. block_at (tl_blockSize t) (unat lba) img0) (committed img0 img t)),
      tl_dirtyBits := bits, tl_loadOrder := []\<rparr>"
proof -
  let ?bs = "tl_blockSize t" and ?o = "tl_loadOrder t" and ?b0 = "\<lambda>lba. block_at (tl_blockSize t) (unat lba) img0"
  let ?bits0 = "foldl (\<lambda>b lba. snd (testSet b lba)) (replicate (length (tl_dirtyBits t)) 0) ?o"
  have s: "tl_attached t" "bits_for (tl_blocks t) (tl_dirtyBits t)" "distinct (tl_dirtyList t)"
      "\<forall>lba \<in> set (tl_dirtyList t). unat lba < tl_blocks t" "log_entries t = map (\<lambda>lba. (lba, ?b0 lba)) (tl_dirtyList t)"
    using assms(1) by (simp_all add: tl_inv_def tl_sane_def)
  have o: "\<forall>lba \<in> set ?o. unat lba < tl_blocks t" using assms(2) by (simp add: order_ok_def)
  have b: "bits_set (tl_blocks t) ?bits0 (set ?o)"
    using bits_set_fold [OF bits_set_empty [OF s(2)] o] by simp
  obtain rest bits where c: "commit_old ?bits0 ?bs img (log_entries t) = (rest, bits)" by force
  have r: "rest = filter (\<lambda>(lba, p). lba \<notin> set ?o \<and> p \<noteq> block_at ?bs (unat lba) img) (log_entries t)"
      "bits_set (tl_blocks t) bits (set ?o \<union> fst ` set rest)"
    using commit_old_spec [OF b _ _ c] s(3,4,5) by (auto simp: comp_def)
  have rest: "rest = map (\<lambda>lba. (lba, ?b0 lba)) (filter (\<lambda>lba. lba \<notin> set ?o \<and> ?b0 lba \<noteq> block_at ?bs (unat lba) img) (tl_dirtyList t))"
    by (simp add: r(1) s(5) filter_map comp_def)
  have f: "map (\<lambda>lba. case log_slot t lba of Some p \<Rightarrow> p | None \<Rightarrow> block_at ?bs (unat lba) img) ?o = map ?b0 ?o"
    using o assms(1) by (auto simp: log_slot_eq [OF assms(1)] tl_inv_def)
  have "set ?o \<union> fst ` set rest = set (committed img0 img t)"
    by (auto simp: committed_def rest image_iff)
  then show ?thesis
    using r(2) s(1) by (intro exI [of _ bits]) (simp add: commitLoad_def Let_def f c rest committed_def comp_def)
qed

lemma commitLoad_inv:
  assumes "tl_inv img0 img t" "order_ok t"
  shows "tl_inv img0 img (commitLoad img t)" "tl_dirtyList (commitLoad img t) = committed img0 img t"
    "tl_loadOrder (commitLoad img t) = []" "tl_blockSize (commitLoad img t) = tl_blockSize t"
    "tl_blocks (commitLoad img t) = tl_blocks t"
proof -
  let ?l = "committed img0 img t" and ?b0 = "\<lambda>lba. block_at (tl_blockSize t) (unat lba) img0"
  obtain bits where b: "bits_set (tl_blocks t) bits (set ?l)" and
    c: "commitLoad img t = t\<lparr>tl_dirtyList := ?l, tl_pristine := concat (map ?b0 ?l), tl_dirtyBits := bits, tl_loadOrder := []\<rparr>"
    using commitLoad_state [OF assms] by blast
  show f: "tl_dirtyList (commitLoad img t) = ?l" "tl_loadOrder (commitLoad img t) = []"
    "tl_blockSize (commitLoad img t) = tl_blockSize t" "tl_blocks (commitLoad img t) = tl_blocks t"
    by (simp_all add: c)
  have u: "\<forall>lba \<in> set ?l. unat lba < tl_blocks t" "distinct ?l"
    using assms by (auto simp: committed_def order_ok_def tl_inv_def tl_sane_def)
  have len: "\<forall>lba \<in> set ?l. length (?b0 lba) = tl_blockSize t"
    using u(1) assms(1) block_fits [of _ "tl_blocks t" "tl_blockSize t" "length img0"] by (auto simp: tl_inv_def)
  then have "log_entries (commitLoad img t) = map (\<lambda>lba. (lba, ?b0 lba)) ?l"
    by (intro log_entries_from) (auto simp: c comp_def)
  moreover have "length (concat (map ?b0 ?l)) = length ?l * tl_blockSize t"
    using length_concat_blocks [of "map ?b0 ?l" "tl_blockSize t"] len by simp
  moreover have "block_at (tl_blockSize t) (unat lba) img = ?b0 lba" if "unat lba < tl_blocks t" "lba \<notin> set ?l" for lba
    using that assms(1) by (cases "lba \<in> set (tl_dirtyList t)") (auto simp: committed_def tl_inv_def)
  ultimately show "tl_inv img0 img (commitLoad img t)"
    using assms(1) b u by (auto simp: tl_inv_def tl_sane_def c bits_set_def tl_attached_def fullDigest_def)
qed

lemma timeline_plan_inv:
  assumes "tl_inv img0 img t" "blocks_ok (tl_blockSize t) (tl_blocks t) snap" "timeline_plan img seen snap target t = (m, t')"
  shows "tl_inv img0 img t' \<and> order_ok t' \<and> tl_blockSize t' = tl_blockSize t \<and> tl_blocks t' = tl_blocks t"
proof -
  let ?t = "t\<lparr>tl_loadOrder := map fst snap\<rparr>"
  have i: "tl_inv img0 img ?t"
    using assms(1) by (intro tl_inv_frame [OF assms(1)]) (simp_all add: tl_inv_def tl_sane_def)
  obtain d0 t0 where g: "digest img ?t = (d0, t0)" by force
  have "t' = t0"
    using assms(3) g by (auto simp: timeline_plan_def digestAfter_def Let_def split: if_splits option.splits)
  moreover have "order_ok ?t" using assms(2) by (auto simp: order_ok_def blocks_ok_def)
  ultimately show ?thesis using digest_exact [OF i g] by (simp add: order_ok_def)
qed

text \<open>A refused restore has nothing to write.\<close>

lemma timeline_load_refused: "timeline_load img t r = (plan, t', r') \<Longrightarrow> \<not> rd_ok r' \<Longrightarrow> plan = []"
  by (auto simp: timeline_load_def Let_def split: if_splits prod.splits option.splits)

lemma timeline_load_inv:
  assumes "tl_inv img0 img t" "order_ok t" "timeline_load img t r = (plan, t', r')"
  shows "tl_inv img0 img t' \<and> order_ok t' \<and> tl_blockSize t' = tl_blockSize t \<and> tl_blocks t' = tl_blocks t \<and>
    blocks_ok (tl_blockSize t) (tl_blocks t) plan"
proof -
  obtain bs r1 where r1: "read_int 4 False r = (bs, r1)" by force
  obtain n r2 where r2: "read_int 4 False r1 = (n, r2)" by force
  obtain c r3 where r3: "read_varint r2 = (c, r3)" by force
  let ?ls = "load_snap (nat bs) (tl_blocks t) (unat c) (replicate (length (tl_dirtyBits t)) 0) [] r3"
  have s: "bits_for (tl_blocks t) (tl_dirtyBits t)" using assms(1) by (simp add: tl_inv_def tl_sane_def)
  note L = assms(3) [unfolded timeline_load_def Let_def r1 r2 r3 prod.case]
  show ?thesis
  proof (cases "t' = t \<and> plan = []")
    case True
    then show ?thesis using assms by (simp add: blocks_ok_def)
  next
    case False
    then have bs: "bs = int (tl_blockSize t)" using L by (auto split: if_splits)
    obtain seen snap r4 target m where ls: "?ls = (Some (seen, snap), r4)"
      and p: "timeline_plan img seen snap target t = (m, t')"
      and m: "plan = (case m of None \<Rightarrow> [] | Some m \<Rightarrow> filter (\<lambda>(lba, bytes). block_at (nat bs) (unat lba) img \<noteq> bytes) m)"
      using L False by (auto split: if_splits option.splits prod.splits)
    have sn: "bits_set (tl_blocks t) seen (fst ` set snap)" "blocks_ok (tl_blockSize t) (tl_blocks t) snap"
      using load_snap_ok [OF ls] bits_set_empty [OF s] bs by (simp_all add: blocks_ok_def)
    have "blocks_ok (tl_blockSize t) (tl_blocks t) plan"
      using timeline_plan_sound [OF assms(1) sn, of target _ t'] p m
      by (cases m) (auto simp: blocks_ok_def distinct_map_filter)
    then show ?thesis using timeline_plan_inv [OF assms(1) sn(2) p] by simp
  qed
qed

lemma fold_write_order: "tl_loadOrder (snd (fold tl_write ws (img, t))) = tl_loadOrder t"
proof (induction ws arbitrary: img t)
  case (Cons w ws)
  then show ?case by (cases w) (simp add: tl_write_def Let_def)
qed simp

lemma tl_restore_inv:
  assumes "tl_inv img0 img t" "order_ok t" "tl_restore r (img, t) = (b, img', t')"
  shows "tl_inv img0 img' t' \<and> order_ok t' \<and> tl_blockSize t' = tl_blockSize t \<and> tl_blocks t' = tl_blocks t"
proof -
  obtain plan t1 r1 where l: "timeline_load img t r = (plan, t1, r1)" by (metis prod.collapse)
  note i = timeline_load_inv [OF assms(1,2) l]
  then have ok: "list_all (tl_write_ok t1) plan" by (auto simp: blocks_ok_def list_all_iff tl_write_ok_def)
  obtain img2 t2 where w: "fold tl_write plan (img, t1) = (img2, t2)" by force
  have i2: "tl_inv img0 img2 t2" "tl_blockSize t2 = tl_blockSize t" "tl_blocks t2 = tl_blocks t"
    using tl_writes_inv [OF _ ok] i w by (metis fst_conv snd_conv)+
  have "order_ok t2" using i i2(3) fold_write_order [of plan img t1] w by (auto simp: order_ok_def)
  note c = commitLoad_inv [OF i2(1) this]
  show ?thesis
    using assms(3) i i2 c by (auto simp: tl_restore_def l w order_ok_def split: if_splits)
qed

text \<open>Everything a process does with a disk after it has attached the first \<open>sz\<close> bytes of the image
  \<open>img0\<close>.\<close>

inductive tl_run :: "u8 list \<Rightarrow> nat \<Rightarrow> nat \<Rightarrow> u8 list \<Rightarrow> disk_timeline \<Rightarrow> bool" for img0 sz bs where
  run_attach: "bs \<noteq> 0 \<Longrightarrow> bs < 2 ^ 32 \<Longrightarrow> sz \<le> length img0 \<Longrightarrow> tl_loadOrder t = [] \<Longrightarrow>
    tl_run img0 sz bs img0 (tl_attach h file img0 sz bs path name t)"
| run_write: "tl_run img0 sz bs img t \<Longrightarrow> tl_write_ok t w \<Longrightarrow> tl_write w (img, t) = (img', t') \<Longrightarrow> tl_run img0 sz bs img' t'"
| run_save: "tl_run img0 sz bs img t \<Longrightarrow> timeline_save img t = (bytes, t') \<Longrightarrow> tl_run img0 sz bs img t'"
| run_restore: "tl_run img0 sz bs img t \<Longrightarrow> tl_restore r (img, t) = (b, img', t') \<Longrightarrow> tl_run img0 sz bs img' t'"

lemma openJournal_order [simp]: "tl_loadOrder (openJournal h t) = tl_loadOrder t"
  by (simp add: openJournal_def Let_def dropJournal_def compactJournal_def split: prod.splits)

lemma tl_run_inv:
  assumes "tl_run img0 sz bs img t"
  shows "tl_inv img0 img t \<and> order_ok t \<and> tl_blockSize t = bs \<and> tl_blocks t = (sz div bs) mod 2 ^ 32 \<and>
    0 < bs \<and> bs < 2 ^ 32"
  using assms
proof induction
  case (run_attach t h jf path name)
  have "tl_loadOrder (tl_attach h jf img0 sz bs path name t) = []"
    using run_attach by (simp add: tl_attach_def tl_detach_def Let_def)
  then show ?case using run_attach tl_attach_inv [OF run_attach(1,3)] by (simp add: order_ok_def)
next
  case (run_write img t w img' t')
  have "tl_loadOrder t' = tl_loadOrder t" "tl_blockSize t' = tl_blockSize t" "tl_blocks t' = tl_blocks t"
    using run_write(3) by (auto simp: tl_write_def Let_def split: prod.splits)
  then show ?case using run_write tl_write_inv [of img0 img t w] by (auto simp: order_ok_def)
next
  case (run_save img t bytes t')
  then show ?case using timeline_save_inv [of img0 img t bytes t'] by (auto simp: order_ok_def)
next
  case (run_restore img t r b img' t')
  then show ?case using tl_restore_inv [of img0 img t r b img' t'] by simp
qed

lemma fold_write_apply:
  assumes "blocks_ok (tl_blockSize t) (tl_blocks t) plan"
  shows "fst (fold tl_write plan (img, t)) = apply_blocks (tl_blockSize t) plan img"
  using assms
proof (induction plan arbitrary: img t)
  case (Cons w ws)
  then show ?case
    by (cases w) (auto simp: tl_write_def Let_def apply_blocks_def blocks_ok_def)
qed (simp add: apply_blocks_def)

lemma tl_restore_saved:
  assumes "tl_inv img0 img1 t1" "tl_inv img0 img2 t2" "tl_blockSize t1 = tl_blockSize t2" "tl_blocks t1 = tl_blocks t2"
    and "tl_blockSize t2 < 2 ^ 32" "order_ok t1" "order_ok t2"
    and "rd_sees r (state_bytes (tl_blockSize t2) (tl_blocks t2) (saved_entries img1 t1) (fullDigest img1 t1))"
    and "tl_restore r (img2, t2) = (b, img3, t3)"
  shows "b" "tl_dirtyList t3 = tl_dirtyList t1" "tl_inv img0 img3 t3"
    "tl_blockSize t3 = tl_blockSize t2" "tl_blocks t3 = tl_blocks t2"
    "\<And>lba :: u32. unat lba < tl_blocks t2 \<Longrightarrow> block_at (tl_blockSize t2) (unat lba) img3 = block_at (tl_blockSize t2) (unat lba) img1"
proof -
  let ?bs = "tl_blockSize t2" and ?n = "tl_blocks t2"
  let ?B = "state_bytes ?bs ?n (saved_entries img1 t1) (fullDigest img1 t1)"
  obtain seen t' where S: "bits_set ?n seen (fst ` set (saved_entries img1 t1))" and
    L: "timeline_load img2 t2 r =
      (filter (\<lambda>(lba, bytes). block_at ?bs (unat lba) img2 \<noteq> bytes)
        (filter (\<lambda>(lba, _). \<not> bits_test seen lba) (log_entries t2) @ saved_entries img1 t1), t', rd_adv (length ?B) r)" and
    t': "tl_inv img0 img2 t'" "tl_loadOrder t' = tl_dirtyList t1" "tl_blockSize t' = ?bs" "tl_blocks t' = ?n"
    by (rule timeline_load_saved [OF assms(1-5,8)])
  let ?m = "filter (\<lambda>(lba, _). \<not> bits_test seen lba) (log_entries t2) @ saved_entries img1 t1"
  let ?plan = "filter (\<lambda>(lba, bytes). block_at ?bs (unat lba) img2 \<noteq> bytes) ?m"
  obtain img4 t4 where w: "fold tl_write ?plan (img2, t') = (img4, t4)" by force
  have ok: "rd_ok (rd_adv (length ?B) r)" using assms(8) by (simp add: rd_sees_def)
  then have R: "b" "img3 = img4" "t3 = commitLoad img4 t4"
    using assms(9) L w by (auto simp: tl_restore_def)
  show "b" by (rule R(1))
  show f: "tl_inv img0 img3 t3" "tl_blockSize t3 = ?bs" "tl_blocks t3 = ?n"
    using tl_restore_inv [OF assms(2,7,9)] by simp_all
  have sv: "blocks_ok ?bs ?n (saved_entries img1 t1)" using saved_ok [OF assms(1)] assms(3,4) by simp
  note m = log_candidate_ok [OF assms(2) S sv]
  have le: "?n * ?bs \<le> length img2" using assms(2) by (simp add: tl_inv_def)
  have pl: "blocks_ok ?bs ?n ?plan" using timeline_load_inv [OF assms(2,7) L] by simp
  have img4: "img4 = apply_blocks ?bs ?plan img2"
    using fold_write_apply [of t' ?plan img2] pl t'(3,4) w by simp
  show eq: "block_at ?bs (unat lba) img3 = block_at ?bs (unat lba) img1" if "unat lba < ?n" for lba :: u32
    unfolding R(2) img4 using apply_needed [OF le m that] log_candidate_apply [OF assms(1-4) S that] by simp
  have "list_all (tl_write_ok t') ?plan" using pl t'(3,4) by (auto simp: blocks_ok_def list_all_iff tl_write_ok_def)
  from tl_writes_inv [OF t'(1) this] have i4: "tl_inv img0 img4 t4" "tl_blockSize t4 = ?bs" "tl_blocks t4 = ?n"
    using w t'(3,4) by simp_all
  have o4: "tl_loadOrder t4 = tl_dirtyList t1" using fold_write_order [of ?plan img2 t'] w t'(2) by simp
  then have "order_ok t4" using assms(1,4) i4(3) by (simp add: order_ok_def tl_inv_def tl_sane_def)
  from commitLoad_inv(2) [OF i4(1) this] have "tl_dirtyList t3 = committed img0 img4 t4" by (simp add: R(3))
  moreover have "block_at ?bs (unat lba) img0 = block_at ?bs (unat lba) img4"
    if "lba \<in> set (tl_dirtyList t4)" "lba \<notin> set (tl_dirtyList t1)" for lba
  proof -
    have "unat lba < ?n" using that(1) i4(1,3) by (simp add: tl_inv_def tl_sane_def)
    then show ?thesis using eq [of lba] R(2) that(2) assms(1,3,4) by (simp add: tl_inv_def)
  qed
  ultimately show "tl_dirtyList t3 = tl_dirtyList t1"
    by (auto simp: committed_def o4 i4(2) intro!: filter_False)
qed

lemma tl_restore_roundtrip:
  assumes "tl_run img0 sz bs img1 t1" "timeline_save img1 t1 = (bytes, t1')"
    and "tl_run img0 sz bs img2 t2" "rd_sees r bytes" "tl_restore r (img2, t2) = (accepted, img3, t3)"
  shows "accepted \<and> (\<forall>b < (sz div bs) mod 2 ^ 32. block_at bs b img3 = block_at bs b img1) \<and>
    fst (timeline_save img3 t3) = bytes"
proof -
  note i1 = tl_run_inv [OF assms(1)] and i2 = tl_run_inv [OF assms(3)]
  let ?n = "(sz div bs) mod 2 ^ 32"
  have sv: "bytes = state_bytes bs ?n (saved_entries img1 t1) (fullDigest img1 t1)"
    using timeline_save_bytes [of img0 img1 t1] i1 assms(2) by simp
  have "rd_sees r (state_bytes (tl_blockSize t2) (tl_blocks t2) (saved_entries img1 t1) (fullDigest img1 t1))"
    using i2 assms(4) by (simp add: sv)
  note r = tl_restore_saved [OF _ _ _ _ _ _ _ this assms(5), of img0]
  have R: "accepted" "tl_dirtyList t3 = tl_dirtyList t1" "tl_inv img0 img3 t3" "tl_blockSize t3 = bs" "tl_blocks t3 = ?n"
    using r(1-5) i1 i2 by simp_all
  have B: "block_at bs (unat lba) img3 = block_at bs (unat lba) img1" if "unat lba < ?n" for lba :: u32
    using r(6) [of lba] i1 i2 that by simp
  have B': "block_at bs b img3 = block_at bs b img1" if "b < ?n" for b
  proof -
    have "unat (of_nat b :: u32) = b" using that by (intro unat_of_nat_u32) simp
    then show ?thesis using B [of "of_nat b"] that by simp
  qed
  have "saved_entries img3 t3 = saved_entries img1 t1"
    using i1 R(2,4) B by (auto simp: saved_entries_def tl_inv_def tl_sane_def)
  moreover have "fullDigest img3 t3 = fullDigest img1 t1"
    using i1 R(4,5) B' by (simp add: fullDigest_def) (intro digest_of_cong, simp)
  ultimately have "fst (timeline_save img3 t3) = bytes"
    using timeline_save_bytes [OF R(3)] R(4,5) by (simp add: sv)
  then show ?thesis using R(1) B' by blast
qed

text \<open>C5: a state saved at one point of a run is restored at any later (or other) point of any run
  from the same attached image: the restore is accepted, every block has the bytes it had when the
  state was saved, and saving again gives the same state byte for byte.\<close>

theorem timeline_restore_roundtrip:
  assumes "tl_run img0 sz bs img1 t1" "timeline_save img1 t1 = (bytes, t1')"
    and "tl_run img0 sz bs img2 t2" "tl_restore (mk_reader (bytes @ post)) (img2, t2) = (accepted, img3, t3)"
  shows "accepted \<and> (\<forall>b < (sz div bs) mod 2 ^ 32. block_at bs b img3 = block_at bs b img1) \<and>
    fst (timeline_save img3 t3) = bytes"
  using tl_restore_roundtrip [OF assms(1,2,3) rd_sees_mk assms(4)] .

text \<open>C10: a restore that is accepted gives exactly the content the state names: the digest of the
  restored image is the one stored in the state (its last eight bytes), unless the state holds no
  disk at all, and then nothing is written; a restore that is refused writes nothing.\<close>

theorem timeline_restore_sound:
  assumes "tl_run img0 sz bs img t" "tl_restore r (img, t) = (accepted, img', t')"
  shows "if accepted
    then fst (read_int 4 False r) = 0 \<and> img' = img \<or>
      fullDigest img' t' = of_nat (le_value (rd_last 8 (snd (snd (timeline_load img t r)))))
    else img' = img"
proof -
  obtain plan t1 r1 where l: "timeline_load img t r = (plan, t1, r1)" by (metis prod.collapse)
  note i = tl_run_inv [OF assms(1)]
  have i1: "tl_blockSize t1 = bs" "tl_blocks t1 = tl_blocks t" "blocks_ok bs (tl_blocks t) plan"
    using timeline_load_inv [OF _ _ l, of img0] i by auto
  obtain img2 t2 where w: "fold tl_write plan (img, t1) = (img2, t2)" by force
  have a: "img2 = apply_blocks bs plan img" using fold_write_apply [of t1 plan img] i1 w by simp
  have g: "tl_blockSize t' = bs" "tl_blocks t' = tl_blocks t"
    using tl_restore_inv [OF _ _ assms(2), of img0] i by simp_all
  have "accepted = rd_ok r1" "accepted \<Longrightarrow> img' = img2" "\<not> accepted \<Longrightarrow> img' = img"
    using assms(2) l w by (auto simp: tl_restore_def split: if_splits)
  then show ?thesis
    using timeline_load_sound [OF _ l, of img0] i a g l
    by (auto simp: fullDigest_def apply_blocks_def)
qed

lemma demo_run:
  "tl_run [1, 2, 3, 4] (length [1, 2, 3, 4 :: u8]) 2 [1, 2, 3, 4] demo_disk"
  "tl_run [1, 2, 3, 4] (length [1, 2, 3, 4 :: u8]) 2 (fst (tl_write (1, [8, 9]) ([1, 2, 3, 4], demo_disk)))
     (snd (tl_write (1, [8, 9]) ([1, 2, 3, 4], demo_disk)))"
proof -
  show r: "tl_run [1, 2, 3, 4] (length [1, 2, 3, 4 :: u8]) 2 [1, 2, 3, 4] demo_disk"
    unfolding demo_disk_def by (rule run_attach) (simp_all add: timeline_init_def)
  show "tl_run [1, 2, 3, 4] (length [1, 2, 3, 4 :: u8]) 2 (fst (tl_write (1, [8, 9]) ([1, 2, 3, 4], demo_disk)))
     (snd (tl_write (1, [8, 9]) ([1, 2, 3, 4], demo_disk)))"
    using run_write [OF r demo_disk_write_ok] by simp
qed

theorem timeline_restore_roundtrip_witness:
  "let (img1, t1) = tl_write (1, [8, 9]) ([1, 2, 3, 4], demo_disk);
       (accepted, img3, t3) = tl_restore (mk_reader (fst (timeline_save img1 t1))) ([1, 2, 3, 4], demo_disk)
   in accepted \<and> block_at 2 1 img3 = [8, 9]"
proof -
  let ?w = "tl_write (1, [8, 9]) ([1, 2, 3, 4], demo_disk)"
  obtain b img3 t3 where r: "tl_restore (mk_reader (fst (timeline_save (fst ?w) (snd ?w)) @ []))
      ([1, 2, 3, 4], demo_disk) = (b, img3, t3)" by (metis prod.collapse)
  have "b \<and> (\<forall>k<(length [1, 2, 3, 4 :: u8] div 2) mod 2 ^ 32. block_at 2 k img3 = block_at 2 k (fst ?w)) \<and>
      fst (timeline_save img3 t3) = fst (timeline_save (fst ?w) (snd ?w))"
    by (rule timeline_restore_roundtrip [OF demo_run(2) prod.collapse [symmetric] demo_run(1) r])
  moreover have "block_at 2 1 (fst ?w) = [8, 9]"
    by (simp add: tl_write_def Let_def block_at_def overwrite_def demo_disk_def tl_attach_def)
  ultimately show ?thesis using r by (auto simp: split_beta Let_def)
qed

theorem timeline_restore_sound_witness:
  "let (accepted, img', t') = tl_restore (mk_reader []) ([1, 2, 3, 4], demo_disk) in \<not> accepted \<and> img' = [1, 2, 3, 4]"
proof -
  obtain b img' t' where r: "tl_restore (mk_reader []) ([1, 2, 3, 4], demo_disk) = (b, img', t')" by (metis prod.collapse)
  have "\<not> b" using r by (simp add: tl_restore_def timeline_load_def read_int_def rd_take_def mk_reader_def Let_def)
  then show ?thesis using timeline_restore_sound [OF demo_run(1) r] r by simp
qed

end
