(* ===== verification/Disk_Journal.thy ===== *)
theory Disk_Journal
  imports Disk_Timeline
begin

text \<open>
  The reverse journal of \<^verbatim>\<open>src/src/DiskTimeline.cpp\<close> across processes: the file of records beside
  the image, the content it can rewind to, and what reopening it after a crash keeps.  The
  definitions of the code are in \<^verbatim>\<open>Disk_Timeline\<close>; this theory holds the history of journalled
  runs and the two properties about it.
\<close>

unbundle bit_operations_syntax

section \<open>Rewinding through the journal\<close>

definition jvalid :: "nat \<Rightarrow> nat \<Rightarrow> jrec \<Rightarrow> bool" where
  "jvalid bs n rec \<longleftrightarrow> (case rec of JEpoch _ \<Rightarrow> True | JBlock lba p \<Rightarrow> unat lba < n \<and> length p = bs)"

fun with_offsets :: "nat \<Rightarrow> jrec list \<Rightarrow> (nat \<times> jrec) list" where
  "with_offsets off [] = []"
| "with_offsets off (x # xs) = (off, x) # with_offsets (off + length (jrec_bytes x)) xs"

definition journal_bytes :: "jrec list \<Rightarrow> u8 list" where
  "journal_bytes recs = concat (map jrec_bytes recs)"

text \<open>The front of a record whose rest a crash has cut off (nothing at all included).\<close>

definition torn :: "nat \<Rightarrow> nat \<Rightarrow> u8 list \<Rightarrow> bool" where
  "torn bs n f \<longleftrightarrow> (\<exists>x k. jvalid bs n x \<and> k < length (jrec_bytes x) \<and> f = take k (jrec_bytes x))"

lemma torn_Nil [simp]: "torn bs n []"
  unfolding torn_def by (intro exI [of _ "JEpoch 0"] exI [of _ 0]) (simp add: jvalid_def)

lemma walk_torn: "torn bs n f \<Longrightarrow> walk_from bs n off f = ([], off)"
proof -
  assume "torn bs n f"
  then obtain x k where x: "jvalid bs n x" "k < length (jrec_bytes x)" "f = take k (jrec_bytes x)"
    by (auto simp: torn_def)
  show ?thesis
  proof (cases k)
    case 0
    then show ?thesis using x by (simp add: walk_from.simps)
  next
    case (Suc j)
    show ?thesis
    proof (cases x)
      case (JEpoch d)
      then show ?thesis using x Suc by (subst walk_from.simps) simp
    next
      case (JBlock lba p)
      have "4 \<le> j \<Longrightarrow> take j (put32 lba @ p) = put32 lba @ take (j - 4) p" by simp
      moreover have "\<not> j < 4 \<Longrightarrow> j - 4 < bs" using x Suc JBlock by (auto simp: jvalid_def)
      ultimately show ?thesis
        using x Suc JBlock by (subst walk_from.simps) (cases "j < 4"; simp add: jvalid_def Let_def)
    qed
  qed
qed

lemma walk_journal_bytes:
  assumes "list_all (jvalid bs n) recs" "torn bs n f"
  shows "walk_from bs n off (journal_bytes recs @ f) =
    (with_offsets off recs, off + length (journal_bytes recs))"
  using assms(1)
proof (induction recs arbitrary: off)
  case Nil
  then show ?case using walk_torn [OF assms(2)] by (simp add: journal_bytes_def)
next
  case (Cons x xs)
  note IH = Cons.IH [unfolded journal_bytes_def]
  show ?case
  proof (cases x)
    case (JEpoch d)
    then show ?thesis
      using IH [of "off + 9"] Cons.prems by (subst walk_from.simps) (simp add: journal_bytes_def Let_def)
  next
    case (JBlock lba p)
    then show ?thesis
      using IH [of "off + (5 + bs)"] Cons.prems
      by (subst walk_from.simps) (simp add: journal_bytes_def Let_def jvalid_def add.assoc)
  qed
qed

definition journal_file :: "nat \<Rightarrow> nat \<Rightarrow> jrec list \<Rightarrow> u8 list" where
  "journal_file bs n recs = journal_header bs n @ journal_bytes recs"

lemma length_journal_header [simp]: "length (journal_header bs n) = 16"
  by (simp add: journal_header_def kMagic_def)

lemma walkJournal_file:
  assumes "list_all (jvalid bs n) recs" "torn bs n f"
  shows "walkJournal bs n (journal_file bs n recs @ f) =
    (with_offsets 16 recs, 16 + length (journal_bytes recs))"
  using walk_journal_bytes [OF assms, of 16] by (simp add: walkJournal_def journal_file_def kHeader_def)

lemma journal_bytes_simps [simp]:
  "journal_bytes [] = []" "journal_bytes (x # xs) = jrec_bytes x @ journal_bytes xs"
  "journal_bytes (xs @ ys) = journal_bytes xs @ journal_bytes ys"
  by (simp_all add: journal_bytes_def)

lemma with_offsets_append [simp]:
  "with_offsets off (xs @ ys) = with_offsets off xs @ with_offsets (off + length (journal_bytes xs)) ys"
  by (induction xs arbitrary: off) (simp_all add: add.assoc)

lemma jrec_bytes_nonempty: "0 < length (jrec_bytes x)"
  by (cases x) simp_all

lemma with_offsets_nth:
  "(at, x) \<in> set (with_offsets off recs) \<Longrightarrow>
     \<exists>j < length recs. recs ! j = x \<and> at = off + length (journal_bytes (take j recs))"
proof (induction recs arbitrary: off)
  case (Cons y ys)
  show ?case
  proof (cases "(at, x) = (off, y)")
    case True
    then show ?thesis by (intro exI [of _ 0]) simp
  next
    case False
    then obtain j where "j < length ys" "ys ! j = x" "at = off + length (jrec_bytes y) + length (journal_bytes (take j ys))"
      using Cons.IH [of "off + length (jrec_bytes y)"] Cons.prems by auto
    then show ?thesis by (intro exI [of _ "Suc j"]) simp
  qed
qed simp

text \<open>The content a block had in front of some records: its first record, or the image.\<close>

fun jblocks :: "jrec list \<Rightarrow> (u32 \<times> u8 list) list" where
  "jblocks [] = []"
| "jblocks (JEpoch d # xs) = jblocks xs"
| "jblocks (JBlock lba p # xs) = (lba, p) # jblocks xs"

lemma jblocks_append [simp]: "jblocks (xs @ ys) = jblocks xs @ jblocks ys"
  by (induction xs rule: jblocks.induct) simp_all

lemma first_records_before:
  "\<forall>(at, _) \<in> set xs. at \<le> e \<Longrightarrow> first_records e seen (xs @ ys) = first_records e seen ys"
proof (induction xs)
  case (Cons x xs)
  obtain at r where x: "x = (at, r)" by force
  then show ?case using Cons by (cases r) simp_all
qed simp

lemma first_records_map:
  assumes "e < off" "bits_set n seen S" "list_all (jvalid bs n) recs" "unat lba < n"
  shows "map_of (first_records e seen (with_offsets off recs)) lba =
    (if lba \<in> S then None else map_of (jblocks recs) lba)"
  using assms
proof (induction recs arbitrary: off seen S)
  case (Cons x xs)
  have off: "e < off + length (jrec_bytes x)" using Cons.prems(1) by simp
  show ?case
  proof (cases x)
    case (JEpoch d)
    then show ?thesis using Cons.IH [OF off] Cons.prems by simp
  next
    case (JBlock l p)
    have l: "unat l < n" using Cons.prems(3) JBlock by (simp add: jvalid_def)
    have t: "bits_set n (snd (testSet seen l)) (insert l S)" "bits_test seen l = (l \<in> S)"
      using bits_set_testSet [OF Cons.prems(2) l] Cons.prems(2) l by (simp_all add: bits_set_def)
    then show ?thesis
      using Cons.IH [OF off t(1)] Cons.IH [OF off Cons.prems(2)] Cons.prems JBlock
      by (auto simp: Let_def split_beta insert_absorb)
  qed
qed simp

lemma last_epoch_append: "last_epoch d e (xs @ ys) = last_epoch d (last_epoch d e xs) ys"
  by (induction d e xs rule: last_epoch.induct) simp_all

lemma last_epoch_none: "JEpoch d \<notin> set recs \<Longrightarrow> last_epoch d e (with_offsets off recs) = e"
proof (induction recs arbitrary: off)
  case (Cons x xs)
  then show ?case by (cases x) auto
qed simp

lemma candidate_records:
  assumes "tl_journalPath t \<noteq> []" "tl_file t = Some (journal_file (tl_blockSize t) (tl_blocks t) recs)"
    and "list_all (jvalid (tl_blockSize t) (tl_blocks t)) recs" "bits_for (tl_blocks t) (tl_dirtyBits t)"
    and "k < length recs" "recs ! k = JEpoch d" "JEpoch d \<notin> set (drop (Suc k) recs)"
  obtains m where "journalCandidate d t = Some m"
    "\<And>lba. unat lba < tl_blocks t \<Longrightarrow> map_of m lba = map_of (jblocks (drop (Suc k) recs)) lba"
proof -
  let ?pre = "take k recs" and ?post = "drop (Suc k) recs" and ?z = "replicate (length (tl_dirtyBits t)) 0"
  let ?e = "16 + length (journal_bytes ?pre)"
  have split: "recs = ?pre @ JEpoch d # ?post" using assms(5,6) id_take_nth_drop [of k recs] by simp
  have w: "fst (walkJournal (tl_blockSize t) (tl_blocks t) (journal_file (tl_blockSize t) (tl_blocks t) recs)) =
      with_offsets 16 recs"
    using walkJournal_file [OF assms(3) torn_Nil] by simp
  have o: "with_offsets 16 recs = (with_offsets 16 ?pre @ [(?e, JEpoch d)]) @ with_offsets (?e + 9) ?post"
    by (subst split) simp
  have l: "last_epoch d None (with_offsets 16 recs) = Some ?e"
    unfolding o by (simp add: last_epoch_append last_epoch_none [OF assms(7)])
  have "at \<le> ?e" if mem: "(at, r) \<in> set (with_offsets 16 ?pre)" for at r
  proof -
    obtain j where "at = 16 + length (journal_bytes (take j ?pre))" using with_offsets_nth [OF mem] by blast
    moreover have "length (journal_bytes ?pre) = length (journal_bytes (take j ?pre)) + length (journal_bytes (drop j ?pre))"
      using journal_bytes_simps(3) [of "take j ?pre" "drop j ?pre"] by (metis append_take_drop_id length_append)
    ultimately show ?thesis by simp
  qed
  then have "first_records ?e ?z (with_offsets 16 recs) = first_records ?e ?z (with_offsets (?e + 9) ?post)"
    unfolding o by (intro first_records_before) auto
  moreover have "list_all (jvalid (tl_blockSize t) (tl_blocks t)) ?post"
    using assms(3) by (metis append_take_drop_id list_all_append)
  ultimately have "map_of (first_records ?e ?z (with_offsets 16 recs)) lba = map_of (jblocks ?post) lba"
    if u: "unat lba < tl_blocks t" for lba
    using first_records_map [OF _ bits_set_empty [OF assms(4)] _ u] by simp
  moreover have "journalCandidate d t = Some (first_records ?e ?z (with_offsets 16 recs))"
    using assms(1,2) w l by (simp add: journalCandidate_def Let_def)
  ultimately show ?thesis by (rule that [rotated])
qed

text \<open>\<open>E k\<close> is the image at the epoch that is record \<open>k\<close>.\<close>

definition describes :: "nat \<Rightarrow> nat \<Rightarrow> u8 list \<Rightarrow> jrec list \<Rightarrow> (nat \<Rightarrow> u8 list) \<Rightarrow> bool" where
  "describes bs n img recs E \<longleftrightarrow> (\<forall>k d. k < length recs \<longrightarrow> recs ! k = JEpoch d \<longrightarrow>
     digest_of bs n (E k) = d \<and>
     (\<forall>lba. unat lba < n \<longrightarrow>
        (case map_of (jblocks (drop (Suc k) recs)) lba of Some p \<Rightarrow> p | None \<Rightarrow> block_at bs (unat lba) img) =
          block_at bs (unat lba) (E k)))"

text \<open>Every epoch has a record of the block behind it.\<close>

definition covered :: "jrec list \<Rightarrow> u32 \<Rightarrow> bool" where
  "covered recs lba \<longleftrightarrow> (\<forall>k d. k < length recs \<longrightarrow> recs ! k = JEpoch d \<longrightarrow>
     map_of (jblocks (drop (Suc k) recs)) lba \<noteq> None)"

definition jr_inv :: "nat \<Rightarrow> u8 list \<Rightarrow> disk_timeline \<Rightarrow> jrec list \<Rightarrow> (nat \<Rightarrow> u8 list) \<Rightarrow> bool" where
  "jr_inv bs img t recs E \<longleftrightarrow> (\<exists>img0. tl_inv img0 img t) \<and> order_ok t \<and> tl_blockSize t = bs \<and> bs < 2 ^ 32 \<and>
     tl_blocks t = (length img div bs) mod 2 ^ 32 \<and> tl_journal t \<and> tl_host t = [] \<and> tl_journalPath t \<noteq> [] \<and>
     tl_file t = Some (journal_file bs (tl_blocks t) recs) \<and> list_all (jvalid bs (tl_blocks t)) recs \<and>
     describes bs (tl_blocks t) img recs E \<and>
     (\<forall>lba. unat lba < tl_blocks t \<longrightarrow> bits_test (tl_epochBits t) lba \<longrightarrow> covered recs lba)"

text \<open>The life of a journalled disk: a new journal, writes and saves, restores (whose writes are
  journalled like any other), and a later process that opens the same image and journal again,
  possibly after a crash in the middle of appending a record.\<close>

inductive journal_run :: "nat \<Rightarrow> u8 list \<Rightarrow> disk_timeline \<Rightarrow> jrec list \<Rightarrow> (nat \<Rightarrow> u8 list) \<Rightarrow> bool" for bs where
  jr_new: "bs \<noteq> 0 \<Longrightarrow> bs < 2 ^ 32 \<Longrightarrow> path \<noteq> [] \<Longrightarrow> hf_create h \<Longrightarrow> tl_host t = [] \<Longrightarrow> tl_loadOrder t = [] \<Longrightarrow>
    journal_run bs img (tl_attach h None img (length img) bs path name t) [] E"
| jr_write: "journal_run bs img t recs E \<Longrightarrow> tl_write_ok t (lba, d) \<Longrightarrow> tl_write (lba, d) (img, t) = (img', t') \<Longrightarrow>
    recs' = recs @ (if bits_test (tl_epochBits t) lba then [] else [JBlock lba (block_at bs (unat lba) img)]) \<Longrightarrow>
    journal_run bs img' t' recs' E"
| jr_save: "journal_run bs img t recs E \<Longrightarrow> timeline_save img t = (bytes, t') \<Longrightarrow>
    journal_run bs img t' (recs @ [JEpoch (fst (digest img t))]) (E(length recs := img))"
| jr_load: "journal_run bs img t recs E \<Longrightarrow> timeline_load img t r = (plan, t', r') \<Longrightarrow> journal_run bs img t' recs E"
| jr_commit: "journal_run bs img t recs E \<Longrightarrow> journal_run bs img (commitLoad img t) recs E"
| jr_reopen: "journal_run bs img t recs E \<Longrightarrow> tl_file t = Some f \<Longrightarrow> torn bs (tl_blocks t) f' \<Longrightarrow>
    hf_open h \<Longrightarrow> hf_resize h \<Longrightarrow> hf_reopen h \<Longrightarrow> hf_reopen_compacted h \<Longrightarrow>
    path \<noteq> [] \<Longrightarrow> tl_host t0 = [] \<Longrightarrow> tl_loadOrder t0 = [] \<Longrightarrow>
    t' = tl_attach h (Some (f @ f')) img (length img) bs path name t0 \<Longrightarrow>
    tl_file t' = Some (journal_file bs (tl_blocks t) (drop j recs)) \<Longrightarrow>
    journal_run bs img t' (drop j recs) (\<lambda>k. E (k + j))"


section \<open>Every step keeps the journal's meaning\<close>

lemma describes_append_block:
  assumes "describes bs n img recs E" "n * bs \<le> length img" "unat lba < n" "length d = bs"
    and "recs' = recs @ (if c then [] else [JBlock lba (block_at bs (unat lba) img)])" "c \<longrightarrow> covered recs lba"
  shows "describes bs n (overwrite (unat lba * bs) d img) recs' E"
  unfolding describes_def
proof (intro allI impI)
  fix k e assume k: "k < length recs'" "recs' ! k = JEpoch e"
  have kl: "k < length recs" "recs ! k = JEpoch e"
    using k assms(5) by (auto simp: nth_append less_Suc_eq split: if_splits)
  let ?m = "map_of (jblocks (drop (Suc k) recs))"
  have o: "digest_of bs n (E k) = e" "unat l < n \<Longrightarrow>
      (case ?m l of Some p \<Rightarrow> p | None \<Rightarrow> block_at bs (unat l) img) = block_at bs (unat l) (E k)" for l
    using assms(1) kl by (auto simp: describes_def)
  have m: "map_of (jblocks (drop (Suc k) recs')) l = (case ?m l of Some p \<Rightarrow> Some p
      | None \<Rightarrow> if c \<or> l \<noteq> lba then None else Some (block_at bs (unat lba) img))" for l
    using kl(1) assms(5) by (auto simp: map_add_def split: option.splits)
  have "c \<Longrightarrow> ?m lba \<noteq> None" using assms(6) kl by (auto simp: covered_def)
  moreover have "l \<noteq> lba \<Longrightarrow> unat l < n \<Longrightarrow>
      block_at bs (unat l) (overwrite (unat lba * bs) d img) = block_at bs (unat l) img" for l
    using block_overwrite [of "unat lba" bs img "unat l" d] block_fits [of "unat lba" n bs "length img"]
      block_fits [of "unat l" n bs "length img"] assms(2-4) by simp
  ultimately have "unat l < n \<Longrightarrow> (case map_of (jblocks (drop (Suc k) recs')) l of Some p \<Rightarrow> p
      | None \<Rightarrow> block_at bs (unat l) (overwrite (unat lba * bs) d img)) = block_at bs (unat l) (E k)" for l
    using o(2) [of l] by (cases "l = lba"; cases "?m l") (auto simp: m split: option.splits if_splits)
  then show "digest_of bs n (E k) = e \<and> (\<forall>l. unat l < n \<longrightarrow>
      (case map_of (jblocks (drop (Suc k) recs')) l of Some p \<Rightarrow> p
       | None \<Rightarrow> block_at bs (unat l) (overwrite (unat lba * bs) d img)) = block_at bs (unat l) (E k))"
    using o(1) by blast
qed

lemma covered_append_block:
  assumes "covered recs l \<or> l = lba"
  shows "covered (recs @ [JBlock lba p]) l"
  using assms by (auto simp: covered_def nth_append less_Suc_eq map_add_def split: option.splits)

lemma describes_epoch:
  assumes "describes bs n img recs E" "digest_of bs n img = d"
  shows "describes bs n img (recs @ [JEpoch d]) (E(length recs := img))"
  using assms by (auto simp: describes_def nth_append less_Suc_eq)

lemma describes_drop:
  assumes "describes bs n img recs E"
  shows "describes bs n img (drop j recs) (\<lambda>k. E (k + j))"
  using assms by (auto simp: describes_def add.commute less_diff_conv)

lemma willWrite_journal:
  assumes "tl_attached t" "unat lba < tl_blocks t" "tl_journal t" "tl_host t = []" "tl_file t = Some f"
  shows "tl_journal (willWrite lba cur nxt t)" "tl_host (willWrite lba cur nxt t) = []"
    "tl_file (willWrite lba cur nxt t) =
       Some (f @ (if bits_test (tl_epochBits t) lba then [] else jrec_bytes (JBlock lba cur)))"
  using assms by (simp_all add: willWrite_def testSet_def Let_def journal_put_def)

lemma journalEpoch_journal:
  assumes "tl_journal t" "tl_host t = []" "tl_file t = Some f"
  shows "journalEpoch d t = t\<lparr>tl_file := Some (f @ jrec_bytes (JEpoch d)), tl_epochBits := map (\<lambda>_. 0) (tl_epochBits t)\<rparr>"
  using assms by (simp add: journalEpoch_def journal_put_def Let_def)

lemma timeline_plan_state:
  assumes "timeline_plan img seen snap target t = (m, t')"
  shows "t' = snd (digest img (t\<lparr>tl_loadOrder := map fst snap\<rparr>))"
proof -
  obtain d0 t0 where g: "digest img (t\<lparr>tl_loadOrder := map fst snap\<rparr>) = (d0, t0)" by force
  then show ?thesis
    using assms by (auto simp: timeline_plan_def digestAfter_def Let_def split: if_splits option.splits)
qed

lemma timeline_load_journal:
  assumes "timeline_load img t r = (plan, t', r')"
  shows "tl_journal t' = tl_journal t" "tl_host t' = tl_host t" "tl_file t' = tl_file t"
    "tl_journalPath t' = tl_journalPath t" "tl_epochBits t' = tl_epochBits t"
proof -
  have "t' = t \<or> (\<exists>seen snap target m. timeline_plan img seen snap target t = (m, t'))"
    using assms by (auto simp: timeline_load_def Let_def split: if_splits option.splits prod.splits)
  then have "t' = t \<or> (\<exists>snap. t' = snd (digest img (t\<lparr>tl_loadOrder := snap\<rparr>)))"
    using timeline_plan_state by blast
  then show "tl_journal t' = tl_journal t" "tl_host t' = tl_host t" "tl_file t' = tl_file t"
    "tl_journalPath t' = tl_journalPath t" "tl_epochBits t' = tl_epochBits t"
    by (auto simp: digest_def Let_def split: if_splits)
qed

lemma commitLoad_journal [simp]:
  "tl_journal (commitLoad img t) = tl_journal t" "tl_host (commitLoad img t) = tl_host t"
  "tl_file (commitLoad img t) = tl_file t" "tl_journalPath (commitLoad img t) = tl_journalPath t"
  "tl_epochBits (commitLoad img t) = tl_epochBits t"
  by (simp_all add: commitLoad_def Let_def split: prod.splits)

lemma journal_matches_file:
  assumes "tl_blockSize t < 2 ^ 32" "tl_blocks t < 2 ^ 32"
  shows "journal_matches t (journal_file (tl_blockSize t) (tl_blocks t) recs @ f)"
proof -
  have m: "length kMagic = 8" by (simp add: kMagic_def)
  have "drop 12 (journal_file (tl_blockSize t) (tl_blocks t) recs @ f) = put32 (of_nat (tl_blocks t)) @ journal_bytes recs @ f"
    by (simp add: journal_file_def journal_header_def m)
  then show ?thesis
    using assms by (simp add: journal_matches_def journal_file_def journal_header_def m kHeader_def unat_of_nat_u32)
qed

lemma compact_records:
  assumes "list_all (jvalid (tl_blockSize t) (tl_blocks t)) recs"
    and "hf_reopen_compacted h" "tl_file t = Some (journal_file (tl_blockSize t) (tl_blocks t) recs)"
  shows "\<exists>j \<le> length recs. tl_file (compactJournal h (journal_file (tl_blockSize t) (tl_blocks t) recs) t) =
      Some (journal_file (tl_blockSize t) (tl_blocks t) (drop j recs)) \<and>
    tl_journal (compactJournal h (journal_file (tl_blockSize t) (tl_blocks t) recs) t)"
proof -
  let ?bs = "tl_blockSize t" and ?n = "tl_blocks t"
  let ?w = "with_offsets 16 recs" and ?e = "16 + length (journal_bytes recs)"
  let ?epochs = "[at. (at, r) \<leftarrow> ?w, case r of JEpoch _ \<Rightarrow> True | JBlock _ _ \<Rightarrow> False]"
  let ?cut = "case filter (\<lambda>at. ?e - at \<le> tl_journalCap t div 2) ?epochs of [] \<Rightarrow> ?e | at # _ \<Rightarrow> at"
  have w: "walkJournal ?bs ?n (journal_file ?bs ?n recs) = (?w, ?e)"
    using walkJournal_file [OF assms(1) torn_Nil] by simp
  have "\<exists>j \<le> length recs. ?cut = 16 + length (journal_bytes (take j recs))"
  proof (cases "filter (\<lambda>at. ?e - at \<le> tl_journalCap t div 2) ?epochs")
    case Nil
    then show ?thesis by (intro exI [of _ "length recs"]) simp
  next
    case (Cons at as)
    then have "at \<in> set (filter (\<lambda>at. ?e - at \<le> tl_journalCap t div 2) ?epochs)" by simp
    then obtain r where "(at, r) \<in> set ?w" by auto
    from with_offsets_nth [OF this] obtain j where "j < length recs" "at = 16 + length (journal_bytes (take j recs))" by blast
    then show ?thesis using Cons by (intro exI [of _ j]) simp
  qed
  then obtain j where j: "j \<le> length recs" "?cut = 16 + length (journal_bytes (take j recs))" by blast
  have split: "journal_bytes recs = journal_bytes (take j recs) @ journal_bytes (drop j recs)"
    using journal_bytes_simps(3) [of "take j recs" "drop j recs"] by simp
  have "take (?e - (16 + length (journal_bytes (take j recs))))
      (drop (16 + length (journal_bytes (take j recs))) (journal_file ?bs ?n recs)) = journal_bytes (drop j recs)"
    by (simp add: journal_file_def split)
  then have tk: "take (?e - ?cut) (drop ?cut (journal_file ?bs ?n recs)) = journal_bytes (drop j recs)"
    by (simp only: j(2))
  have c: "compactJournal h (journal_file ?bs ?n recs) t =
      (if hf_compact h then t\<lparr>tl_file := Some (journal_file ?bs ?n (drop j recs))\<rparr> else t)\<lparr>tl_journal := True\<rparr>"
    unfolding compactJournal_def Let_def w prod.case tk journal_file_def [of _ _ "drop j recs", symmetric]
    using assms(2) by simp
  show ?thesis
  proof (cases "hf_compact h")
    case True
    then show ?thesis unfolding c using j(1) by (intro exI [of _ j]) simp
  next
    case False
    then show ?thesis unfolding c using assms(3) by (intro exI [of _ 0]) simp
  qed
qed

lemma attach_journal:
  assumes "bs \<noteq> 0" "path \<noteq> []"
  shows "\<exists>t1. tl_attach h jf img (length img) bs path name t = openJournal h t1 \<and> tl_blockSize t1 = bs \<and>
    tl_blocks t1 = (length img div bs) mod 2 ^ 32 \<and> tl_file t1 = jf \<and> tl_host t1 = tl_host t \<and>
    tl_journalCap t1 = tl_journalCap t \<and> tl_journalPath t1 = path \<and>
    tl_epochBits t1 = replicate (((length img div bs) mod 2 ^ 32 + 63) div 64) 0"
  using assms by (auto simp: tl_attach_def tl_detach_def Let_def)

lemma openJournal_path [simp]: "tl_journalPath (openJournal h t) = tl_journalPath t"
  by (simp add: openJournal_def Let_def dropJournal_def compactJournal_def split: prod.splits)

lemma reopen_journal:
  assumes "bs \<noteq> 0" "bs < 2 ^ 32" "path \<noteq> []" "n = (length img div bs) mod 2 ^ 32" "list_all (jvalid bs n) recs" "torn bs n f'"
    and "hf_open h" "hf_resize h" "hf_reopen h" "hf_reopen_compacted h"
    and t': "t' = tl_attach h (Some (journal_file bs n recs @ f')) img (length img) bs path name t0"
  shows "\<exists>j \<le> length recs. tl_file t' = Some (journal_file bs n (drop j recs)) \<and> tl_journal t' \<and>
    tl_host t' = tl_host t0 \<and> (length (journal_file bs n recs) \<le> tl_journalCap t0 \<longrightarrow> j = 0)"
proof -
  obtain t1 where t1: "t' = openJournal h t1" "tl_blockSize t1 = bs" "tl_blocks t1 = n"
      "tl_file t1 = Some (journal_file bs n recs @ f')" "tl_journalCap t1 = tl_journalCap t0" "tl_host t1 = tl_host t0"
    using attach_journal [OF assms(1,3)] assms(4) t' by metis
  let ?e = "16 + length (journal_bytes recs)" and ?f = "journal_file bs n recs"
  have "n < 2 ^ 32" using assms(4) by simp
  then have m: "journal_matches t1 (?f @ f')" using journal_matches_file [of t1 recs f'] t1(2,3) assms(2) by simp
  have w: "walkJournal bs n (?f @ f') = (with_offsets 16 recs, ?e)" by (rule walkJournal_file [OF assms(5,6)])
  have lf: "length ?f = ?e" by (simp add: journal_file_def)
  let ?t = "t1\<lparr>tl_journal := True, tl_file := Some ?f\<rparr>"
  have "t' = (if tl_journalCap t1 < ?e then compactJournal h ?f ?t else ?t)"
    using t1 m w assms(7-10) lf by (cases "f' = []") (simp_all add: openJournal_def Let_def)
  moreover have "\<exists>j \<le> length recs. tl_file (compactJournal h ?f ?t) = Some (journal_file bs n (drop j recs)) \<and>
      tl_journal (compactJournal h ?f ?t)"
    using compact_records [of ?t recs h] assms(5,10) t1(2,3) by simp
  moreover have "tl_host (compactJournal h ?f ?t) = tl_host t1"
    by (simp add: compactJournal_def Let_def split: prod.splits)
  ultimately show ?thesis using t1(5,6) lf by (auto intro: exI [of _ "0 :: nat"])
qed

lemma jr_inv_fresh:
  assumes "bs \<noteq> 0" "bs < 2 ^ 32" "path \<noteq> []" "tl_loadOrder t = []"
    and t': "t' = tl_attach h jf img (length img) bs path name t"
    and "tl_journal t'" "tl_host t' = []" "tl_file t' = Some (journal_file bs (tl_blocks t') recs)"
    and "list_all (jvalid bs (tl_blocks t')) recs" "describes bs (tl_blocks t') img recs E"
  shows "jr_inv bs img t' recs E"
proof -
  obtain t1 where t1: "t' = openJournal h t1" "tl_journalPath t1 = path"
      "tl_epochBits t1 = replicate (((length img div bs) mod 2 ^ 32 + 63) div 64) 0"
    using attach_journal [OF assms(1,3), of h jf img name t] unfolding t' by blast
  have p: "tl_journalPath t' = path" "tl_epochBits t' = replicate (((length img div bs) mod 2 ^ 32 + 63) div 64) 0"
    using t1 by simp_all
  have a: "tl_inv img img t'" "tl_blockSize t' = bs" "tl_blocks t' = (length img div bs) mod 2 ^ 32"
    unfolding t' by (rule tl_attach_inv [OF assms(1) order_refl])+
  have "tl_loadOrder t' = []" using assms(4) t' by (simp add: tl_attach_def tl_detach_def Let_def)
  moreover have "unat lba < tl_blocks t' \<Longrightarrow> \<not> bits_test (tl_epochBits t') lba" for lba
    unfolding p(2) a(3) [symmetric] by (rule bits_test_replicate)
  ultimately show ?thesis
    using assms(2,3,6-10) a p(1) by (auto simp only: jr_inv_def order_ok_def list.simps distinct.simps)
qed

lemma jr_inv_new:
  assumes "bs \<noteq> 0" "bs < 2 ^ 32" "path \<noteq> []" "hf_create h" "tl_host t = []" "tl_loadOrder t = []"
  shows "jr_inv bs img (tl_attach h None img (length img) bs path name t) [] E"
proof -
  let ?t = "tl_attach h None img (length img) bs path name t"
  obtain t1 where t1: "?t = openJournal h t1" "tl_blockSize t1 = bs" "tl_file t1 = None" "tl_host t1 = []"
      "tl_blocks t1 = (length img div bs) mod 2 ^ 32"
    using attach_journal [OF assms(1,3)] assms(5) by metis
  then have "tl_journal ?t" "tl_host ?t = []" "tl_file ?t = Some (journal_file bs (tl_blocks ?t) [])"
    using assms(4) by (simp_all add: openJournal_def journal_put_def Let_def journal_file_def)
  then show ?thesis
    using assms by (intro jr_inv_fresh [OF assms(1,2,3,6) refl]) (simp_all add: describes_def)
qed

lemma jr_inv_write:
  assumes "jr_inv bs img t recs E" "tl_write_ok t (lba, d)" "tl_write (lba, d) (img, t) = (img', t')"
    and "recs' = recs @ (if bits_test (tl_epochBits t) lba then [] else [JBlock lba (block_at bs (unat lba) img)])"
  shows "jr_inv bs img' t' recs' E"
proof -
  let ?n = "tl_blocks t" and ?c = "bits_test (tl_epochBits t) lba" and ?cur = "block_at bs (unat lba) img"
  obtain img0 where i: "tl_inv img0 img t" using assms(1) by (auto simp: jr_inv_def)
  have g: "tl_attached t" "tl_blockSize t = bs" "unat lba < ?n" "length d = bs" "?n * bs \<le> length img"
      "bits_for ?n (tl_epochBits t)"
    using i assms(1,2) by (auto simp: tl_inv_def tl_sane_def jr_inv_def tl_write_ok_def)
  have fit: "unat lba * bs + bs \<le> length img" using block_fits [OF g(3,5)] .
  have e: "img' = overwrite (unat lba * bs) d img" "t' = willWrite lba ?cur d t"
    using assms(3) g(2) by (auto simp: tl_write_def Let_def)
  have len: "length img' = length img" using fit g(4) by (simp add: e(1))
  have i': "tl_inv img0 img' t'" using tl_write_inv [OF i assms(2)] assms(3) by simp
  have cov: "?c \<longrightarrow> covered recs lba" using assms(1) g(3) by (auto simp: jr_inv_def)
  have "describes bs ?n img' recs' E"
    unfolding e(1) by (intro describes_append_block [OF _ g(5,3,4) assms(4) cov]) (use assms(1) in \<open>unfold jr_inv_def, blast\<close>)
  moreover have "list_all (jvalid bs ?n) recs'"
    using assms(1) g(3) fit by (auto simp: jr_inv_def assms(4) jvalid_def)
  moreover have "tl_journal t'" "tl_host t' = []" "tl_file t' = Some (journal_file bs ?n recs')"
    using willWrite_journal [OF g(1,3)] assms(1) by (auto simp: jr_inv_def e(2) assms(4) journal_file_def)
  moreover have "covered recs' l" if "unat l < ?n" "bits_test (tl_epochBits t') l" for l
  proof -
    have "l = lba \<or> bits_test (tl_epochBits t) l"
      using that(2) assms(1) bits_test_testSet [OF g(6,3)] by (auto simp: e(2) willWrite_log [OF g(1,3)] jr_inv_def)
    then have "covered recs l \<or> l = lba" using that(1) assms(1) by (auto simp: jr_inv_def)
    then show ?thesis using cov covered_append_block [of recs l lba ?cur] by (auto simp: assms(4))
  qed
  ultimately show ?thesis
    using assms(1) i' len by (auto simp: jr_inv_def e(2) order_ok_def)
qed

lemma jr_inv_save:
  assumes "jr_inv bs img t recs E" "timeline_save img t = (bytes, t')"
  shows "jr_inv bs img t' (recs @ [JEpoch (fst (digest img t))]) (E(length recs := img))"
proof -
  obtain img0 where i: "tl_inv img0 img t" using assms(1) by (auto simp: jr_inv_def)
  obtain d t1 where d: "digest img t = (d, t1)" by force
  note e = digest_exact [OF i d]
  have "tl_attached t" using i by (simp add: tl_inv_def tl_sane_def)
  then have t': "t' = t1\<lparr>tl_file := Some (journal_file bs (tl_blocks t) (recs @ [JEpoch d])),
      tl_epochBits := map (\<lambda>_. 0) (tl_epochBits t1)\<rparr>"
    using assms d e journalEpoch_journal [of t1 "journal_file bs (tl_blocks t) recs" d]
    by (simp add: timeline_save_def Let_def jr_inv_def journal_file_def)
  have "bits_for (tl_blocks t) (tl_epochBits t)" using i by (simp add: tl_inv_def tl_sane_def)
  then have z: "unat l < tl_blocks t \<Longrightarrow> \<not> bits_test (map (\<lambda>_. 0) (tl_epochBits t)) l" for l
    using bits_for_index [of "tl_blocks t" "tl_epochBits t" l] by (simp add: bits_test_alt)
  have "describes bs (tl_blocks t) img (recs @ [JEpoch d]) (E(length recs := img))"
  proof (rule describes_epoch)
    show "describes bs (tl_blocks t) img recs E" using assms(1) unfolding jr_inv_def by blast
    show "digest_of bs (tl_blocks t) img = d" using assms(1) e(1) by (auto simp: jr_inv_def fullDigest_def)
  qed
  then show ?thesis
    using assms(1) timeline_save_inv [OF i assms(2)] e z d i
    by (auto simp: jr_inv_def t' order_ok_def jvalid_def)
qed

lemma jr_inv_frame:
  assumes "jr_inv bs img t recs E" "tl_inv img0 img t'" "order_ok t'"
    and "tl_blockSize t' = tl_blockSize t" "tl_blocks t' = tl_blocks t" "tl_journal t' = tl_journal t"
    and "tl_host t' = tl_host t" "tl_file t' = tl_file t" "tl_journalPath t' = tl_journalPath t"
    and "tl_epochBits t' = tl_epochBits t"
  shows "jr_inv bs img t' recs E"
proof -
  have "\<exists>img0. tl_inv img0 img t'" using assms(2) by blast
  then show ?thesis using assms(1) unfolding jr_inv_def assms(4-10) using assms(3) by blast
qed

lemma journal_run_inv: "journal_run bs img t recs E \<Longrightarrow> jr_inv bs img t recs E"
proof (induction rule: journal_run.induct)
  case (jr_new path h t img name E)
  then show ?case by (rule jr_inv_new)
next
  case (jr_write img t recs E lba d img' t' recs')
  show ?case by (rule jr_inv_write [OF jr_write.IH jr_write.hyps(2-4)])
next
  case (jr_save img t recs E bytes t')
  show ?case by (rule jr_inv_save [OF jr_save.IH jr_save.hyps(2)])
next
  case (jr_load img t recs E r plan t' r')
  obtain img0 where i: "tl_inv img0 img t" "order_ok t" using jr_load.IH unfolding jr_inv_def by blast
  note l = timeline_load_inv [OF i jr_load.hyps(2)] and j = timeline_load_journal [OF jr_load.hyps(2)]
  show ?case
    by (rule jr_inv_frame [OF jr_load.IH]) (use l j in blast)+
next
  case (jr_commit img t recs E)
  obtain img0 where i: "tl_inv img0 img t" "order_ok t" using jr_commit.IH unfolding jr_inv_def by blast
  note l = commitLoad_inv [OF i]
  have "order_ok (commitLoad img t)" using l(3) by (simp add: order_ok_def)
  then show ?case
    by (rule jr_inv_frame [OF jr_commit.IH l(1) _ l(4,5)]) simp_all
next
  case (jr_reopen img t recs E f f' h path t0 t' name j)
  obtain img0 where i: "tl_inv img0 img t" "tl_blockSize t = bs" using jr_reopen.IH unfolding jr_inv_def by blast
  have b: "bs < 2 ^ 32" "tl_blocks t = (length img div bs) mod 2 ^ 32" "list_all (jvalid bs (tl_blocks t)) recs"
      "describes bs (tl_blocks t) img recs E" "tl_file t = Some (journal_file bs (tl_blocks t) recs)"
    using jr_reopen.IH unfolding jr_inv_def by blast+
  have z: "bs \<noteq> 0" using i by (auto simp: tl_inv_def tl_sane_def tl_attached_def)
  have f: "f = journal_file bs (tl_blocks t) recs" using b(5) jr_reopen.hyps(2) by simp
  have "tl_journal t'" "tl_host t' = []"
    using reopen_journal [OF z b(1) jr_reopen.hyps(8) b(2,3) jr_reopen.hyps(3,4,5,6,7) jr_reopen.hyps(11) [unfolded f]] jr_reopen.hyps(9)
    by auto
  moreover have "tl_blocks t' = tl_blocks t"
    unfolding jr_reopen.hyps(11) using tl_attach_inv(3) [OF z order_refl] b(2) by simp
  moreover have "list_all (jvalid bs (tl_blocks t)) (drop j recs)"
    using b(3) by (metis append_take_drop_id list_all_append)
  ultimately show ?case
    using jr_reopen.hyps(12) describes_drop [OF b(4), of j]
    by (intro jr_inv_fresh [OF z b(1) jr_reopen.hyps(8,10,11)]) simp_all
qed


section \<open>Properties\<close>

text \<open>C4: rewinding across processes: whatever writes, saves, restores, crashes and reopenings follow,
  as long as the host takes the journal's own writes (otherwise the code drops the journal), the journal's latest epoch with a digest is found, its digest is that of the image when it was
  marked, and writing the candidate's blocks gives that image back, block for block.\<close>

theorem journal_rewind:
  assumes "journal_run bs img t recs E" "k < length recs" "recs ! k = JEpoch d" "JEpoch d \<notin> set (drop (Suc k) recs)"
  shows "\<exists>m. journalCandidate d t = Some m \<and> digest_of bs (tl_blocks t) (E k) = d \<and>
    (\<forall>b < tl_blocks t. block_at bs b (apply_blocks bs m img) = block_at bs b (E k))"
proof -
  have i: "jr_inv bs img t recs E" using assms(1) by (rule journal_run_inv)
  then obtain img0 where i0: "tl_inv img0 img t" "tl_blockSize t = bs" "tl_journalPath t \<noteq> []"
      "tl_file t = Some (journal_file bs (tl_blocks t) recs)" "list_all (jvalid bs (tl_blocks t)) recs"
      "describes bs (tl_blocks t) img recs E"
    unfolding jr_inv_def by blast
  have s: "bits_for (tl_blocks t) (tl_dirtyBits t)" "tl_blocks t * bs \<le> length img" "tl_blocks t < 2 ^ 32"
    using i0(1,2) by (auto simp: tl_inv_def tl_sane_def)
  obtain m where m: "journalCandidate d t = Some m"
    "\<And>lba. unat lba < tl_blocks t \<Longrightarrow> map_of m lba = map_of (jblocks (drop (Suc k) recs)) lba"
    using candidate_records [of t recs k d] i0 s(1) assms(2-4) by metis
  have ok: "blocks_ok bs (tl_blocks t) m" using candidate_ok [OF m(1) s(1)] i0(2) by simp
  have "block_at bs b (apply_blocks bs m img) = block_at bs b (E k)" if b: "b < tl_blocks t" for b
  proof -
    have u: "unat (of_nat b :: u32) = b" using b s(3) by (intro unat_of_nat_u32) simp
    show ?thesis
      using block_apply_blocks [OF s(2) ok, of "of_nat b"] m(2) [of "of_nat b"] i0(6) assms(2,3) b
      by (simp add: u describes_def)
  qed
  moreover have "digest_of bs (tl_blocks t) (E k) = d" using i0(6) assms(2,3) by (simp add: describes_def)
  ultimately show ?thesis using m(1) by blast
qed

definition demo_journal :: disk_timeline where
  "demo_journal = tl_attach demo_host None [1, 2, 3, 4] (length [1, 2, 3, 4 :: u8]) 2 ''d'' [] timeline_init"

lemma demo_journal_run: "journal_run 2 [1, 2, 3, 4] demo_journal [] (\<lambda>_. [])"
  unfolding demo_journal_def by (rule jr_new) (simp_all add: demo_host_def timeline_init_def)

text \<open>A save, then a write of block 1: the journal rewinds to the saved content.\<close>

theorem journal_rewind_witness:
  "let t1 = snd (timeline_save [1, 2, 3, 4] demo_journal);
       d = fst (digest [1, 2, 3, 4] demo_journal);
       (img2, t2) = tl_write (1, [8, 9]) ([1, 2, 3, 4], t1)
   in \<exists>m. journalCandidate d t2 = Some m \<and> block_at 2 1 (apply_blocks 2 m img2) = [3, 4]"
proof -
  let ?t1 = "snd (timeline_save [1, 2, 3, 4] demo_journal)" and ?d = "fst (digest [1, 2, 3, 4] demo_journal)"
  let ?w = "tl_write (1, [8, 9]) ([1, 2, 3, 4], ?t1)"
  let ?c = "if bits_test (tl_epochBits ?t1) 1 then [] else [JBlock 1 (block_at 2 (unat (1 :: u32)) [1, 2, 3, 4])]"
  have r1: "journal_run 2 [1, 2, 3, 4] ?t1 [JEpoch ?d] ((\<lambda>_. [])(0 := [1, 2, 3, 4]))"
    using jr_save [OF demo_journal_run prod.collapse [symmetric]] by simp
  have n: "tl_blocks ?t1 = 2" "tl_blockSize ?t1 = 2"
    using journal_run_inv [OF r1] by (simp_all add: jr_inv_def)
  have "tl_write_ok ?t1 (1, [8, 9])" by (simp add: tl_write_ok_def n)
  from jr_write [OF r1 this prod.collapse [symmetric] refl]
  have r2: "journal_run 2 (fst ?w) (snd ?w) ([JEpoch ?d] @ ?c) ((\<lambda>_. [])(0 := [1, 2, 3, 4]))" .
  have n2: "tl_blocks (snd ?w) = 2" using journal_run_inv [OF r2] n by (simp add: tl_write_def Let_def)
  have "\<exists>m. journalCandidate ?d (snd ?w) = Some m \<and> digest_of 2 (tl_blocks (snd ?w)) (((\<lambda>_. [])(0 := [1, 2, 3, 4])) (0 :: nat)) = ?d \<and>
      (\<forall>b < tl_blocks (snd ?w). block_at 2 b (apply_blocks 2 m (fst ?w)) = block_at 2 b (((\<lambda>_. [])(0 := [1, 2, 3, 4])) (0 :: nat)))"
    by (rule journal_rewind [OF r2]) simp_all
  then obtain m where m: "journalCandidate ?d (snd ?w) = Some m"
      "\<forall>b < 2. block_at 2 b (apply_blocks 2 m (fst ?w)) = block_at 2 b [1, 2, 3, 4]"
    unfolding n2 by auto
  have "block_at 2 1 (apply_blocks 2 m (fst ?w)) = block_at 2 1 [1, 2, 3, 4]" using m(2) by simp
  then have "block_at 2 1 (apply_blocks 2 m (fst ?w)) = [3, 4]" by (simp add: block_at_def)
  then show ?thesis using m(1) unfolding Let_def split_beta by blast
qed

text \<open>C26: reopening: a process that finds the journal with a torn tail, the front of a record whose
  append a crash cut short, cuts the tail and keeps every complete record; only a file over the
  cap loses records, and then exactly a prefix of them.\<close>

theorem journal_reopen_keeps:
  assumes "journal_run bs img t recs E" "torn bs (tl_blocks t) f'" "path \<noteq> []"
    and "hf_open h" "hf_resize h" "hf_reopen h" "hf_reopen_compacted h"
    and "t' = tl_attach h (Some (journal_file bs (tl_blocks t) recs @ f')) img (length img) bs path name t0"
  shows "tl_file t = Some (journal_file bs (tl_blocks t) recs) \<and>
    (\<exists>j \<le> length recs. tl_file t' = Some (journal_file bs (tl_blocks t) (drop j recs)) \<and> tl_journal t' \<and>
      (length (journal_file bs (tl_blocks t) recs) \<le> tl_journalCap t0 \<longrightarrow> j = 0))"
proof -
  have i: "jr_inv bs img t recs E" using assms(1) by (rule journal_run_inv)
  then have b: "bs \<noteq> 0" "bs < 2 ^ 32" "tl_blocks t = (length img div bs) mod 2 ^ 32"
      "list_all (jvalid bs (tl_blocks t)) recs" "tl_file t = Some (journal_file bs (tl_blocks t) recs)"
    by (auto simp: jr_inv_def tl_inv_def tl_sane_def tl_attached_def)
  then show ?thesis using reopen_journal [OF b(1,2) assms(3) b(3,4) assms(2,4-8)] by blast
qed

theorem journal_reopen_keeps_witness:
  "tl_journal (tl_attach demo_host (Some (journal_file 2 2 [] @ [0x45, 7])) [1, 2, 3, 4] (length [1, 2, 3, 4 :: u8]) 2 ''d'' []
     timeline_init)"
proof -
  have n: "tl_blocks demo_journal = 2" using journal_run_inv [OF demo_journal_run] by (simp add: jr_inv_def)
  have "torn 2 2 [0x45, 7]"
    unfolding torn_def by (intro exI [of _ "JEpoch 7"] exI [of _ 2]) (simp add: jvalid_def put64_def upt_conv_Cons)
  then have "tl_file demo_journal = Some (journal_file 2 (tl_blocks demo_journal) []) \<and>
      (\<exists>j \<le> length ([] :: jrec list). tl_file (tl_attach demo_host (Some (journal_file 2 (tl_blocks demo_journal) [] @ [0x45, 7]))
          [1, 2, 3, 4] (length [1, 2, 3, 4 :: u8]) 2 ''d'' [] timeline_init) =
        Some (journal_file 2 (tl_blocks demo_journal) (drop j [])) \<and>
      tl_journal (tl_attach demo_host (Some (journal_file 2 (tl_blocks demo_journal) [] @ [0x45, 7]))
          [1, 2, 3, 4] (length [1, 2, 3, 4 :: u8]) 2 ''d'' [] timeline_init) \<and>
      (length (journal_file 2 (tl_blocks demo_journal) []) \<le> tl_journalCap timeline_init \<longrightarrow> j = 0))"
    by (intro journal_reopen_keeps [OF demo_journal_run _ _ _ _ _ _ refl]) (simp_all add: demo_host_def n)
  then show ?thesis unfolding n by blast
qed

end
