(* ===== verification/Scsi_Medium.thy ===== *)
theory Scsi_Medium
  imports Disk_Timeline Scsi_Bus
begin

text \<open>
  The medium of a SCSI disk or CD-ROM target (\<^verbatim>\<open>src/src/ScsiDisk.h\<close>,
  \<^verbatim>\<open>src/src/ScsiDisk.cpp\<close>): the target's state, how an image is recognised, wrapped and
  mounted, reading and storing blocks with the disk history and the write-back file, ejecting, the
  CD audio transport, and the fields of the save state.

  The host's file system is an argument of the operations that open files: what reading the image
  gives (\<open>image_file\<close>), the files by path among which the driver template is searched, a cue sheet's
  disc, and whether the image file can be opened for writing.  The write-back stream is the list of
  bytes of the file \<open>sd_file\<close> with the outcomes of its writes in \<open>sd_host\<close>.  The calls into the sound
  and CD-audio sinks are recorded in \<open>sd_events\<close>; the floating-point de-emphasis filter is not
  modelled, only whether a sector passes through it.

  What is shown: a store is a sequence of the block writes the disk history is proved for, and a read
  gives back what it put; a CD audio play moves at its exact rate however time is cut.
\<close>

unbundle bit_operations_syntax

section \<open>Recognising an image\<close>

definition text_bytes :: "string \<Rightarrow> u8 list" where
  "text_bytes s = map (\<lambda>c. of_nat (of_char c)) s"

definition kBlockSize :: nat where "kBlockSize = 512"

definition kFacadePrefixBlocks :: nat where "kFacadePrefixBlocks = 96"

definition be16_at :: "u8 list \<Rightarrow> nat \<Rightarrow> nat" where
  "be16_at p i = unat (byte_at p i) * 256 + unat (byte_at p (i + 1))"

definition be32_at :: "u8 list \<Rightarrow> nat \<Rightarrow> u32" where
  "be32_at p i = push_bit 24 (ucast (byte_at p i)) OR push_bit 16 (ucast (byte_at p (i + 1))) OR
     push_bit 8 (ucast (byte_at p (i + 2))) OR ucast (byte_at p (i + 3))"

definition be32_bytes :: "u32 \<Rightarrow> u8 list" where
  "be32_bytes v = [ucast (drop_bit 24 v), ucast (drop_bit 16 v), ucast (drop_bit 8 v), ucast v]"

definition be16_bytes :: "16 word \<Rightarrow> u8 list" where
  "be16_bytes v = [ucast (drop_bit 8 v), ucast v]"

definition scsiAppleImageBlockSize :: "u8 list \<Rightarrow> nat" where
  "scsiAppleImageBlockSize prefix =
     (if length prefix < 1026 then 0
      else if take 2 prefix = text_bytes ''ER'' then
        let sb = be16_at prefix 2 in if sb = 512 \<or> sb = 2048 then sb else 0
      else if take 2 (drop 1024 prefix) = text_bytes ''BD'' then 512
      else 0)"

definition looksBareHfs :: "u8 list \<Rightarrow> bool" where
  "looksBareHfs img \<longleftrightarrow>
     2 \<le> length img \<and> take 2 img = text_bytes ''LK'' \<or>
     0x402 \<le> length img \<and> take 2 (drop 0x400 img) = text_bytes ''BD'' \<and> take 2 img \<noteq> text_bytes ''ER''"

text \<open>The type of the partition map entry at offset \<open>b\<close>: a field of 32 bytes that a NUL may end.\<close>

definition part_type :: "u8 list \<Rightarrow> nat \<Rightarrow> u8 list" where
  "part_type img b = takeWhile (\<lambda>c. c \<noteq> 0) (take 32 (drop (b + 48) img))"

fun find_hfs :: "u8 list \<Rightarrow> nat list \<Rightarrow> u32 \<times> u32" where
  "find_hfs img [] = (0, 0)"
| "find_hfs img (i # is) =
     (let b = i * 512
      in if length img < b + 80 \<or> take 2 (drop b img) \<noteq> text_bytes ''PM'' then (0, 0)
         else if part_type img b \<noteq> text_bytes ''Apple_HFS'' then find_hfs img is
         else (be32_at img (b + 8), be32_at img (b + 12)))"

definition unwrapDriverless512Dump :: "u8 list \<Rightarrow> u8 list option" where
  "unwrapDriverless512Dump img =
     (if length img < 0x600 \<or> take 2 img \<noteq> text_bytes ''ER'' \<or> be16_at img 2 \<noteq> 512 \<or> be16_at img 0x10 \<noteq> 0
      then None
      else
        let (start, len) = find_hfs img [1..<64]
        in if start = 0 \<or> len = 0 then None
           else
             let off = unat start * 512; bytes = unat len * 512
             in if length img \<le> off then None
                else
                  let bytes = (if length img < off + bytes then length img - off else bytes)
                  in if bytes < 0x402 \<or> take 2 (drop (off + 0x400) img) \<noteq> text_bytes ''BD'' then None
                     else Some (take bytes (drop off img)))"

definition mode1_sync :: "u8 list" where
  "mode1_sync = 0 # replicate 10 0xFF @ [0]"

definition deframeMode1_2352 :: "u8 list \<Rightarrow> u8 list option" where
  "deframeMode1_2352 img =
     (if length img < 2352 \<or> length img mod 2352 \<noteq> 0 \<or> take 12 img \<noteq> mode1_sync then None
      else Some (concat (map (\<lambda>i. take 2048 (drop (i * 2352 + 16) img)) [0..<length img div 2352])))"


section \<open>The target\<close>

datatype scsi_kind = Kind_Disk | Kind_Cdrom | Kind_Removable

text \<open>\<open>Audio_Unnamed\<close> is a byte no enumerator has, which a damaged state can hold.\<close>

datatype cd_audio = Audio_Stopped | Audio_Playing | Audio_Paused | Audio_Completed | Audio_Unnamed u8

record cd_track =
  ct_number :: u8
  ct_audio :: bool
  ct_startLba :: u32
  ct_extentLba :: u32
  ct_flags :: u8

definition adrControl :: "cd_track \<Rightarrow> u8" where
  "adrControl t = 0x10 OR ct_flags t OR (if ct_audio t then 0 else 0x04)"

text \<open>The calls a target makes into its sinks; \<open>Ev_sector pre raw\<close> is a raw sector handed over,
  through the de-emphasis filter when \<open>pre\<close>.\<close>

datatype scsi_event =
    Ev_motor bool bool
  | Ev_step int
  | Ev_volume u8 u8
  | Ev_sector bool "u8 list"
  | Ev_audio_stopped
  | Ev_deemphasis_reset

record scsi_disk =
  sd_ddmTemplate :: string
  sd_ownInquiry :: bool
  sd_tracks :: "cd_track list"
  sd_discLba :: u32
  sd_audio :: cd_audio
  sd_audioLba :: u32
  sd_audioEnd :: u32
  sd_audioFrac :: nat
  sd_audioCycAcc :: int
  sd_cdAudio :: bool
  sd_cd :: "u32 \<Rightarrow> u8 list option"
  sd_image :: "u8 list"
  sd_file :: "u8 list option"
  sd_host :: "nat option list"
  sd_writeBack :: bool
  sd_kind :: scsi_kind
  sd_attached :: bool
  sd_audioOnly :: bool
  sd_dataStartLba :: u32
  sd_unitAttention :: bool
  sd_blocks :: u32
  sd_hfsPrefixBlocks :: u32
  sd_senseKey :: u8
  sd_senseAsc :: u8
  sd_senseAscq :: u8
  sd_identifyLun :: u8
  sd_sound :: bool
  sd_timeline :: disk_timeline
  sd_readCommands :: int
  sd_readBlocks :: int
  sd_writeCommands :: int
  sd_writeBlocks :: int
  sd_events :: "scsi_event list"

definition scsi_disk_init :: scsi_disk where
  "scsi_disk_init = \<lparr>sd_ddmTemplate = [], sd_ownInquiry = False, sd_tracks = [], sd_discLba = 0, sd_audio = Audio_Stopped,
     sd_audioLba = 0, sd_audioEnd = 0, sd_audioFrac = 0, sd_audioCycAcc = 0, sd_cdAudio = False,
     sd_cd = (\<lambda>_. None), sd_image = [], sd_file = None, sd_host = [], sd_writeBack = False,
     sd_kind = Kind_Disk, sd_attached = False, sd_audioOnly = False, sd_dataStartLba = 0,
     sd_unitAttention = False, sd_blocks = 0, sd_hfsPrefixBlocks = 0, sd_senseKey = 0, sd_senseAsc = 0,
     sd_senseAscq = 0, sd_identifyLun = kNoIdentify, sd_sound = False, sd_timeline = timeline_init,
     sd_readCommands = 0, sd_readBlocks = 0, sd_writeCommands = 0, sd_writeBlocks = 0, sd_events = []\<rparr>"

definition sd_isCdrom :: "scsi_disk \<Rightarrow> bool" where
  "sd_isCdrom d \<longleftrightarrow> sd_kind d \<noteq> Kind_Disk"

definition mediumPresent :: "scsi_disk \<Rightarrow> bool" where
  "mediumPresent d \<longleftrightarrow> sd_blocks d \<noteq> 0"

definition sd_blockSize :: "scsi_disk \<Rightarrow> nat" where
  "sd_blockSize d = (if sd_kind d = Kind_Cdrom then 2048 else 512)"

definition sd_present :: "scsi_disk \<Rightarrow> bool" where
  "sd_present d = (if sd_kind d = Kind_Disk then sd_blocks d \<noteq> 0 else sd_attached d)"

definition discLoaded :: "scsi_disk \<Rightarrow> bool" where
  "discLoaded d \<longleftrightarrow> sd_blocks d \<noteq> 0 \<or> sd_audioOnly d"

definition dataEndLba :: "scsi_disk \<Rightarrow> nat" where
  "dataEndLba d = unat (sd_dataStartLba d) + unat (sd_blocks d)"

definition setSense :: "u8 \<Rightarrow> u8 \<Rightarrow> scsi_disk \<Rightarrow> scsi_disk" where
  "setSense key asc d = d\<lparr>sd_senseKey := key, sd_senseAsc := asc, sd_senseAscq := 0\<rparr>"

definition sd_selectLun :: "u8 \<Rightarrow> scsi_disk \<Rightarrow> scsi_disk" where
  "sd_selectLun lun d = d\<lparr>sd_identifyLun := lun\<rparr>"

definition sd_event :: "scsi_event \<Rightarrow> scsi_disk \<Rightarrow> scsi_disk" where
  "sd_event e d = d\<lparr>sd_events := sd_events d @ [e]\<rparr>"


section \<open>Reading and storing blocks\<close>

text \<open>\<open>n\<close> bytes of the image from an offset, zero where the image has ended.\<close>

definition image_bytes :: "nat \<Rightarrow> nat \<Rightarrow> u8 list \<Rightarrow> u8 list" where
  "image_bytes off n img = vec_resize n (take n (drop off img))"

definition sd_motor_step :: "u32 \<Rightarrow> scsi_disk \<Rightarrow> scsi_disk" where
  "sd_motor_step lba d =
     (if sd_sound d then sd_event (Ev_step (uint (drop_bit 11 lba))) (sd_event (Ev_motor True True) d) else d)"

definition sd_read :: "u32 \<Rightarrow> u32 \<Rightarrow> scsi_disk \<Rightarrow> u8 list \<times> scsi_disk" where
  "sd_read lba count d =
     (let d = d\<lparr>sd_readCommands := sd_readCommands d + 1, sd_readBlocks := sd_readBlocks d + uint count\<rparr>
      in if sd_kind d = Kind_Cdrom then
           if lba < sd_dataStartLba d then (replicate (unat count * 2048) 0, d)
           else (image_bytes (unat (lba - sd_dataStartLba d) * 2048) (unat count * 2048) (sd_image d), d)
         else
           (image_bytes (unat lba * kBlockSize) (unat count * kBlockSize) (sd_image d), sd_motor_step lba d))"

text \<open>The history of a store, block by block: the last block may be written in part and keeps its
  tail.\<close>

function store_history :: "u32 \<Rightarrow> nat \<Rightarrow> nat \<Rightarrow> nat \<Rightarrow> u8 list \<Rightarrow> u8 list \<Rightarrow> disk_timeline \<Rightarrow> disk_timeline" where
  "store_history lba off w at img data t =
     (if at < w then
        let n = (if w - at < kBlockSize then w - at else kBlockSize);
            cur = take kBlockSize (drop (off + at) img);
            src = take n (drop at data) @ drop n cur
        in store_history lba off w (at + kBlockSize) img data
             (willWrite (lba + of_nat (at div kBlockSize)) cur src t)
      else t)"
  by pat_completeness auto

termination store_history
  by (relation "measure (\<lambda>(lba, off, w, at, img, data, t). w - at)") (auto simp: kBlockSize_def)

declare store_history.simps [simp del]

text \<open>A positioned write into a host file and its outcome.\<close>

definition file_put :: "nat \<Rightarrow> u8 list \<Rightarrow> u8 list \<Rightarrow> u8 list" where
  "file_put off bs f = take off f @ replicate (off - length f) 0 @ bs @ drop (off + length bs) f"

definition sd_file_write :: "nat \<Rightarrow> u8 list \<Rightarrow> scsi_disk \<Rightarrow> scsi_disk" where
  "sd_file_write off bs d =
     (let f = (case sd_file d of None \<Rightarrow> [] | Some f \<Rightarrow> f)
      in case sd_host d of
           Some k # hs \<Rightarrow> d\<lparr>sd_file := Some (file_put off (take k bs) f), sd_host := hs, sd_writeBack := False\<rparr>
         | None # hs \<Rightarrow> d\<lparr>sd_file := Some (file_put off bs f), sd_host := hs\<rparr>
         | [] \<Rightarrow> d\<lparr>sd_file := Some (file_put off bs f)\<rparr>)"

text \<open>The part of a store that reaches the backing file: a prefix that exists in memory only is
  left out.\<close>

definition sd_write_back :: "u32 \<Rightarrow> u32 \<Rightarrow> nat \<Rightarrow> u8 list \<Rightarrow> scsi_disk \<Rightarrow> scsi_disk" where
  "sd_write_back lba count w data d =
     (let p = sd_hfsPrefixBlocks d
      in if p \<noteq> 0 \<and> lba < p then
           let skip = p - lba
           in if count \<le> skip then d
              else let skipBytes = unat skip * kBlockSize
                   in if w \<le> skipBytes then d
                      else sd_file_write 0 (take (w - skipBytes) (drop skipBytes data)) d
         else
           sd_file_write (if p \<noteq> 0 then unat (lba - p) * kBlockSize else unat lba * kBlockSize) (take w data) d)"

definition sd_store :: "u32 \<Rightarrow> u32 \<Rightarrow> u8 list \<Rightarrow> scsi_disk \<Rightarrow> scsi_disk" where
  "sd_store lba count data d =
     (let off = unat lba * kBlockSize; n = unat count * kBlockSize
      in if length (sd_image d) \<le> off then d
         else
           let avail = length (sd_image d) - off;
               w = (if n < avail then n else avail);
               w = (if length data < w then length data else w);
               d = (if tl_attached (sd_timeline d)
                    then d\<lparr>sd_timeline := store_history lba off w 0 (sd_image d) data (sd_timeline d)\<rparr> else d);
               d = d\<lparr>sd_image := overwrite off (take w data) (sd_image d)\<rparr>
           in if \<not> sd_writeBack d \<or> w = 0 then d else sd_write_back lba count w data d)"

definition sd_write :: "u32 \<Rightarrow> u32 \<Rightarrow> u8 list \<Rightarrow> scsi_disk \<Rightarrow> scsi_disk" where
  "sd_write lba count data d =
     (let d = sd_motor_step lba d;
          d = d\<lparr>sd_writeCommands := sd_writeCommands d + 1, sd_writeBlocks := sd_writeBlocks d + uint count\<rparr>
      in sd_store lba count data d)"

definition hostWrite :: "u32 \<Rightarrow> u8 list \<Rightarrow> u32 \<Rightarrow> scsi_disk \<Rightarrow> scsi_disk" where
  "hostWrite lba data count d = sd_store lba count (take (unat count * kBlockSize) data) d"


section \<open>Wrapping a bare volume\<close>

definition ddm_has_6A :: "nat \<Rightarrow> u8 list \<Rightarrow> bool" where
  "ddm_has_6A count head =
     list_ex (\<lambda>i. 0x12 + i * 8 + 8 \<le> kBlockSize \<and> be16_at head (0x12 + i * 8 + 6) = 0x6A) [0..<count]"

definition ddm_add_6A :: "u8 list \<Rightarrow> u8 list" where
  "ddm_add_6A head =
     (let count = be16_at head 0x10
      in if \<not> ddm_has_6A count head \<and> 1 \<le> count \<and> 0x12 + count * 8 + 8 \<le> kBlockSize then
           let dst = 0x12 + count * 8;
               head = overwrite dst (take 8 (drop 0x12 head)) head;
               head = head[dst + 6 := 0x00, dst + 7 := 0x6A]
           in overwrite 0x10 (be16_bytes (of_nat (count + 1))) head
         else head)"

fun patch_parts :: "u32 \<Rightarrow> nat list \<Rightarrow> u8 list \<Rightarrow> u8 list" where
  "patch_parts hfsBlocks [] head = head"
| "patch_parts hfsBlocks (i # is) head =
     (let b = i * kBlockSize
      in if length head < b + 88 \<or> take 2 (drop b head) \<noteq> text_bytes ''PM'' then head
         else patch_parts hfsBlocks is
           (if part_type head b = text_bytes ''Apple_HFS'' then
              overwrite (b + 84) (be32_bytes hfsBlocks)
                (overwrite (b + 12) (be32_bytes hfsBlocks)
                  (overwrite (b + 8) (be32_bytes (of_nat kFacadePrefixBlocks)) head))
            else head))"

definition kFacadePrefixBytes :: nat where "kFacadePrefixBytes = kFacadePrefixBlocks * kBlockSize"

text \<open>What the host knows when a medium is mounted: its files by path, the directory of the image as an
  absolute path (where there is one), whether the image can be opened for writing, and the journal.\<close>

record mount_host =
  mh_lookup :: "string \<Rightarrow> u8 list option"
  mh_dir :: "string option"
  mh_writable :: bool
  mh_files :: host_files
  mh_journal :: "u8 list option"
  mh_path :: string
  mh_name :: string

definition loadTemplateHead :: "u8 list option \<Rightarrow> u8 list option" where
  "loadTemplateHead contents =
     (case contents of
        None \<Rightarrow> None
      | Some bytes \<Rightarrow>
          if length bytes < kFacadePrefixBytes \<or> take 2 bytes \<noteq> text_bytes ''ER'' then None
          else Some (take kFacadePrefixBytes bytes))"

definition path_join :: "string \<Rightarrow> string \<Rightarrow> string" where
  "path_join dir name = (if dir = [] \<or> last dir = CHR 0x2F then dir @ name else dir @ CHR 0x2F # name)"

definition ddm_candidates :: "string option \<Rightarrow> string \<Rightarrow> string list" where
  "ddm_candidates dir configured =
     (if configured \<noteq> [] then [configured] else []) @
     (case dir of
        None \<Rightarrow> []
      | Some dir \<Rightarrow> [path_join dir ''HD20SC.vhd'', path_join dir ''boot.vhd'', path_join dir ''scsi_ddm_template.vhd'']) @
     [''hdv/HD20SC.vhd'', ''../hdv/HD20SC.vhd'', ''hdv/boot.vhd'', ''../hdv/boot.vhd'',
      ''hdv/scsi_ddm_template.vhd'', ''../hdv/scsi_ddm_template.vhd'']"

fun first_template :: "(string \<Rightarrow> u8 list option) \<Rightarrow> string list \<Rightarrow> u8 list option" where
  "first_template files [] = None"
| "first_template files (p # ps) =
     (case loadTemplateHead (files p) of Some head \<Rightarrow> Some head | None \<Rightarrow> first_template files ps)"

definition findDdmTemplate :: "mount_host \<Rightarrow> string \<Rightarrow> u8 list option" where
  "findDdmTemplate m configured = first_template (mh_lookup m) (ddm_candidates (mh_dir m) configured)"

definition applyFlatHfsFacade :: "mount_host \<Rightarrow> scsi_disk \<Rightarrow> bool \<times> scsi_disk" where
  "applyFlatHfsFacade m d =
     (if \<not> looksBareHfs (sd_image d) \<or> length (sd_image d) mod kBlockSize \<noteq> 0 then (False, d)
      else case findDdmTemplate m (sd_ddmTemplate d) of
        None \<Rightarrow> (False, d)
      | Some head \<Rightarrow>
          let hfsBlocks = of_nat (length (sd_image d) div kBlockSize) :: u32;
              total = of_nat kFacadePrefixBlocks + hfsBlocks;
              head = overwrite 4 (be32_bytes total) head;
              head = ddm_add_6A head;
              head = patch_parts hfsBlocks [1..<64] head
          in (True, d\<lparr>sd_image := head @ sd_image d, sd_blocks := total,
                      sd_hfsPrefixBlocks := of_nat kFacadePrefixBlocks\<rparr>))"


section \<open>Mounting, ejecting and closing\<close>

definition attachTimeline :: "mount_host \<Rightarrow> scsi_disk \<Rightarrow> scsi_disk" where
  "attachTimeline m d =
     (if sd_blocks d = 0 then d\<lparr>sd_timeline := tl_detach (sd_timeline d)\<rparr>
      else d\<lparr>sd_timeline := tl_attach (mh_files m) (mh_journal m) (sd_image d) (unat (sd_blocks d) * kBlockSize)
               kBlockSize (if sd_writeBack d then mh_path m @ ''.pomundo'' else [])
               (''SCSI '' @ mh_name m) (sd_timeline d)\<rparr>)"

text \<open>Mounting a disk.  \<open>writeBack\<close> is the caller's wish after \<^verbatim>\<open>routeWritableOpen\<close> has withdrawn it for a
  reference image without a work copy.  What the host gives for the image file: it cannot be opened; it has a length but reading it stops
  early, after some bytes; or all its bytes.\<close>

datatype image_file = No_file | Read_error nat "u8 list" | File_bytes "u8 list"

definition sd_open :: "mount_host \<Rightarrow> image_file \<Rightarrow> bool \<Rightarrow> scsi_disk \<Rightarrow> bool \<times> scsi_disk" where
  "sd_open m src writeBack d =
     (case src of
        No_file \<Rightarrow> (False, d)
      | Read_error n got \<Rightarrow> (False, d\<lparr>sd_image := overwrite 0 (take n got) (vec_resize n (sd_image d))\<rparr>)
      | File_bytes bytes \<Rightarrow>
          let d = d\<lparr>sd_image := bytes, sd_hfsPrefixBlocks := 0, sd_file := None,
                    sd_timeline := tl_detach (sd_timeline d), sd_writeBack := False\<rparr>;
              (img, writeBack) = (case unwrapDriverless512Dump bytes of Some hfs \<Rightarrow> (hfs, False) | None \<Rightarrow> (bytes, writeBack));
              d = d\<lparr>sd_image := img, sd_blocks := of_nat (length img div kBlockSize)\<rparr>;
              d = (if sd_blocks d \<noteq> 0 \<and> looksBareHfs (sd_image d) then snd (applyFlatHfsFacade m d) else d);
              d = (if sd_blocks d \<noteq> 0 \<and> writeBack
                   then d\<lparr>sd_writeBack := mh_writable m, sd_file := (if mh_writable m then Some bytes else None)\<rparr> else d);
              d = attachTimeline m d
          in (sd_blocks d \<noteq> 0, d))"

definition sd_stop_audio :: "scsi_disk \<Rightarrow> scsi_disk" where
  "sd_stop_audio d =
     (if sd_cdAudio d \<and> sd_audio d \<noteq> Audio_Stopped then sd_event Ev_audio_stopped d else d)
       \<lparr>sd_audio := Audio_Stopped, sd_audioLba := 0, sd_audioEnd := 0\<rparr>"

text \<open>What the host finds at a path: a cue sheet's disc (its tracks, its lead-out, its raw sectors
  and the data track's bytes with their start and framing), a sheet whose data cannot be read (with
  the start it names), or the bytes of a flat image.\<close>

record cue_disc =
  cue_tracks :: "cd_track list"
  cue_leadOut :: u32
  cue_sector :: "u32 \<Rightarrow> u8 list option"
  cue_data :: "u8 list"
  cue_dataStart :: u32
  cue_sectorBytes :: nat

datatype cd_source = No_disc | Cue_broken u32 | Cue_disc cue_disc | Flat_image "u8 list"

definition openCdrom_reset :: "scsi_disk \<Rightarrow> scsi_disk" where
  "openCdrom_reset d =
     sd_stop_audio (d\<lparr>sd_kind := Kind_Cdrom, sd_attached := True, sd_unitAttention := False, sd_file := None,
        sd_timeline := tl_detach (sd_timeline d), sd_writeBack := False, sd_hfsPrefixBlocks := 0,
        sd_image := [], sd_blocks := 0, sd_tracks := [], sd_discLba := 0, sd_cd := (\<lambda>_. None),
        sd_audioOnly := False, sd_dataStartLba := 0\<rparr>)"

text \<open>De-framing: \<open>None\<close> where the image is refused.\<close>

definition cd_user_data :: "nat \<Rightarrow> u8 list \<Rightarrow> u8 list option" where
  "cd_user_data cueSectorBytes img =
     (if cueSectorBytes = 2352 then deframeMode1_2352 img
      else if cueSectorBytes = 0 \<and> length img mod 2048 \<noteq> 0 then deframeMode1_2352 img
      else if cueSectorBytes = 0 \<and> length img mod 2352 = 0 then
        Some (case deframeMode1_2352 img of Some out \<Rightarrow> out | None \<Rightarrow> img)
      else Some img)"

definition openCdrom_medium :: "mount_host \<Rightarrow> bool \<Rightarrow> nat \<Rightarrow> scsi_disk \<Rightarrow> bool \<times> scsi_disk" where
  "openCdrom_medium m mediumChange cueSectorBytes d =
     (case cd_user_data cueSectorBytes (sd_image d) of
        None \<Rightarrow>
          (False, if cueSectorBytes = 2352
             then d\<lparr>sd_image := [], sd_tracks := [], sd_cd := (\<lambda>_. None), sd_discLba := 0\<rparr>
             else d\<lparr>sd_image := []\<rparr>)
      | Some img \<Rightarrow>
          let bs = scsiAppleImageBlockSize img;
              bs = (if bs = 0 then 2048 else bs);
              bs = (if sd_tracks d \<noteq> [] then 2048 else bs);
              d = d\<lparr>sd_image := img, sd_kind := (if bs = 2048 then Kind_Cdrom else Kind_Removable),
                    sd_blocks := of_nat (length img div bs), sd_hfsPrefixBlocks := 0\<rparr>;
              d = (if sd_kind d = Kind_Removable \<and> sd_blocks d \<noteq> 0 \<and> looksBareHfs (sd_image d)
                   then snd (applyFlatHfsFacade m d) else d);
              d = d\<lparr>sd_unitAttention := mediumChange \<and> sd_blocks d \<noteq> 0\<rparr>
          in (sd_blocks d \<noteq> 0, d))"

definition openCdrom :: "mount_host \<Rightarrow> cd_source \<Rightarrow> scsi_disk \<Rightarrow> bool \<times> scsi_disk" where
  "openCdrom m src d =
     (let mediumChange = (sd_attached d \<and> sd_kind d \<noteq> Kind_Disk);
          d = openCdrom_reset d
      in case src of
           No_disc \<Rightarrow> (False, d)
         | Cue_broken start \<Rightarrow> (False, d\<lparr>sd_dataStartLba := start\<rparr>)
         | Flat_image bytes \<Rightarrow>
             if bytes = [] then (False, d) else openCdrom_medium m mediumChange 0 (d\<lparr>sd_image := bytes\<rparr>)
         | Cue_disc c \<Rightarrow>
             let d = d\<lparr>sd_image := cue_data c, sd_dataStartLba := cue_dataStart c, sd_cd := cue_sector c,
                       sd_tracks := cue_tracks c, sd_discLba := cue_leadOut c\<rparr>;
                 d = d\<lparr>sd_audioOnly := sd_tracks d \<noteq> [] \<and> list_all ct_audio (sd_tracks d)\<rparr>
             in if sd_audioOnly d then
                  (True, d\<lparr>sd_kind := Kind_Cdrom, sd_image := [], sd_blocks := 0, sd_hfsPrefixBlocks := 0,
                           sd_unitAttention := mediumChange\<rparr>)
                else openCdrom_medium m mediumChange (cue_sectorBytes c) d)"

definition attachCdromEmpty :: "scsi_disk \<Rightarrow> scsi_disk" where
  "attachCdromEmpty d =
     setSense 0x02 0x3A (d\<lparr>sd_kind := Kind_Cdrom, sd_attached := True, sd_audioOnly := False,
       sd_unitAttention := False, sd_file := None, sd_timeline := tl_detach (sd_timeline d),
       sd_writeBack := False, sd_hfsPrefixBlocks := 0, sd_image := [], sd_blocks := 0\<rparr>)"

definition sd_eject :: "scsi_disk \<Rightarrow> scsi_disk" where
  "sd_eject d =
     (let d = d\<lparr>sd_kind := (if sd_kind d = Kind_Removable then Kind_Cdrom else sd_kind d), sd_image := [],
                sd_blocks := 0, sd_tracks := [], sd_discLba := 0, sd_cd := (\<lambda>_. None), sd_audioOnly := False,
                sd_dataStartLba := 0\<rparr>;
          d = sd_stop_audio d;
          d = d\<lparr>sd_hfsPrefixBlocks := 0, sd_file := None, sd_timeline := tl_detach (sd_timeline d),
                sd_writeBack := False, sd_unitAttention := False\<rparr>
      in setSense 0x02 0x3A d)"

definition sd_close :: "scsi_disk \<Rightarrow> scsi_disk" where
  "sd_close d =
     setSense 0 0 (d\<lparr>sd_file := None, sd_writeBack := False, sd_kind := Kind_Disk, sd_attached := False,
       sd_unitAttention := False, sd_image := [], sd_blocks := 0, sd_hfsPrefixBlocks := 0,
       sd_identifyLun := kNoIdentify, sd_timeline := tl_detach (sd_timeline d)\<rparr>)"


section \<open>The CD audio transport\<close>

definition preEmphasized :: "u32 \<Rightarrow> scsi_disk \<Rightarrow> bool" where
  "preEmphasized lba d =
     foldl (\<lambda>pre t. if ct_extentLba t \<le> lba then flag (ct_flags t) 0x1 else pre) False (sd_tracks d)"

definition sd_audio_step :: "scsi_disk \<Rightarrow> scsi_disk" where
  "sd_audio_step d =
     (let d = (if sd_cdAudio d then
                 case sd_cd d (sd_audioLba d) of
                   None \<Rightarrow> d
                 | Some raw \<Rightarrow> sd_event (Ev_sector (preEmphasized (sd_audioLba d) d) raw) d
               else d);
          d = d\<lparr>sd_audioLba := sd_audioLba d + 1\<rparr>
      in if sd_audioEnd d \<le> sd_audioLba d
         then d\<lparr>sd_audioLba := sd_audioEnd d, sd_audio := Audio_Completed\<rparr> else d)"

fun sd_audio_steps :: "nat \<Rightarrow> scsi_disk \<Rightarrow> scsi_disk" where
  "sd_audio_steps 0 d = d"
| "sd_audio_steps (Suc n) d = (if sd_audio d = Audio_Playing then sd_audio_steps n (sd_audio_step d) else d)"

definition advanceAudio :: "nat \<Rightarrow> scsi_disk \<Rightarrow> scsi_disk" where
  "advanceAudio micros d =
     (if sd_audio d \<noteq> Audio_Playing then d
      else let phase = sd_audioFrac d + micros mod 1000000 * 75;
               sectors = micros div 1000000 * 75 + phase div 1000000
           in sd_audio_steps sectors (d\<lparr>sd_audioFrac := phase mod 1000000\<rparr>))"

definition advanceAudioCycles :: "int \<Rightarrow> int \<Rightarrow> scsi_disk \<Rightarrow> scsi_disk" where
  "advanceAudioCycles cycles cpuHz d =
     (if sd_audio d \<noteq> Audio_Playing \<or> cycles \<le> 0 \<or> cpuHz \<le> 0 then d
      else let acc = i64 (sd_audioCycAcc d + i64 (cycles * 1000000));
               micros = acc sdiv cpuHz;
               d = d\<lparr>sd_audioCycAcc := acc - micros * cpuHz\<rparr>
           in if 0 < micros then advanceAudio (nat micros) d else d)"


section \<open>Configuration and save states\<close>

definition sd_configure :: "string option \<Rightarrow> bool \<Rightarrow> scsi_disk \<Rightarrow> scsi_disk" where
  "sd_configure ddmTemplate own d =
     d\<lparr>sd_ddmTemplate := (case ddmTemplate of None \<Rightarrow> [] | Some p \<Rightarrow> p), sd_ownInquiry := own\<rparr>"

definition sd_setSoundSink :: "bool \<Rightarrow> scsi_disk \<Rightarrow> scsi_disk" where
  "sd_setSoundSink s d = d\<lparr>sd_sound := s\<rparr>"

definition sd_setCdAudioSink :: "bool \<Rightarrow> scsi_disk \<Rightarrow> scsi_disk" where
  "sd_setCdAudioSink s d = d\<lparr>sd_cdAudio := s\<rparr>"

text \<open>The mutable accessor of the image.\<close>

definition sd_touch :: "scsi_disk \<Rightarrow> u8 list \<times> scsi_disk" where
  "sd_touch d = (sd_image d, d\<lparr>sd_timeline := imageTouched (sd_timeline d)\<rparr>)"

definition audio_code :: "cd_audio \<Rightarrow> u8" where
  "audio_code a = (case a of Audio_Stopped \<Rightarrow> 0 | Audio_Playing \<Rightarrow> 1 | Audio_Paused \<Rightarrow> 2 | Audio_Completed \<Rightarrow> 3
     | Audio_Unnamed v \<Rightarrow> v)"

definition audio_of :: "u8 \<Rightarrow> cd_audio" where
  "audio_of v = (if v = 0 then Audio_Stopped else if v = 1 then Audio_Playing else if v = 2 then Audio_Paused
     else if v = 3 then Audio_Completed else Audio_Unnamed v)"

text \<open>The fields of \<^verbatim>\<open>visit\<close>, in its order.\<close>

definition sd_state_ty :: sav_ty where
  "sd_state_ty = TVisit [TInt 4 False, TInt 4 False, TInt 1 False, TInt 1 False, TInt 1 False, TInt 1 False,
     TInt 8 True, TInt 8 True, TInt 1 False, TInt 4 False, TInt 4 False, TInt 8 False, TInt 8 True]"

definition sd_state :: "scsi_disk \<Rightarrow> sav_val" where
  "sd_state d = VList (map VInt [uint (sd_blocks d), uint (sd_hfsPrefixBlocks d), uint (sd_senseKey d),
     uint (sd_senseAsc d), uint (sd_senseAscq d), uint (sd_identifyLun d), sd_readCommands d, sd_readBlocks d,
     uint (audio_code (sd_audio d)), uint (sd_audioLba d), uint (sd_audioEnd d), int (sd_audioFrac d),
     sd_audioCycAcc d])"

definition sd_set_state :: "sav_val \<Rightarrow> scsi_disk \<Rightarrow> scsi_disk" where
  "sd_set_state v d =
     (case v of
        VList [VInt bl, VInt pre, VInt key, VInt asc, VInt ascq, VInt lun, VInt rc, VInt rb,
               VInt au, VInt al, VInt ae, VInt af, VInt ac] \<Rightarrow>
          d\<lparr>sd_blocks := word_of_int bl, sd_hfsPrefixBlocks := word_of_int pre, sd_senseKey := word_of_int key,
            sd_senseAsc := word_of_int asc, sd_senseAscq := word_of_int ascq, sd_identifyLun := word_of_int lun,
            sd_readCommands := rc, sd_readBlocks := rb, sd_audio := audio_of (word_of_int au),
            sd_audioLba := word_of_int al, sd_audioEnd := word_of_int ae, sd_audioFrac := nat af,
            sd_audioCycAcc := ac\<rparr>
      | _ \<Rightarrow> d)"

definition sd_save :: "scsi_disk \<Rightarrow> u8 list \<times> scsi_disk" where
  "sd_save d =
     (let (bytes, t) = timeline_save (sd_image d) (sd_timeline d)
      in (write_one sd_state_ty (sd_state d) @ bytes, d\<lparr>sd_timeline := t\<rparr>))"

definition sd_store_block :: "u32 \<times> u8 list \<Rightarrow> scsi_disk \<Rightarrow> scsi_disk" where
  "sd_store_block b d = sd_store (fst b) 1 (snd b) d"

definition sd_load :: "sav_reader \<Rightarrow> scsi_disk \<Rightarrow> sav_reader \<times> scsi_disk" where
  "sd_load r d =
     (let (v, r) = read_one sd_state_ty r;
          d = sd_set_state v d
      in if 1000000 \<le> sd_audioFrac d then (rd_fail r, d)
         else
           let (plan, t, r) = timeline_load (sd_image d) (sd_timeline d) r;
               d = fold sd_store_block plan (d\<lparr>sd_timeline := t\<rparr>)
           in (r, if rd_ok r then d\<lparr>sd_timeline := commitLoad (sd_image d) (sd_timeline d)\<rparr> else d))"


section \<open>What a store does\<close>

text \<open>The history loop tells the timeline of exactly the block writes the copy amounts to.\<close>

lemma store_history_writes:
  fixes lba :: u32
  assumes "w \<le> length data" "unat lba * kBlockSize + w \<le> tl_blocks t * kBlockSize" "at mod kBlockSize = 0"
    and "tl_blocks t * kBlockSize \<le> length img" "tl_blocks t < 2 ^ 32" "tl_blockSize t = kBlockSize"
  shows "\<exists>ws. list_all (tl_write_ok t) ws \<and>
    fold tl_write ws (overwrite (unat lba * kBlockSize) (take (min at w) data) img, t) =
      (overwrite (unat lba * kBlockSize) (take w data) img,
       store_history lba (unat lba * kBlockSize) w at img data t)"
  using assms
proof (induction "w - at" arbitrary: at t rule: less_induct)
  case less
  let ?off = "unat lba * kBlockSize"
  show ?case
  proof (cases "at < w")
    case False
    then show ?thesis
      using less.prems by (intro exI [of _ "[]"]) (simp add: store_history.simps min_def)
  next
    case True
    define n where "n = (if w - at < kBlockSize then w - at else kBlockSize)"
    define k where "k = at div kBlockSize"
    define cur where "cur = take kBlockSize (drop (?off + at) img)"
    define src where "src = take n (drop at data) @ drop n cur"
    define b where "b = lba + of_nat k"
    let ?i = "overwrite ?off (take at data) img"
    have at: "at = k * kBlockSize" using less.prems(3) by (simp add: k_def minus_mod_eq_div_mult [symmetric])
    have "unat lba * kBlockSize + k * kBlockSize < tl_blocks t * kBlockSize" using less.prems(2) True at by linarith
    then have lt: "unat lba + k < tl_blocks t" by (simp add: add_mult_distrib [symmetric])
    then have ub: "unat b = unat lba + k"
      using less.prems(5) by (simp add: b_def unat_word_ariths(1) unat_of_nat)
    have fit: "(unat lba + k) * kBlockSize + kBlockSize \<le> length img"
      by (rule block_fits [OF lt less.prems(4)])
    have off: "unat b * kBlockSize = ?off + at" by (simp add: ub at add_mult_distrib)
    have lc: "length cur = kBlockSize" using fit off ub by (simp add: cur_def)
    have n: "0 < n" "n \<le> kBlockSize" "n \<le> w - at" using True by (auto simp: n_def kBlockSize_def)
    have ls: "length src = kBlockSize" using n less.prems(1) lc by (simp add: src_def)
    have cur: "block_at kBlockSize (unat b) ?i = cur"
      using fit off ub less.prems(1) True
      by (simp add: block_at_def cur_def drop_overwrite_after)
    have img: "overwrite (unat b * kBlockSize) src ?i = overwrite ?off (take (min (at + kBlockSize) w) data) img"
    proof -
      have "overwrite (?off + at) src ?i = overwrite ?off (take at data @ src) img"
        using fit off ub ls less.prems(1) True by (intro overwrite_extend) auto
      also have "\<dots> = overwrite ?off (take (at + n) data @ drop n cur) img"
        by (simp add: src_def take_add)
      also have "\<dots> = overwrite ?off (take (at + n) data) img"
        using fit off ub n less.prems(1) True lc
        by (intro overwrite_same_tail) (simp_all add: cur_def drop_take ac_simps)
      also have "at + n = min (at + kBlockSize) w" using True by (auto simp: n_def min_def)
      finally show ?thesis by (simp add: off)
    qed
    let ?t = "willWrite b cur src t"
    have w1: "tl_write (b, src) (?i, t) = (overwrite ?off (take (min (at + kBlockSize) w) data) img, ?t)"
      using cur img less.prems(6) by (simp add: tl_write_def Let_def)
    have sm: "w - (at + kBlockSize) < w - at" using True by (simp add: kBlockSize_def)
    obtain ws where ws: "list_all (tl_write_ok ?t) ws"
      "fold tl_write ws (overwrite ?off (take (min (at + kBlockSize) w) data) img, ?t) =
        (overwrite ?off (take w data) img, store_history lba ?off w (at + kBlockSize) img data ?t)"
      using less.hyps [OF sm, of ?t] less.prems by auto
    have "tl_write_ok ?t = tl_write_ok t" by (intro ext) (simp add: tl_write_ok_def)
    then have "list_all (tl_write_ok t) ((b, src) # ws)"
      using ws(1) lt ub ls less.prems(6) by (simp add: tl_write_ok_def)
    moreover have "store_history lba ?off w at img data t = store_history lba ?off w (at + kBlockSize) img data ?t"
      using True by (subst store_history.simps) (simp add: Let_def n_def cur_def src_def b_def k_def)
    ultimately show ?thesis using ws(2) w1 True by (intro exI [of _ "(b, src) # ws"]) simp
  qed
qed

lemma sd_file_write_frame [simp]:
  "sd_image (sd_file_write off bs d) = sd_image d" "sd_timeline (sd_file_write off bs d) = sd_timeline d"
  "sd_kind (sd_file_write off bs d) = sd_kind d" "sd_blocks (sd_file_write off bs d) = sd_blocks d"
  "sd_dataStartLba (sd_file_write off bs d) = sd_dataStartLba d"
  "sd_senseKey (sd_file_write off bs d) = sd_senseKey d" "sd_senseAsc (sd_file_write off bs d) = sd_senseAsc d"
  "sd_identifyLun (sd_file_write off bs d) = sd_identifyLun d" "sd_audioFrac (sd_file_write off bs d) = sd_audioFrac d"
  "sd_senseAscq (sd_file_write off bs d) = sd_senseAscq d"
  "sd_hfsPrefixBlocks (sd_file_write off bs d) = sd_hfsPrefixBlocks d"
  "sd_readCommands (sd_file_write off bs d) = sd_readCommands d"
  "sd_readBlocks (sd_file_write off bs d) = sd_readBlocks d"
  "sd_audio (sd_file_write off bs d) = sd_audio d"
  "sd_audioLba (sd_file_write off bs d) = sd_audioLba d"
  "sd_audioEnd (sd_file_write off bs d) = sd_audioEnd d"
  "sd_audioCycAcc (sd_file_write off bs d) = sd_audioCycAcc d"
  by (simp_all add: sd_file_write_def Let_def split: list.split option.split)

lemma sd_write_back_frame [simp]:
  "sd_image (sd_write_back lba c w data d) = sd_image d" "sd_timeline (sd_write_back lba c w data d) = sd_timeline d"
  "sd_kind (sd_write_back lba c w data d) = sd_kind d" "sd_blocks (sd_write_back lba c w data d) = sd_blocks d"
  "sd_dataStartLba (sd_write_back lba c w data d) = sd_dataStartLba d"
  "sd_senseKey (sd_write_back lba c w data d) = sd_senseKey d" "sd_senseAsc (sd_write_back lba c w data d) = sd_senseAsc d"
  "sd_identifyLun (sd_write_back lba c w data d) = sd_identifyLun d"
  "sd_audioFrac (sd_write_back lba c w data d) = sd_audioFrac d"
  "sd_senseAscq (sd_write_back lba c w data d) = sd_senseAscq d"
  "sd_hfsPrefixBlocks (sd_write_back lba c w data d) = sd_hfsPrefixBlocks d"
  "sd_readCommands (sd_write_back lba c w data d) = sd_readCommands d"
  "sd_readBlocks (sd_write_back lba c w data d) = sd_readBlocks d"
  "sd_audio (sd_write_back lba c w data d) = sd_audio d"
  "sd_audioLba (sd_write_back lba c w data d) = sd_audioLba d"
  "sd_audioEnd (sd_write_back lba c w data d) = sd_audioEnd d"
  "sd_audioCycAcc (sd_write_back lba c w data d) = sd_audioCycAcc d"
  by (simp_all add: sd_write_back_def Let_def)

lemma sd_store_frame [simp]:
  "sd_kind (sd_store lba c data d) = sd_kind d" "sd_blocks (sd_store lba c data d) = sd_blocks d"
  "sd_dataStartLba (sd_store lba c data d) = sd_dataStartLba d"
  "sd_senseKey (sd_store lba c data d) = sd_senseKey d" "sd_senseAsc (sd_store lba c data d) = sd_senseAsc d"
  "sd_identifyLun (sd_store lba c data d) = sd_identifyLun d" "sd_audioFrac (sd_store lba c data d) = sd_audioFrac d"
  "sd_senseAscq (sd_store lba c data d) = sd_senseAscq d"
  "sd_hfsPrefixBlocks (sd_store lba c data d) = sd_hfsPrefixBlocks d"
  "sd_readCommands (sd_store lba c data d) = sd_readCommands d"
  "sd_readBlocks (sd_store lba c data d) = sd_readBlocks d"
  "sd_audio (sd_store lba c data d) = sd_audio d"
  "sd_audioLba (sd_store lba c data d) = sd_audioLba d"
  "sd_audioEnd (sd_store lba c data d) = sd_audioEnd d"
  "sd_audioCycAcc (sd_store lba c data d) = sd_audioCycAcc d"
  by (simp_all add: sd_store_def Let_def)

text \<open>How many bytes a store copies.\<close>

definition store_len :: "u32 \<Rightarrow> u32 \<Rightarrow> u8 list \<Rightarrow> u8 list \<Rightarrow> nat" where
  "store_len lba c data img = min (min (unat c * kBlockSize) (length img - unat lba * kBlockSize)) (length data)"

lemma sd_store_image:
  "sd_image (sd_store lba c data d) =
     overwrite (unat lba * kBlockSize) (take (store_len lba c data (sd_image d)) data) (sd_image d)"
  by (auto simp: sd_store_def store_len_def Let_def min_def overwrite_def)

lemma sd_store_timeline:
  "sd_timeline (sd_store lba c data d) =
     (if tl_attached (sd_timeline d)
      then store_history lba (unat lba * kBlockSize) (store_len lba c data (sd_image d)) 0 (sd_image d) data (sd_timeline d)
      else sd_timeline d)"
proof (cases "length (sd_image d) \<le> unat lba * kBlockSize")
  case True
  then show ?thesis by (simp add: sd_store_def store_len_def store_history.simps)
next
  case False
  have "store_len lba c data (sd_image d) =
      (let w = (if unat c * kBlockSize < length (sd_image d) - unat lba * kBlockSize then unat c * kBlockSize
                else length (sd_image d) - unat lba * kBlockSize) in if length data < w then length data else w)"
    by (auto simp: store_len_def Let_def min_def)
  then show ?thesis using False by (simp add: sd_store_def Let_def)
qed

lemma sd_store_writes:
  assumes "tl_attached (sd_timeline d)" "tl_blockSize (sd_timeline d) = kBlockSize" "tl_blocks (sd_timeline d) < 2 ^ 32"
    and "tl_blocks (sd_timeline d) * kBlockSize \<le> length (sd_image d)"
    and "unat lba + unat c \<le> tl_blocks (sd_timeline d)"
  shows "\<exists>ws. list_all (tl_write_ok (sd_timeline d)) ws \<and>
    fold tl_write ws (sd_image d, sd_timeline d) =
      (sd_image (sd_store lba c data d), sd_timeline (sd_store lba c data d))"
proof -
  let ?w = "store_len lba c data (sd_image d)"
  have "unat lba * kBlockSize + unat c * kBlockSize \<le> tl_blocks (sd_timeline d) * kBlockSize"
    using assms(5) by (simp add: add_mult_distrib [symmetric])
  then have "unat lba * kBlockSize + ?w \<le> tl_blocks (sd_timeline d) * kBlockSize"
    unfolding store_len_def by linarith
  then show ?thesis
    using store_history_writes [of ?w data lba "sd_timeline d" 0 "sd_image d"] assms
    by (simp add: sd_store_image sd_store_timeline store_len_def)
qed

text \<open>The bytes a store put on the disk are the bytes a read gives back.\<close>

lemma image_bytes_store:
  assumes "unat lba * kBlockSize + unat c * kBlockSize \<le> length (sd_image d)" "length data = unat c * kBlockSize"
  shows "image_bytes (unat lba * kBlockSize) (unat c * kBlockSize) (sd_image (sd_store lba c data d)) = data"
  using assms by (simp add: sd_store_image image_bytes_def store_len_def overwrite_def vec_resize_def)


section \<open>Playing audio\<close>

text \<open>The sectors a play hands over, in order.\<close>

definition cd_sectors :: "scsi_disk \<Rightarrow> nat list \<Rightarrow> scsi_event list" where
  "cd_sectors d ls = concat (map (\<lambda>l.
     if sd_cdAudio d then
       case sd_cd d (of_nat l) of None \<Rightarrow> [] | Some raw \<Rightarrow> [Ev_sector (preEmphasized (of_nat l) d) raw]
     else []) ls)"

text \<open>\<open>d\<close> is \<open>d0\<close> after \<open>n\<close> sectors of a play.\<close>

definition audio_at :: "scsi_disk \<Rightarrow> nat \<Rightarrow> scsi_disk \<Rightarrow> bool" where
  "audio_at d0 n d \<longleftrightarrow>
     sd_tracks d = sd_tracks d0 \<and> sd_cd d = sd_cd d0 \<and> sd_cdAudio d = sd_cdAudio d0 \<and> sd_audioEnd d = sd_audioEnd d0 \<and>
     unat (sd_audioLba d) = min (unat (sd_audioLba d0) + n) (unat (sd_audioEnd d0)) \<and>
     sd_audio d = (if unat (sd_audioLba d0) + n < unat (sd_audioEnd d0) then Audio_Playing else Audio_Completed) \<and>
     sd_events d = sd_events d0 @ cd_sectors d0 [unat (sd_audioLba d0)..<min (unat (sd_audioLba d0) + n) (unat (sd_audioEnd d0))]"

lemma audio_at_frame:
  "audio_at d0 n (d\<lparr>sd_audioFrac := f\<rparr>) = audio_at d0 n d" "audio_at d0 n (d\<lparr>sd_audioCycAcc := c\<rparr>) = audio_at d0 n d"
  by (simp_all add: audio_at_def)

lemma audio_at_0: "sd_audio d = Audio_Playing \<Longrightarrow> sd_audioLba d < sd_audioEnd d \<Longrightarrow> audio_at d 0 d"
  by (simp add: audio_at_def word_less_nat_alt cd_sectors_def)

lemma audio_at_done: "audio_at d0 n d \<Longrightarrow> sd_audio d \<noteq> Audio_Playing \<Longrightarrow> n \<le> m \<Longrightarrow> audio_at d0 m d"
  by (auto simp: audio_at_def min_def not_less split: if_splits)

lemma sd_audio_step_at:
  assumes "audio_at d0 n d" "sd_audio d = Audio_Playing"
  shows "audio_at d0 (Suc n) (sd_audio_step d)"
proof -
  let ?a = "unat (sd_audioLba d0)" and ?e = "unat (sd_audioEnd d0)"
  have lt: "?a + n < ?e" using assms by (auto simp: audio_at_def split: if_splits)
  then have l: "unat (sd_audioLba d) = ?a + n" using assms(1) by (simp add: audio_at_def)
  then have ol: "of_nat (?a + n) = sd_audioLba d" unfolding l [symmetric] by simp
  have "?e < 2 ^ 32" by (rule order_less_le_trans [OF unsigned_less]) simp
  then have "?a + n < 2 ^ 32 - 1" using lt by simp
  then have s: "unat (sd_audioLba d + 1) = Suc (?a + n)" using l by (simp add: unat_word_ariths(1))
  have pre: "preEmphasized l d = preEmphasized l d0" for l using assms(1) by (simp add: preEmphasized_def audio_at_def)
  have ev: "cd_sectors d0 [?a..<Suc (?a + n)] = cd_sectors d0 [?a..<?a + n] @
      (if sd_cdAudio d0 then case sd_cd d0 (sd_audioLba d) of None \<Rightarrow> []
        | Some raw \<Rightarrow> [Ev_sector (preEmphasized (sd_audioLba d) d0) raw] else [])"
    using ol by (simp add: cd_sectors_def del: of_nat_add split: option.split)
  show ?thesis
    using assms lt l s pre ev
    by (auto simp: audio_at_def sd_audio_step_def Let_def sd_event_def word_le_nat_alt min_def split: option.split)
qed

lemma sd_audio_steps_at: "audio_at d0 n d \<Longrightarrow> audio_at d0 (n + k) (sd_audio_steps k d)"
proof (induction k arbitrary: n d)
  case (Suc k)
  show ?case
  proof (cases "sd_audio d = Audio_Playing")
    case True
    then show ?thesis using Suc.IH [OF sd_audio_step_at [OF Suc.prems]] by simp
  next
    case False
    then show ?thesis using audio_at_done [OF Suc.prems] by simp
  qed
qed simp

text \<open>The whole of a run of slices: the microseconds they make are the exact quotient, the sectors
  the exact quotient of those.\<close>

lemma sd_audio_steps_frame [simp]:
  "sd_audioFrac (sd_audio_steps k d) = sd_audioFrac d" "sd_audioCycAcc (sd_audio_steps k d) = sd_audioCycAcc d"
  by (induction k arbitrary: d) (simp_all add: sd_audio_step_def sd_event_def Let_def split: option.split)

lemmas sector_phase = carry_div_mod [of 1000000 _ 75, simplified]

lemma advanceAudio_at:
  assumes "audio_at d0 (x div 1000000) d" "sd_audio d = Audio_Playing" "sd_audioFrac d = x mod 1000000"
  shows "audio_at d0 ((x + 75 * k) div 1000000) (advanceAudio k d)"
    "sd_audioFrac (advanceAudio k d) = (x + 75 * k) mod 1000000"
    "sd_audioCycAcc (advanceAudio k d) = sd_audioCycAcc d"
  using assms sd_audio_steps_at [of d0 "x div 1000000" "d\<lparr>sd_audioFrac := f\<rparr>" for f]
  by (simp_all add: advanceAudio_def Let_def sector_phase audio_at_frame)

text \<open>\<open>C\<close> cycles into the play, with the two remainders while it lasts.\<close>

definition play_at :: "scsi_disk \<Rightarrow> int \<Rightarrow> int \<Rightarrow> scsi_disk \<Rightarrow> bool" where
  "play_at d0 hz C d \<longleftrightarrow>
     (let a = sd_audioCycAcc d0 + 1000000 * C; x = sd_audioFrac d0 + 75 * nat (a div hz)
      in audio_at d0 (x div 1000000) d \<and>
         (sd_audio d = Audio_Playing \<longrightarrow> sd_audioFrac d = x mod 1000000 \<and> sd_audioCycAcc d = a mod hz))"

lemma advanceAudioCycles_at:
  assumes "play_at d0 hz C d" "0 < hz" "0 \<le> c" "0 \<le> sd_audioCycAcc d0 + 1000000 * C" "hz + 1000000 * c \<le> 2 ^ 63"
  shows "play_at d0 hz (C + c) (advanceAudioCycles c hz d)"
proof (cases "sd_audio d = Audio_Playing \<and> 0 < c")
  case False
  let ?a = "sd_audioCycAcc d0 + 1000000 * C" and ?b = "sd_audioCycAcc d0 + 1000000 * (C + c)"
  have "nat (?a div hz) \<le> nat (?b div hz)" using assms(2,3) by (intro nat_mono zdiv_mono1) auto
  then have "(sd_audioFrac d0 + 75 * nat (?a div hz)) div 1000000 \<le> (sd_audioFrac d0 + 75 * nat (?b div hz)) div 1000000"
    by (intro div_le_mono) simp
  then show ?thesis
    using False assms audio_at_done by (cases "c = 0") (auto simp: play_at_def Let_def advanceAudioCycles_def)
next
  case True
  define a where "a = sd_audioCycAcc d0 + 1000000 * C"
  define k where "k = (a mod hz + c * 1000000) div hz"
  let ?d = "d\<lparr>sd_audioCycAcc := (a mod hz + c * 1000000) mod hz\<rparr>"
  have i: "audio_at d0 ((sd_audioFrac d0 + 75 * nat (a div hz)) div 1000000) ?d"
    "sd_audioFrac d = (sd_audioFrac d0 + 75 * nat (a div hz)) mod 1000000" "sd_audioCycAcc d = a mod hz"
    using assms(1) True by (simp_all add: play_at_def Let_def a_def audio_at_frame)
  have "0 \<le> a mod hz + c * 1000000" using assms(2) True by (intro add_nonneg_nonneg) simp_all
  then have k: "0 \<le> k" "(a mod hz + c * 1000000) sdiv hz = k"
    using assms(2) by (simp_all add: k_def pos_imp_zdiv_nonneg_iff sdiv_nonneg)
  have m: "(a mod hz + c * 1000000) - k * hz = (a mod hz + c * 1000000) mod hz"
    by (simp add: k_def minus_div_mult_eq_mod)
  have r: "0 \<le> a mod hz" "a mod hz < hz" using assms(2) by simp_all
  have b: "hz + 1000000 * c \<le> 9223372036854775808" using assms(5) by simp
  have "i64 (a mod hz + c * 1000000) = a mod hz + c * 1000000"
    by (rule i64_id) (use r b True in linarith)+
  moreover have "i64 (c * 1000000) = c * 1000000" using assms(2,5) True by simp
  ultimately have w: "i64 (a mod hz + i64 (c * 1000000)) = a mod hz + c * 1000000" by simp
  have adv: "advanceAudioCycles c hz d = (if 0 < k then advanceAudio (nat k) ?d else ?d)"
    unfolding advanceAudioCycles_def Let_def i(3) w k(2) m using True assms(2) by simp
  have e: "a + 1000000 * c = (a mod hz + c * 1000000) + hz * (a div hz)" by simp
  have q: "(a + 1000000 * c) div hz = a div hz + k" "(a + 1000000 * c) mod hz = (a mod hz + c * 1000000) mod hz"
    unfolding e k_def using div_mult_self2 [of hz "a mod hz + c * 1000000" "a div hz"] assms(2)
    by (simp_all only: mod_mult_self2)
  have x: "sd_audioFrac d0 + 75 * nat (a div hz + k) = sd_audioFrac d0 + 75 * nat (a div hz) + 75 * nat k"
    using assms(2,4) k(1) by (simp add: nat_add_distrib pos_imp_zdiv_nonneg_iff a_def)
  have ap: "sd_audioCycAcc d0 + 1000000 * (C + c) = a + 1000000 * c" by (simp add: a_def)
  show ?thesis
    using advanceAudio_at [OF i(1), of "nat k"] True i k(1)
    unfolding play_at_def Let_def ap q x adv by (auto simp: audio_at_frame)
qed

lemma play_slices:
  assumes "play_at d0 hz C d" "0 < hz" "list_all (\<lambda>c. 0 \<le> c \<and> hz + 1000000 * c \<le> 2 ^ 63) cs"
    "0 \<le> sd_audioCycAcc d0 + 1000000 * C"
  shows "play_at d0 hz (C + sum_list cs) (fold (\<lambda>c. advanceAudioCycles c hz) cs d)"
  using assms
proof (induction cs arbitrary: C d)
  case (Cons c cs)
  have "0 \<le> sd_audioCycAcc d0 + 1000000 * (C + c)" using Cons.prems(3,4) by simp
  then show ?case
    using Cons.IH [OF advanceAudioCycles_at [OF Cons.prems(1,2)]] Cons.prems by (simp add: add.assoc)
qed simp

text \<open>C16: a CD audio play moves at exactly 75 sectors a second of machine time.  However the elapsed
  cycles are cut into slices, the play head is at the sector the total time gives, capped by the end
  of the play, where it stops; and the sink has received every sector passed, once and in order.  The
  one bound is that each slice, in millionths of a cycle, fits the 64-bit accumulator.\<close>

theorem cd_play_exact:
  assumes "sd_audio d = Audio_Playing" "sd_audioLba d < sd_audioEnd d" "sd_audioFrac d < 1000000"
    and "0 \<le> sd_audioCycAcc d" "sd_audioCycAcc d < hz" "list_all (\<lambda>c. 0 \<le> c \<and> hz + 1000000 * c \<le> 2 ^ 63) cs"
  shows "let d' = fold (\<lambda>c. advanceAudioCycles c hz) cs d;
             micros = nat ((sd_audioCycAcc d + 1000000 * sum_list cs) div hz);
             head = unat (sd_audioLba d) + (sd_audioFrac d + 75 * micros) div 1000000;
             pos = min head (unat (sd_audioEnd d))
         in unat (sd_audioLba d') = pos \<and>
            sd_audio d' = (if head < unat (sd_audioEnd d) then Audio_Playing else Audio_Completed) \<and>
            sd_events d' = sd_events d @ cd_sectors d [unat (sd_audioLba d)..<pos]"
proof -
  have "play_at d hz 0 d"
    using assms audio_at_0 [OF assms(1,2)] by (simp add: play_at_def)
  from play_slices [OF this _ assms(6)] assms(4,5)
  have "play_at d hz (sum_list cs) (fold (\<lambda>c. advanceAudioCycles c hz) cs d)" by simp
  then show ?thesis by (simp add: play_at_def audio_at_def Let_def)
qed

definition demo_play :: scsi_disk where
  "demo_play = scsi_disk_init\<lparr>sd_kind := Kind_Cdrom, sd_attached := True, sd_audio := Audio_Playing,
     sd_audioLba := 10, sd_audioEnd := 1000, sd_cdAudio := True\<rparr>"

theorem cd_play_exact_witness:
  "unat (sd_audioLba (fold (\<lambda>c. advanceAudioCycles c 8000000) [5000000, 11000000] demo_play)) = 160"
  using cd_play_exact [of demo_play 8000000 "[5000000, 11000000]"]
  by (simp add: demo_play_def scsi_disk_init_def Let_def)

end
