(* ===== verification/Scsi_Disk.thy ===== *)
theory Scsi_Disk
  imports Scsi_Medium Ncr_5380
begin

text \<open>
  The commands of a SCSI disk or CD-ROM target (\<^verbatim>\<open>ScsiDisk::command\<close> and its helpers in
  \<^verbatim>\<open>src/src/ScsiDisk.cpp\<close>), one definition per command or group of commands, in the order of the
  code, and the target as an instance of the interface the controllers call.  A command returns
  its status byte, the bytes for the initiator and the new state.  The trace output is not
  modelled.

  What is shown: the sense protocol (how every command ends, and what REQUEST SENSE then reports on
  each logical unit), and what a command may change on the medium: nothing, the addressed blocks of a
  hard disk, or the disc it ejects.  The one command that escapes the second property, WRITE AND VERIFY
  on a removable medium, is shown to write to it.
\<close>

unbundle bit_operations_syntax

section \<open>Fields of a CDB\<close>

definition lba6 :: "u8 list \<Rightarrow> u32" where
  "lba6 cdb = push_bit 16 (ucast (byte_at cdb 1 AND 0x1F)) OR push_bit 8 (ucast (byte_at cdb 2)) OR ucast (byte_at cdb 3)"

definition cnt6 :: "u8 list \<Rightarrow> u32" where
  "cnt6 cdb = (if byte_at cdb 4 \<noteq> 0 then ucast (byte_at cdb 4) else 256)"

definition lba10 :: "u8 list \<Rightarrow> u32" where
  "lba10 cdb = be32_at cdb 2"

definition cnt10 :: "u8 list \<Rightarrow> u32" where
  "cnt10 cdb = push_bit 8 (ucast (byte_at cdb 7)) OR ucast (byte_at cdb 8)"

definition kGood :: u8 where "kGood = 0x00"
definition kCheck :: u8 where "kCheck = 0x02"
definition kNotReady :: u8 where "kNotReady = 0x02"
definition kIllegalRequest :: u8 where "kIllegalRequest = 0x05"
definition kUnitAttention :: u8 where "kUnitAttention = 0x06"
definition kDataProtect :: u8 where "kDataProtect = 0x07"
definition kMiscompare :: u8 where "kMiscompare = 0x0E"
definition kAscLunNotSupported :: u8 where "kAscLunNotSupported = 0x25"
definition kFixedSenseLen :: nat where "kFixedSenseLen = 18"

definition sd_refuse :: "u8 \<Rightarrow> u8 \<Rightarrow> scsi_disk \<Rightarrow> u8 \<times> u8 list \<times> scsi_disk" where
  "sd_refuse key asc d = (kCheck, [], setSense key asc d)"

definition effectiveLun :: "u8 list \<Rightarrow> scsi_disk \<Rightarrow> u8" where
  "effectiveLun cdb d =
     (if sd_identifyLun d \<noteq> kNoIdentify then sd_identifyLun d AND 0x07
      else if 1 < length cdb then drop_bit 5 (byte_at cdb 1) AND 0x07 else 0)"


section \<open>Mode pages\<close>

definition appendDiskModePage :: "u8 \<Rightarrow> bool \<Rightarrow> u32 \<Rightarrow> u8 list option" where
  "appendDiskModePage page changeable blocks =
     (if page = 0x01 then Some ((replicate 12 0)[0 := 0x01, 1 := 0x0A])
      else if page = 0x02 then Some ((replicate 16 0)[0 := 0x02, 1 := 0x0E])
      else if page = 0x03 then
        let p = (replicate 24 0)[0 := 0x83, 1 := 0x16]
        in Some (if changeable then p[0x0C := 0xFF, 0x0D := 0xFF]
                 else p[0x03 := 0x08, 0x0A := 0x00, 0x0B := 0x19, 0x0C := of_nat (kBlockSize div 256),
                        0x0D := of_nat kBlockSize])
      else if page = 0x04 then
        let p = (replicate 24 0)[0 := 0x04, 1 := 0x16]
        in Some (if changeable then p
                 else let cyl = drop_bit 3 blocks div 25
                      in p[0x02 := ucast (drop_bit 16 cyl), 0x03 := ucast (drop_bit 8 cyl), 0x04 := ucast cyl,
                           0x05 := 0x08])
      else if page = 0x08 then Some ((replicate 12 0)[0 := 0x08, 1 := 0x0A])
      else if page = 0x30 then
        let p = (replicate 30 0)[0 := 0x30, 1 := 0x1C]
        in Some (if changeable then p else overwrite 0x0A (text_bytes ''APPLE COMPUTER, INC.'') p)
      else None)"

definition cd_audio_page :: "u8 list" where
  "cd_audio_page = [0x8E, 0x0E, 0x04, 0x00, 0x00, 0x00, 0x00, 0x00, 0x01, 0xFF, 0x02, 0xFF, 0x04, 0xFF, 0x08, 0xFF]"

definition cd_magic_page :: "u8 list" where
  "cd_magic_page = [0x30, 0x00] @ text_bytes ''APPLE COMPUTER, INC   ''"

definition appendCdModePage :: "u8 \<Rightarrow> bool \<Rightarrow> u8 list option" where
  "appendCdModePage page changeable =
     (let shown = (\<lambda>p. if changeable then take 2 p @ replicate (length p - 2) 0 else p)
      in if page = 0x0E then Some (shown cd_audio_page)
         else if page = 0x30 then Some (shown cd_magic_page)
         else None)"

definition sd_modePage :: "u8 \<Rightarrow> bool \<Rightarrow> scsi_disk \<Rightarrow> u8 list option" where
  "sd_modePage page changeable d =
     (if sd_kind d = Kind_Cdrom then appendCdModePage page changeable
      else appendDiskModePage page changeable (sd_blocks d))"

definition kDiskPages :: "u8 list" where "kDiskPages = [0x01, 0x02, 0x03, 0x04, 0x08, 0x30]"
definition kCdPages :: "u8 list" where "kCdPages = [0x0E, 0x30]"

text \<open>The pages asked for; \<open>None\<close> when none of them exists.\<close>

definition sd_modePages :: "u8 \<Rightarrow> bool \<Rightarrow> scsi_disk \<Rightarrow> u8 list option" where
  "sd_modePages page changeable d =
     (if page = 0x3F then
        let ps = map (\<lambda>p. sd_modePage p changeable d) (if sd_kind d = Kind_Cdrom then kCdPages else kDiskPages)
        in if list_ex (\<lambda>p. p \<noteq> None) ps then Some (concat (map (\<lambda>p. case p of None \<Rightarrow> [] | Some b \<Rightarrow> b) ps)) else None
      else sd_modePage page changeable d)"

definition sd_blockDescriptor :: "scsi_disk \<Rightarrow> u8 list" where
  "sd_blockDescriptor d =
     (let bs = of_nat (sd_blockSize d) :: u32;
          count = (if sd_kind d = Kind_Cdrom then if sd_blocks d \<noteq> 0 then sd_blocks d - 1 else 0 else sd_blocks d)
      in [0x00, ucast (drop_bit 16 count), ucast (drop_bit 8 count), ucast count,
          0x00, ucast (drop_bit 16 bs), ucast (drop_bit 8 bs), ucast bs])"

definition alloc10 :: "u8 list \<Rightarrow> nat" where
  "alloc10 cdb = unat (byte_at cdb 7) * 256 + unat (byte_at cdb 8)"

definition clip :: "nat \<Rightarrow> u8 list \<Rightarrow> u8 list" where
  "clip alloc out = (if alloc \<noteq> 0 \<and> alloc < length out then take alloc out else out)"

definition modeSense :: "u8 list \<Rightarrow> bool \<Rightarrow> scsi_disk \<Rightarrow> u8 \<times> u8 list \<times> scsi_disk" where
  "modeSense cdb ten d =
     (let cd = (sd_kind d = Kind_Cdrom);
          page = byte_at cdb 2 AND 0x3F;
          changeable = (drop_bit 6 (byte_at cdb 2) AND 3 = 1);
          dbd = flag (byte_at cdb 1) 0x08;
          alloc = (if ten then alloc10 cdb else if byte_at cdb 4 \<noteq> 0 then unat (byte_at cdb 4) else 4)
      in case sd_modePages page changeable d of
           None \<Rightarrow> sd_refuse kIllegalRequest 0x24 d
         | Some body \<Rightarrow>
             let hdr = (replicate (if ten then 8 else 4) 0)[(if ten then 3 else 2) := (if cd then 0x80 else 0x00)];
                 out = (if dbd then hdr
                        else hdr[(if ten then 7 else 3) := 8] @ sd_blockDescriptor d);
                 out = out @ body;
                 out = (if ten then out[0 := of_nat ((length out - 2) div 256), 1 := of_nat (length out - 2)]
                        else out[0 := of_nat (length out - 1)])
             in (kGood, clip alloc out, d))"

text \<open>MODE SELECT on a CD drive with an audio sink: the volume of the audio control page.\<close>

definition page_volume :: "u8 list \<Rightarrow> nat \<Rightarrow> u8 \<Rightarrow> u8" where
  "page_volume params at channel =
     foldl (\<lambda>v port. let sel = at + 8 + port * 2
        in if sel + 1 < length params \<and> flag (byte_at params sel AND 0x0F) channel
           then max v (byte_at params (sel + 1)) else v) 0 [0, 1, 2, 3]"

function modeSelect_pages :: "u8 list \<Rightarrow> nat \<Rightarrow> scsi_disk \<Rightarrow> scsi_disk" where
  "modeSelect_pages params at d =
     (if at + 1 < length params then
        let page = byte_at params at AND 0x3F;
            len = unat (byte_at params (at + 1)) + 2;
            d = (if page = 0x0E \<and> at + 12 \<le> length params
                 then sd_event (Ev_volume (page_volume params at 0x01) (page_volume params at 0x02)) d else d)
        in modeSelect_pages params (at + len) d
      else d)"
  by pat_completeness auto

termination modeSelect_pages
  by (relation "measure (\<lambda>(params, at, d). length params - at)") auto

declare modeSelect_pages.simps [simp del]

definition modeSelect :: "u8 list \<Rightarrow> bool \<Rightarrow> scsi_disk \<Rightarrow> scsi_disk" where
  "modeSelect params ten d =
     (let header = (if ten then 8 else 4)
      in if sd_kind d \<noteq> Kind_Cdrom \<or> \<not> sd_cdAudio d \<or> length params < header + 2 then d
         else modeSelect_pages params
           (header + (if ten then unat (byte_at params 6) * 256 + unat (byte_at params 7) else unat (byte_at params 3))) d)"


section \<open>Sizing the DATA OUT phase\<close>

definition sd_writeByteCount :: "u8 list \<Rightarrow> scsi_disk \<Rightarrow> int" where
  "sd_writeByteCount cdb d =
     (let bs = int (sd_blockSize d); op = byte_at cdb 0; n10 = int (alloc10 cdb)
      in if length cdb < 6 then 0
         else if op = 0x0A then (if byte_at cdb 4 \<noteq> 0 then uint (byte_at cdb 4) else 256) * bs
         else if op = 0x2A \<or> op = 0x2E then if 9 \<le> length cdb then n10 * bs else 0
         else if op = 0x2F then if 9 \<le> length cdb \<and> flag (byte_at cdb 1) 0x02 then n10 * bs else 0
         else if op = 0x15 then uint (byte_at cdb 4)
         else if op = 0x55 then if 9 \<le> length cdb then n10 else 0
         else if op = 0x1D then if 5 \<le> length cdb then uint (byte_at cdb 3) * 256 + uint (byte_at cdb 4) else 0
         else if op = 0x04 then if flag (byte_at cdb 1) 0x10 then 4 else 0
         else if op = 0x07 then 4
         else 0)"

definition sd_extendDataOut :: "u8 list \<Rightarrow> u8 list \<Rightarrow> nat \<Rightarrow> scsi_disk \<Rightarrow> nat" where
  "sd_extendDataOut cdb sofar expected d =
     (if length cdb < 1 \<or> byte_at cdb 0 \<noteq> 0x04 \<and> byte_at cdb 0 \<noteq> 0x07 \<or> expected \<noteq> 4 \<or> length sofar \<noteq> 4 then expected
      else expected + (unat (byte_at sofar 2) * 256 + unat (byte_at sofar 3)))"


section \<open>The CD-ROM commands\<close>

definition inquiry_text :: "u8 list \<Rightarrow> u8 list \<Rightarrow> u8 list" where
  "inquiry_text txt out = map (\<lambda>i. if 8 \<le> i \<and> i - 8 < length txt then txt ! (i - 8) else out ! i) [0..<length out]"

definition alloc_or :: "nat \<Rightarrow> u8 list \<Rightarrow> nat" where
  "alloc_or n cdb = (if byte_at cdb 4 \<noteq> 0 then unat (byte_at cdb 4) else n)"

definition cd_inquiry :: "u8 list \<Rightarrow> u8 list" where
  "cd_inquiry cdb =
     (let out = (replicate (alloc_or 36 cdb) 0)[0 := 0x05, 1 := 0x80, 2 := 0x02, 3 := 0x02, 4 := 0x20];
          out = inquiry_text (text_bytes ''SONY    CD-ROM CDU-8003A1.0i'') out
      in map (\<lambda>i. if 8 \<le> i \<and> i < 36 \<and> out ! i = 0 then 0x20 else out ! i) [0..<length out])"

definition cd_capacity :: "scsi_disk \<Rightarrow> u8 list" where
  "cd_capacity d = be32_bytes (if sd_discLba d \<noteq> 0 then sd_discLba d - 1 else sd_blocks d - 1) @ [0, 0, 0x08, 0x00]"

definition msfLba :: "u8 list \<Rightarrow> nat \<Rightarrow> u32" where
  "msfLba cdb i =
     (let f = (ucast (byte_at cdb i) * 60 + ucast (byte_at cdb (i + 1))) * 75 + ucast (byte_at cdb (i + 2)) :: u32
      in if 150 \<le> f then f - 150 else 0)"

definition on_audio :: "u32 \<Rightarrow> scsi_disk \<Rightarrow> bool" where
  "on_audio start d = foldl (\<lambda>a t. if ct_extentLba t \<le> start then ct_audio t else a) False (sd_tracks d)"

definition cd_play :: "u8 list \<Rightarrow> scsi_disk \<Rightarrow> u8 \<times> u8 list \<times> scsi_disk" where
  "cd_play cdb d =
     (if \<not> discLoaded d then sd_refuse kNotReady 0x3A d
      else
        let whole = (if sd_discLba d \<noteq> 0 then sd_discLba d else sd_blocks d);
            start = (if byte_at cdb 0 = 0x45 then lba10 cdb else msfLba cdb 3);
            fin = (if byte_at cdb 0 = 0x45 then if cnt10 cdb \<noteq> 0 then start + cnt10 cdb else whole
                   else msfLba cdb 6)
        in if \<not> on_audio start d then sd_refuse kIllegalRequest 0x64 d
           else
             let d = sd_event Ev_deemphasis_reset (d\<lparr>sd_audioLba := start\<rparr>);
                 d = d\<lparr>sd_audioEnd := max fin start, sd_audioFrac := 0\<rparr>
             in (kGood, [], d\<lparr>sd_audio := (if sd_audioLba d < sd_audioEnd d then Audio_Playing else Audio_Completed)\<rparr>))"

definition cd_pause_resume :: "u8 list \<Rightarrow> scsi_disk \<Rightarrow> u8 \<times> u8 list \<times> scsi_disk" where
  "cd_pause_resume cdb d =
     (if sd_audio d = Audio_Stopped then sd_refuse kIllegalRequest 0x64 d
      else (kGood, [],
        if flag (byte_at cdb 8) 1
        then if sd_audio d = Audio_Paused then d\<lparr>sd_audio := Audio_Playing\<rparr> else d
        else if sd_audio d = Audio_Playing then d\<lparr>sd_audio := Audio_Paused\<rparr> else d))"

definition msf_bytes :: "u32 \<Rightarrow> u8 list" where
  "msf_bytes f = [0, ucast (f div (60 * 75)), ucast ((f div 75) mod 60), ucast (f mod 75)]"

definition toc_addr :: "bool \<Rightarrow> u32 \<Rightarrow> u8 list" where
  "toc_addr msf lba = (if msf then msf_bytes (lba + 150) else be32_bytes lba)"

text \<open>The tracks of the disc; a flat image is one data track.\<close>

definition toc_tracks :: "scsi_disk \<Rightarrow> (u8 \<times> u8 \<times> u32) list" where
  "toc_tracks d =
     (if sd_tracks d \<noteq> [] then map (\<lambda>t. (adrControl t, ct_number t, ct_startLba t)) (sd_tracks d)
      else [(0x14, 1, 0)])"

definition toc_leadOut :: "scsi_disk \<Rightarrow> u32" where
  "toc_leadOut d = (if sd_tracks d \<noteq> [] \<and> sd_discLba d \<noteq> 0 then sd_discLba d else sd_blocks d)"

definition with_length :: "u8 list \<Rightarrow> u8 list" where
  "with_length body = be16_bytes (of_nat (length body)) @ body"

definition toc_formatted :: "bool \<Rightarrow> scsi_disk \<Rightarrow> u8 list" where
  "toc_formatted msf d =
     (let ts = toc_tracks d; entry = (\<lambda>(ctl, num, lba). [0, ctl, num, 0] @ toc_addr msf lba)
      in with_length ([fst (snd (hd ts)), fst (snd (last ts))] @ concat (map entry ts) @
           entry (fst (last ts), 0xAA, toc_leadOut d)))"

definition toc_session :: "bool \<Rightarrow> scsi_disk \<Rightarrow> u8 list" where
  "toc_session msf d =
     (let (ctl, num, lba) = hd (toc_tracks d)
      in [0, 10, 1, 1, 0, ctl, num, 0] @ toc_addr msf lba)"

definition toc_full :: "scsi_disk \<Rightarrow> u8 list" where
  "toc_full d =
     (let ts = toc_tracks d;
          point = (\<lambda>ctl pt pmin psec pfrm. [1, ctl, 0, pt, 0, 0, 0, 0, pmin, psec, pfrm]);
          at = (\<lambda>ctl pt lba. case msf_bytes (lba + 150) of p # msf \<Rightarrow> [1, ctl, 0, pt, 0, 0, 0, 0] @ msf)
      in with_length ([1, 1] @
           point (fst (hd ts)) 0xA0 (fst (snd (hd ts))) 0 0 @
           point (fst (last ts)) 0xA1 (fst (snd (last ts))) 0 0 @
           at (fst (last ts)) 0xA2 (toc_leadOut d) @
           concat (map (\<lambda>(ctl, num, lba). at ctl num lba) ts)))"

definition cd_read_toc :: "u8 list \<Rightarrow> scsi_disk \<Rightarrow> u8 \<times> u8 list \<times> scsi_disk" where
  "cd_read_toc cdb d =
     (if \<not> discLoaded d then sd_refuse kNotReady 0x3A d
      else
        let msf = flag (byte_at cdb 1) 0x02;
            fmt = byte_at cdb 2 AND 0x0F;
            fmt = (if fmt = 0 then drop_bit 6 (byte_at cdb 9) AND 3 else fmt)
        in if fmt = 0 then (kGood, clip (alloc10 cdb) (toc_formatted msf d), d)
           else if fmt = 1 then (kGood, clip (alloc10 cdb) (toc_session msf d), d)
           else if fmt = 2 then (kGood, clip (alloc10 cdb) (toc_full d), d)
           else sd_refuse kIllegalRequest 0x24 d)"

definition audio_status :: "cd_audio \<Rightarrow> u8" where
  "audio_status a = (case a of Audio_Playing \<Rightarrow> 0x11 | Audio_Paused \<Rightarrow> 0x12 | Audio_Completed \<Rightarrow> 0x13 | _ \<Rightarrow> 0x15)"

text \<open>Track, INDEX 01 address, control and index of the play head.\<close>

definition head_track :: "scsi_disk \<Rightarrow> u8 \<times> u32 \<times> u8 \<times> u8" where
  "head_track d =
     foldl (\<lambda>a t. if ct_extentLba t \<le> sd_audioLba d
        then (ct_number t, ct_startLba t, adrControl t, if sd_audioLba d < ct_startLba t then 0 else 1) else a)
       (1, 0, 0x14, 1) (sd_tracks d)"

definition cd_position :: "bool \<Rightarrow> scsi_disk \<Rightarrow> u8 list" where
  "cd_position msf d =
     (let (trk, base, control, ix) = head_track d; lba = sd_audioLba d;
          put = (\<lambda>l. if msf then msf_bytes l else be32_bytes l)
      in [12, 0x01, control, trk, if sd_audio d = Audio_Stopped then 0 else ix] @
         put (lba + (if msf then 150 else 0)) @ put (if msf \<and> lba < base then base - lba else lba - base))"

definition cd_subchannel :: "u8 list \<Rightarrow> scsi_disk \<Rightarrow> u8 \<times> u8 list \<times> scsi_disk" where
  "cd_subchannel cdb d =
     (if \<not> discLoaded d then sd_refuse kNotReady 0x3A d
      else
        let msf = flag (byte_at cdb 1) 0x02;
            alloc = alloc10 cdb;
            out = (replicate (if alloc \<noteq> 0 then alloc else 4) 0)[1 := audio_status (sd_audio d)]
        in (kGood,
            if flag (byte_at cdb 2) 0x40 \<and> byte_at cdb 3 = 0x01 \<and> 16 \<le> length out
            then overwrite 3 (cd_position msf d) out else out, d))"

definition cd_verify :: "u8 list \<Rightarrow> scsi_disk \<Rightarrow> u8 \<times> u8 list \<times> scsi_disk" where
  "cd_verify cdb d =
     (if \<not> discLoaded d then sd_refuse kNotReady 0x3A d
      else if dataEndLba d < unat (lba10 cdb) + unat (cnt10 cdb) then sd_refuse kIllegalRequest 0x24 d
      else (kGood, [], d))"

text \<open>READ on a CD: \<open>None\<close> where it goes on to the shared command.\<close>

definition cd_read_guard :: "u8 list \<Rightarrow> scsi_disk \<Rightarrow> (u8 \<times> u8 list \<times> scsi_disk) option" where
  "cd_read_guard cdb d =
     (if \<not> discLoaded d then Some (sd_refuse kNotReady 0x3A d)
      else let at = (if byte_at cdb 0 = 0x08 then lba6 cdb else lba10 cdb)
           in if sd_audioOnly d \<or> at < sd_dataStartLba d then Some (sd_refuse kIllegalRequest 0x64 d) else None)"

definition cd_command :: "u8 list \<Rightarrow> u8 list \<Rightarrow> scsi_disk \<Rightarrow> (u8 \<times> u8 list \<times> scsi_disk) option" where
  "cd_command cdb dataIn d =
     (let op = byte_at cdb 0
      in if op = 0x00 then Some (if discLoaded d then (kGood, [], d) else sd_refuse kNotReady 0x3A d)
         else if op = 0x12 then Some (kGood, cd_inquiry cdb, d)
         else if op = 0x25 then Some (if discLoaded d then (kGood, cd_capacity d, d) else sd_refuse kNotReady 0x3A d)
         else if op = 0x45 \<or> op = 0x47 then Some (cd_play cdb d)
         else if op = 0x4B then Some (cd_pause_resume cdb d)
         else if op = 0x43 then Some (cd_read_toc cdb d)
         else if op = 0x42 then Some (cd_subchannel cdb d)
         else if op = 0x1B then
           Some (kGood, [], if flag (byte_at cdb 4) 0x02 \<and> \<not> flag (byte_at cdb 4) 0x01 then sd_eject d else d)
         else if op = 0x15 \<or> op = 0x55 then Some (kGood, [], modeSelect dataIn (op = 0x55) d)
         else if op = 0x1E \<or> op = 0x2B then Some (kGood, [], d)
         else if op = 0x0A \<or> op = 0x2A \<or> op = 0x2E then Some (sd_refuse kDataProtect 0x27 d)
         else if op = 0x07 \<or> op = 0x37 then Some (sd_refuse kIllegalRequest 0x20 d)
         else if op = 0x2F then Some (cd_verify cdb d)
         else if op = 0x08 \<or> op = 0x28 then cd_read_guard cdb d
         else None)"


section \<open>The shared commands\<close>

definition sd_request_sense :: "u8 list \<Rightarrow> scsi_disk \<Rightarrow> u8 \<times> u8 list \<times> scsi_disk" where
  "sd_request_sense cdb d =
     (let alloc = min (alloc_or 4 cdb) kFixedSenseLen;
          out = (replicate alloc 0)[0 := 0x70, 2 := sd_senseKey d AND 0x0F, 7 := of_nat (min (alloc - 8) 10),
                  12 := sd_senseAsc d, 13 := sd_senseAscq d]
      in (kGood, out, setSense 0 0 d))"

definition disk_inquiry :: "u8 list \<Rightarrow> scsi_disk \<Rightarrow> u8 list" where
  "disk_inquiry cdb d =
     inquiry_text (text_bytes (if sd_ownInquiry d then ''POM68K  POM68K HD DISK  1.0 '' else '' SEAGATE          ST225N1.0 ''))
       ((replicate (alloc_or 36 cdb) 0)[0 := 0x00, 1 := (if sd_kind d = Kind_Removable then 0x80 else 0x00),
          2 := 0x01, 4 := 31])"

definition sd_read_command :: "u32 \<Rightarrow> u32 \<Rightarrow> scsi_disk \<Rightarrow> u8 \<times> u8 list \<times> scsi_disk" where
  "sd_read_command lba cnt d =
     (if dataEndLba d < unat lba + unat cnt then sd_refuse kIllegalRequest 0x24 d
      else let (out, d) = sd_read lba cnt d in (kGood, out, d))"

text \<open>WRITE(6), WRITE(10) and WRITE AND VERIFY(10) share the range check and the store.\<close>

definition sd_write_command :: "u32 \<Rightarrow> u32 \<Rightarrow> u8 list \<Rightarrow> scsi_disk \<Rightarrow> u8 \<times> u8 list \<times> scsi_disk" where
  "sd_write_command lba cnt dataIn d =
     (if dataEndLba d < unat lba + unat cnt then sd_refuse kIllegalRequest 0x24 d
      else (kGood, [], sd_write lba cnt dataIn d))"

definition sd_seek :: "u32 \<Rightarrow> scsi_disk \<Rightarrow> u8 \<times> u8 list \<times> scsi_disk" where
  "sd_seek lba d = (if dataEndLba d \<le> unat lba then sd_refuse kIllegalRequest 0x24 d else (kGood, [], d))"

definition sd_verify :: "u8 list \<Rightarrow> u8 list \<Rightarrow> scsi_disk \<Rightarrow> u8 \<times> u8 list \<times> scsi_disk" where
  "sd_verify cdb dataIn d =
     (let off = unat (lba10 cdb) * kBlockSize; n = unat (cnt10 cdb) * kBlockSize
      in if dataEndLba d < unat (lba10 cdb) + unat (cnt10 cdb) then sd_refuse kIllegalRequest 0x24 d
         else if flag (byte_at cdb 1) 0x02 \<and>
           (length (sd_image d) < off + n \<or> length dataIn < n \<or> take n (drop off (sd_image d)) \<noteq> take n dataIn)
         then sd_refuse kMiscompare 0x1D d
         else (kGood, [], d))"

definition sd_defect_data :: "u8 list \<Rightarrow> u8 list" where
  "sd_defect_data cdb = clip (alloc10 cdb) [0, byte_at cdb 2 AND 0x1F, 0, 0]"

definition shared_command :: "u8 list \<Rightarrow> u8 list \<Rightarrow> scsi_disk \<Rightarrow> u8 \<times> u8 list \<times> scsi_disk" where
  "shared_command cdb dataIn d =
     (let op = byte_at cdb 0
      in if op = 0x00 then
           if sd_kind d = Kind_Removable \<and> sd_blocks d = 0 then sd_refuse kNotReady 0x3A d else (kGood, [], d)
         else if op = 0x03 then sd_request_sense cdb d
         else if op = 0x12 then (kGood, disk_inquiry cdb d, d)
         else if op = 0x25 then
           (kGood, be32_bytes (if sd_blocks d \<noteq> 0 then sd_blocks d - 1 else 0) @
              [0, 0, of_nat (kBlockSize div 256), of_nat kBlockSize], d)
         else if op = 0x08 then sd_read_command (lba6 cdb) (cnt6 cdb) d
         else if op = 0x28 then sd_read_command (lba10 cdb) (cnt10 cdb) d
         else if op = 0x1A then modeSense cdb False d
         else if op = 0x5A then modeSense cdb True d
         else if op = 0x0A then
           if sd_kind d = Kind_Removable then sd_refuse kDataProtect 0x27 d
           else sd_write_command (lba6 cdb) (cnt6 cdb) dataIn d
         else if op = 0x2A then
           if sd_kind d = Kind_Removable then sd_refuse kDataProtect 0x27 d
           else sd_write_command (lba10 cdb) (cnt10 cdb) dataIn d
         else if op = 0x15 \<or> op = 0x55 then (kGood, [], d)
         else if op = 0x01 \<or> op = 0x1D \<or> op = 0x1E \<or> op = 0x1B then (kGood, [], d)
         else if op = 0x07 then (kGood, [], d)
         else if op = 0x35 then (kGood, [], d)
         else if op = 0x0B then sd_seek (lba6 cdb) d
         else if op = 0x2B then sd_seek (lba10 cdb) d
         else if op = 0x2E then sd_write_command (lba10 cdb) (cnt10 cdb) dataIn d
         else if op = 0x2F then sd_verify cdb dataIn d
         else if op = 0x37 then (kGood, sd_defect_data cdb, d)
         else if op = 0x04 then
           if sd_kind d \<noteq> Kind_Disk then sd_refuse kIllegalRequest 0x20 d else (kGood, [], d)
         else sd_refuse kIllegalRequest 0x20 d)"


section \<open>The command\<close>

definition kGroupLen :: "u8 \<Rightarrow> nat" where
  "kGroupLen op = [6, 10, 10, 6, 16, 12, 6, 6] ! unat (drop_bit 5 op AND 7)"

text \<open>A logical unit the target does not have: \<open>Inl\<close> the answer, or \<open>Inr\<close> the state the command goes
  on with.\<close>

definition lun_guard :: "u8 list \<Rightarrow> scsi_disk \<Rightarrow> (u8 \<times> u8 list \<times> scsi_disk) + scsi_disk" where
  "lun_guard cdb d =
     (if effectiveLun cdb d = 0 then Inr d
      else if byte_at cdb 0 = 0x12 then
        Inl (kGood, (replicate (alloc_or 36 cdb) 0)[0 := 0x7F, 4 := 0x20], d)
      else if byte_at cdb 0 \<noteq> 0x03 then Inl (sd_refuse kIllegalRequest kAscLunNotSupported d)
      else Inr (setSense kIllegalRequest kAscLunNotSupported d))"

definition sd_execute :: "u8 list \<Rightarrow> u8 list \<Rightarrow> scsi_disk \<Rightarrow> u8 \<times> u8 list \<times> scsi_disk" where
  "sd_execute cdb dataIn d =
     (if sd_kind d \<noteq> Kind_Disk \<and> sd_unitAttention d \<and> byte_at cdb 0 \<noteq> 0x03 \<and> byte_at cdb 0 \<noteq> 0x12
      then sd_refuse kUnitAttention 0x28 (d\<lparr>sd_unitAttention := False\<rparr>)
      else case (if sd_kind d = Kind_Cdrom then cd_command cdb dataIn d else None) of
          Some r \<Rightarrow> r
        | None \<Rightarrow> shared_command cdb dataIn d)"

definition sd_command :: "u8 list \<Rightarrow> u8 list \<Rightarrow> scsi_disk \<Rightarrow> u8 \<times> u8 list \<times> scsi_disk" where
  "sd_command cdb dataIn d =
     (if cdb = [] then sd_refuse kIllegalRequest 0x20 d
      else
        let d = (if byte_at cdb 0 \<noteq> 0x03 then setSense 0 0 d else d)
        in if length cdb < kGroupLen (byte_at cdb 0) then sd_refuse kIllegalRequest 0x20 d
           else case lun_guard cdb d of
               Inl r \<Rightarrow> r
             | Inr d \<Rightarrow> sd_execute cdb dataIn d)"

definition disk_ops :: "scsi_disk scsi_ops" where
  "disk_ops = \<lparr>t_present = sd_present, t_selectLun = sd_selectLun, t_command = sd_command,
     t_writeByteCount = sd_writeByteCount, t_extendDataOut = sd_extendDataOut\<rparr>"


section \<open>Status and sense\<close>

definition no_sense :: "scsi_disk \<Rightarrow> bool" where
  "no_sense d \<longleftrightarrow> sd_senseKey d = 0 \<and> sd_senseAsc d = 0 \<and> sd_senseAscq d = 0"

text \<open>An answer is GOOD with no sense pending, or CHECK CONDITION with a sense key and no data.\<close>

definition answer_ok :: "u8 \<times> u8 list \<times> scsi_disk \<Rightarrow> bool" where
  "answer_ok r \<longleftrightarrow> (case r of (st, out, d) \<Rightarrow>
     st = kGood \<and> no_sense d \<or> st = kCheck \<and> out = [] \<and> sd_senseKey d \<in> {0x02, 0x05, 0x06, 0x07, 0x0E})"

lemmas key_defs = kNotReady_def kIllegalRequest_def kUnitAttention_def kDataProtect_def kMiscompare_def

lemma setSense_simps [simp]:
  "sd_senseKey (setSense k a d) = k" "sd_senseAsc (setSense k a d) = a" "sd_senseAscq (setSense k a d) = 0"
  "sd_kind (setSense k a d) = sd_kind d" "sd_image (setSense k a d) = sd_image d"
  "sd_timeline (setSense k a d) = sd_timeline d" "sd_blocks (setSense k a d) = sd_blocks d"
  "sd_dataStartLba (setSense k a d) = sd_dataStartLba d" "sd_identifyLun (setSense k a d) = sd_identifyLun d"
  "sd_unitAttention (setSense k a d) = sd_unitAttention d" "sd_file (setSense k a d) = sd_file d"
  "sd_writeBack (setSense k a d) = sd_writeBack d" "sd_hfsPrefixBlocks (setSense k a d) = sd_hfsPrefixBlocks d"
  "sd_host (setSense k a d) = sd_host d"
  by (simp_all add: setSense_def)

lemma effectiveLun_setSense [simp]: "effectiveLun cdb (setSense k a d) = effectiveLun cdb d"
  by (simp add: effectiveLun_def)

lemma no_sense_setSense [simp]: "no_sense (setSense 0 0 d)"
  by (simp add: no_sense_def)

lemma answer_good [simp]: "answer_ok (kGood, r) = no_sense (snd r)"
  by (cases r) (simp add: answer_ok_def kGood_def kCheck_def)

lemma answer_refuse [simp]: "answer_ok (sd_refuse k a d) = (k \<in> {0x02, 0x05, 0x06, 0x07, 0x0E})"
  by (simp add: answer_ok_def sd_refuse_def kGood_def kCheck_def)

lemma sd_motor_step_frame [simp]:
  "sd_senseKey (sd_motor_step l d) = sd_senseKey d" "sd_senseAsc (sd_motor_step l d) = sd_senseAsc d"
  "sd_senseAscq (sd_motor_step l d) = sd_senseAscq d" "sd_image (sd_motor_step l d) = sd_image d"
  "sd_kind (sd_motor_step l d) = sd_kind d" "sd_timeline (sd_motor_step l d) = sd_timeline d"
  "sd_blocks (sd_motor_step l d) = sd_blocks d" "sd_dataStartLba (sd_motor_step l d) = sd_dataStartLba d"
  "sd_file (sd_motor_step l d) = sd_file d" "sd_writeBack (sd_motor_step l d) = sd_writeBack d"
  "sd_hfsPrefixBlocks (sd_motor_step l d) = sd_hfsPrefixBlocks d" "sd_host (sd_motor_step l d) = sd_host d"
  "sd_identifyLun (sd_motor_step l d) = sd_identifyLun d"
  by (simp_all add: sd_motor_step_def sd_event_def)

lemma no_sense_moves [simp]:
  "no_sense (snd (sd_read lba c d)) = no_sense d" "no_sense (sd_write lba c x d) = no_sense d"
  "no_sense (sd_event e d) = no_sense d"
  by (simp_all add: no_sense_def sd_read_def sd_write_def Let_def sd_event_def)

text \<open>MODE SELECT only talks to the audio sink.\<close>

lemma modeSelect_pages_events: "\<exists>es. modeSelect_pages params i d = d\<lparr>sd_events := es\<rparr>"
proof (induction params i d rule: modeSelect_pages.induct)
  case (1 params i d)
  show ?case
  proof (cases "i + 1 < length params")
    case True
    obtain es where "modeSelect_pages params (i + (unat (byte_at params (i + 1)) + 2))
        (if byte_at params i AND 0x3F = 0x0E \<and> i + 12 \<le> length params
         then sd_event (Ev_volume (page_volume params i 0x01) (page_volume params i 0x02)) d else d) =
        (if byte_at params i AND 0x3F = 0x0E \<and> i + 12 \<le> length params
         then sd_event (Ev_volume (page_volume params i 0x01) (page_volume params i 0x02)) d else d)\<lparr>sd_events := es\<rparr>"
      using "1.IH" [OF True refl refl refl] by blast
    then show ?thesis
      using True by (intro exI [of _ es], subst modeSelect_pages.simps) (simp only: Let_def sd_event_def if_True, simp)
  next
    case False
    then show ?thesis by (intro exI [of _ "sd_events d"], subst modeSelect_pages.simps) simp
  qed
qed

lemma modeSelect_events: "\<exists>es. modeSelect params ten d = d\<lparr>sd_events := es\<rparr>"
  using modeSelect_pages_events by (auto simp: modeSelect_def Let_def intro: exI [of _ "sd_events d"])

lemma no_sense_modeSelect [simp]: "no_sense (modeSelect params ten d) = no_sense d"
  using modeSelect_events [of params ten d] by (auto simp: no_sense_def)

lemmas answer_if = if_distrib [of answer_ok]

lemma answer_request_sense [simp]: "answer_ok (sd_request_sense cdb d)"
  by (simp add: sd_request_sense_def Let_def)

lemma answer_disk_commands [simp]:
  "no_sense d \<Longrightarrow> answer_ok (sd_read_command lba c d)"
  "no_sense d \<Longrightarrow> answer_ok (sd_write_command lba c x d)"
  "no_sense d \<Longrightarrow> answer_ok (sd_seek lba d)"
  "no_sense d \<Longrightarrow> answer_ok (sd_verify cdb x d)"
  "no_sense d \<Longrightarrow> answer_ok (modeSense cdb ten d)"
  using no_sense_moves(1) [of lba c d]
  by (simp_all add: sd_read_command_def sd_write_command_def sd_seek_def sd_verify_def modeSense_def Let_def answer_if
      key_defs case_prod_beta split: option.split)

lemma answer_shared: "no_sense d \<or> byte_at cdb 0 = 0x03 \<Longrightarrow> answer_ok (shared_command cdb x d)"
  by (cases "byte_at cdb 0 = 0x03") (simp_all add: shared_command_def Let_def answer_if key_defs)

lemma no_sense_frame [simp]:
  "no_sense (d\<lparr>sd_audio := a\<rparr>) = no_sense d" "no_sense (d\<lparr>sd_audioLba := l\<rparr>) = no_sense d"
  "no_sense (d\<lparr>sd_audioEnd := l\<rparr>) = no_sense d" "no_sense (d\<lparr>sd_audioFrac := f\<rparr>) = no_sense d"
  by (simp_all add: no_sense_def)

lemma answer_cd_commands [simp]:
  "no_sense d \<Longrightarrow> answer_ok (cd_play cdb d)"
  "no_sense d \<Longrightarrow> answer_ok (cd_pause_resume cdb d)"
  "no_sense d \<Longrightarrow> answer_ok (cd_read_toc cdb d)"
  "no_sense d \<Longrightarrow> answer_ok (cd_subchannel cdb d)"
  "no_sense d \<Longrightarrow> answer_ok (cd_verify cdb d)"
  by (simp_all add: cd_play_def cd_pause_resume_def cd_read_toc_def cd_subchannel_def cd_verify_def Let_def answer_if key_defs)

lemma answer_cd:
  assumes "no_sense d" "byte_at cdb 0 \<noteq> 0x1B"
  shows "pred_option answer_ok (cd_command cdb x d)"
  using assms
  by (simp add: cd_command_def cd_read_guard_def Let_def if_distrib [of "pred_option answer_ok"] answer_if key_defs)

lemma answer_execute:
  assumes "no_sense d \<or> byte_at cdb 0 = 0x03" "byte_at cdb 0 \<noteq> 0x1B \<or> sd_kind d \<noteq> Kind_Cdrom"
  shows "answer_ok (sd_execute cdb x d)"
proof -
  have "byte_at cdb 0 = 0x03 \<Longrightarrow> cd_command cdb x d = None" by (simp add: cd_command_def Let_def)
  then show ?thesis
    using assms answer_cd [of d cdb x] answer_shared [of d cdb x]
    by (auto simp: sd_execute_def key_defs split: option.split)
qed

lemma answer_command:
  assumes "byte_at cdb 0 \<noteq> 0x1B \<or> sd_kind d \<noteq> Kind_Cdrom"
  shows "answer_ok (sd_command cdb x d)"
proof -
  let ?d = "if byte_at cdb 0 \<noteq> 0x03 then setSense 0 0 d else d"
  have "no_sense ?d \<or> byte_at cdb 0 = 0x03" by simp
  then show ?thesis
    using assms answer_execute [of ?d cdb x] answer_execute [of "setSense kIllegalRequest kAscLunNotSupported d" cdb x]
    by (auto simp: sd_command_def lun_guard_def Let_def key_defs)
qed

text \<open>The one GOOD that leaves a sense: an ejected CD reports that its medium is gone.\<close>

lemma eject_sense:
  assumes "byte_at cdb 0 = 0x1B" "sd_kind d = Kind_Cdrom"
  shows "answer_ok (sd_command cdb x d) \<or> sd_command cdb x d = (kGood, [], sd_eject (setSense 0 0 d))"
  using assms
  by (simp add: sd_command_def sd_execute_def lun_guard_def cd_command_def Let_def key_defs)

lemma command_answer:
  "answer_ok (sd_command cdb x d) \<or>
   byte_at cdb 0 = 0x1B \<and> sd_kind d = Kind_Cdrom \<and> sd_command cdb x d = (kGood, [], sd_eject (setSense 0 0 d))"
  using answer_command [of cdb d x] eject_sense [of cdb d x] by blast

text \<open>REQUEST SENSE for the whole sense data.\<close>

definition request_sense_cdb :: "u8 list" where
  "request_sense_cdb = [0x03, 0, 0, 0, 18, 0]"

definition fixed_sense :: "scsi_disk \<Rightarrow> u8 list" where
  "fixed_sense d = [0x70, 0, sd_senseKey d, 0, 0, 0, 0, 10, 0, 0, 0, 0, sd_senseAsc d, sd_senseAscq d, 0, 0, 0, 0]"

lemma sd_request_sense_answer:
  assumes "sd_senseKey d AND 0x0F = sd_senseKey d"
  shows "sd_request_sense request_sense_cdb d = (kGood, fixed_sense d, setSense 0 0 d)"
proof -
  have "alloc_or 4 request_sense_cdb = 18" by (simp add: alloc_or_def request_sense_cdb_def byte_at_def)
  then have al: "min (alloc_or 4 request_sense_cdb) kFixedSenseLen = 18" by (simp add: kFixedSenseLen_def)
  have r: "replicate 18 (0 :: u8) = [0, 0, 0, 0, 0, 0, 0, 0, 0, 0, 0, 0, 0, 0, 0, 0, 0, 0]" by (simp add: numeral_nat)
  show ?thesis using assms by (simp add: sd_request_sense_def al r fixed_sense_def Let_def)
qed

lemma sd_request_sense_full:
  assumes "sd_senseKey d AND 0x0F = sd_senseKey d" "effectiveLun request_sense_cdb d = 0"
  shows "sd_command request_sense_cdb x d = (kGood, fixed_sense d, setSense 0 0 d)"
proof -
  have b: "byte_at request_sense_cdb 0 = 3" "length request_sense_cdb = 6" "kGroupLen 3 = 6" "request_sense_cdb \<noteq> []"
    by (simp_all add: request_sense_cdb_def byte_at_def kGroupLen_def)
  show ?thesis
    using sd_request_sense_answer [OF assms(1)] assms(2) b
    by (simp add: sd_command_def lun_guard_def sd_execute_def cd_command_def shared_command_def Let_def)
qed

lemma sd_request_sense_other_lun:
  assumes "effectiveLun request_sense_cdb d \<noteq> 0"
  shows "sd_command request_sense_cdb x d =
    (kGood, fixed_sense (setSense kIllegalRequest kAscLunNotSupported d), setSense 0 0 d)"
proof -
  let ?d = "setSense kIllegalRequest kAscLunNotSupported d"
  have b: "byte_at request_sense_cdb 0 = 3" "length request_sense_cdb = 6" "kGroupLen 3 = 6" "request_sense_cdb \<noteq> []"
    by (simp_all add: request_sense_cdb_def byte_at_def kGroupLen_def)
  have "sd_senseKey ?d AND 0x0F = sd_senseKey ?d" by (simp add: kIllegalRequest_def)
  from sd_request_sense_answer [OF this]
  have "sd_request_sense request_sense_cdb ?d = (kGood, fixed_sense ?d, setSense 0 0 d)" by (simp add: setSense_def)
  then show ?thesis
    using assms b by (simp add: sd_command_def lun_guard_def sd_execute_def cd_command_def shared_command_def Let_def)
qed

text \<open>C12: every command ends GOOD with no sense pending (an ejected CD apart, which reports that its
  medium is gone), or with CHECK CONDITION, no data and a sense key.  On a connection to logical unit 0
  a REQUEST SENSE then returns that very sense, and a second one none.  On a connection that identified
  any other unit every REQUEST SENSE ends GOOD and reports LOGICAL UNIT NOT SUPPORTED, the first as the
  next.\<close>

theorem sense_protocol:
  assumes "sd_command cdb x d = (st, out, d1)"
  shows "(if st = kCheck then out = [] \<and> sd_senseKey d1 \<noteq> 0
      else st = kGood \<and> (no_sense d1 \<or> byte_at cdb 0 = 0x1B \<and> sd_kind d = Kind_Cdrom \<and>
        sd_senseKey d1 = kNotReady \<and> sd_senseAsc d1 = 0x3A)) \<and>
    (if effectiveLun request_sense_cdb d1 = 0
      then sd_command request_sense_cdb y d1 = (kGood, fixed_sense d1, setSense 0 0 d1) \<and>
        sd_command request_sense_cdb y (setSense 0 0 d1) = (kGood, fixed_sense (setSense 0 0 d1), setSense 0 0 d1)
      else \<forall>e \<in> {d1, setSense 0 0 d1}. sd_command request_sense_cdb y e =
        (kGood, fixed_sense (setSense kIllegalRequest kAscLunNotSupported e), setSense 0 0 d1))"
proof -
  have "sd_senseKey d1 \<in> {0, 0x02, 0x05, 0x06, 0x07, 0x0E}"
    using command_answer [of cdb x d] assms
    by (auto simp: answer_ok_def no_sense_def sd_eject_def Let_def)
  then have k: "sd_senseKey d1 AND 0x0F = sd_senseKey d1" by auto
  have z: "setSense 0 0 (setSense 0 0 d1) = setSense 0 0 d1" by (simp add: setSense_def)
  have "st = kCheck \<Longrightarrow> out = [] \<and> sd_senseKey d1 \<noteq> 0"
    using command_answer [of cdb x d] assms by (auto simp: answer_ok_def kGood_def kCheck_def)
  moreover have "st \<noteq> kCheck \<Longrightarrow> st = kGood \<and> (no_sense d1 \<or> byte_at cdb 0 = 0x1B \<and> sd_kind d = Kind_Cdrom \<and>
      sd_senseKey d1 = kNotReady \<and> sd_senseAsc d1 = 0x3A)"
    using command_answer [of cdb x d] assms by (auto simp: answer_ok_def sd_eject_def Let_def kNotReady_def)
  ultimately show ?thesis
    using sd_request_sense_full [OF k] sd_request_sense_full [of "setSense 0 0 d1"]
      sd_request_sense_other_lun [of d1] sd_request_sense_other_lun [of "setSense 0 0 d1"]
    by (simp add: z)
qed

theorem sense_protocol_witness:
  "(\<exists>d1. sd_command [0x28, 0, 0, 0, 0, 9, 0, 0, 1, 0] [] scsi_disk_init = (kCheck, [], d1) \<and>
     sd_command request_sense_cdb [] d1 = (kGood, [0x70, 0, 0x05, 0, 0, 0, 0, 10, 0, 0, 0, 0, 0x24, 0, 0, 0, 0, 0], setSense 0 0 d1)) \<and>
   (\<exists>d1. sd_command [0x28, 0, 0, 0, 0, 9, 0, 0, 1, 0] [] (sd_selectLun 3 scsi_disk_init) = (kCheck, [], d1) \<and>
     sd_command request_sense_cdb [] d1 = (kGood, [0x70, 0, 0x05, 0, 0, 0, 0, 10, 0, 0, 0, 0, 0x25, 0, 0, 0, 0, 0], setSense 0 0 d1))"
proof
  let ?c = "[0x28, 0, 0, 0, 0, 9, 0, 0, 1, 0] :: u8 list"
  have c: "sd_command ?c [] scsi_disk_init = (kCheck, [], setSense 0x05 0x24 (setSense 0 0 scsi_disk_init))"
    by (simp add: sd_command_def kGroupLen_def lun_guard_def effectiveLun_def sd_execute_def shared_command_def
        sd_read_command_def dataEndLba_def lba10_def cnt10_def be32_at_def byte_at_def scsi_disk_init_def kNoIdentify_def
        setSense_def sd_refuse_def kIllegalRequest_def)
  have "effectiveLun request_sense_cdb (setSense 0x05 0x24 (setSense 0 0 scsi_disk_init)) = 0"
    by (simp add: effectiveLun_def request_sense_cdb_def byte_at_def scsi_disk_init_def)
  with sense_protocol [OF c, of "[]"] show "\<exists>d1. sd_command ?c [] scsi_disk_init = (kCheck, [], d1) \<and>
      sd_command request_sense_cdb [] d1 = (kGood, [0x70, 0, 0x05, 0, 0, 0, 0, 10, 0, 0, 0, 0, 0x24, 0, 0, 0, 0, 0], setSense 0 0 d1)"
    using c by (simp add: fixed_sense_def)
  let ?d = "setSense 0x05 0x25 (setSense 0 0 (sd_selectLun 3 scsi_disk_init))"
  have e: "sd_command ?c [] (sd_selectLun 3 scsi_disk_init) = (kCheck, [], ?d)"
    by (simp add: sd_command_def kGroupLen_def lun_guard_def effectiveLun_def byte_at_def sd_selectLun_def kNoIdentify_def
        sd_refuse_def kIllegalRequest_def kAscLunNotSupported_def)
  have "effectiveLun request_sense_cdb ?d \<noteq> 0"
    by (simp add: effectiveLun_def sd_selectLun_def kNoIdentify_def)
  with sense_protocol [OF e, of "[]"] show "\<exists>d1. sd_command ?c [] (sd_selectLun 3 scsi_disk_init) = (kCheck, [], d1) \<and>
      sd_command request_sense_cdb [] d1 = (kGood, [0x70, 0, 0x05, 0, 0, 0, 0, 10, 0, 0, 0, 0, 0x25, 0, 0, 0, 0, 0], setSense 0 0 d1)"
    using e by (simp add: fixed_sense_def kIllegalRequest_def kAscLunNotSupported_def)
qed


section \<open>What a command changes on the medium\<close>

text \<open>The parts of a target that hold its data: the image, its history and the backing file.\<close>

definition same_medium :: "scsi_disk \<Rightarrow> scsi_disk \<Rightarrow> bool" where
  "same_medium d d' \<longleftrightarrow> sd_image d' = sd_image d \<and> sd_timeline d' = sd_timeline d \<and> sd_file d' = sd_file d \<and>
     sd_writeBack d' = sd_writeBack d \<and> sd_host d' = sd_host d \<and> sd_kind d' = sd_kind d \<and> sd_blocks d' = sd_blocks d \<and>
     sd_hfsPrefixBlocks d' = sd_hfsPrefixBlocks d \<and> sd_dataStartLba d' = sd_dataStartLba d"

text \<open>The write a command stands for, where one is allowed: only a hard disk may be written (a CD and a
  512-byte disc dump are read-only media), and only inside its range.\<close>

definition write_of :: "u8 list \<Rightarrow> scsi_disk \<Rightarrow> (u32 \<times> u32) option" where
  "write_of cdb d =
     (let op = byte_at cdb 0;
          r = (if op = 0x0A then (lba6 cdb, cnt6 cdb) else (lba10 cdb, cnt10 cdb))
      in if sd_kind d = Kind_Disk \<and> (op = 0x0A \<or> op = 0x2A \<or> op = 0x2E) \<and> unat (fst r) + unat (snd r) \<le> dataEndLba d
         then Some r else None)"

text \<open>The one command that escapes the protection of a removable medium.\<close>

definition escapes_protection :: "u8 list \<Rightarrow> scsi_disk \<Rightarrow> bool" where
  "escapes_protection cdb d \<longleftrightarrow> sd_kind d = Kind_Removable \<and> byte_at cdb 0 = 0x2E"

definition keeps_medium :: "scsi_disk \<Rightarrow> u8 \<times> u8 list \<times> scsi_disk \<Rightarrow> bool" where
  "keeps_medium d r \<longleftrightarrow> same_medium d (snd (snd r))"

lemma same_medium_refl [simp]: "same_medium d d"
  by (simp add: same_medium_def)

lemma same_medium_moves [simp]:
  "same_medium d (setSense k a d) " "same_medium d (sd_motor_step l d)" "same_medium d (snd (sd_read l c d))"
  "same_medium d (modeSelect params ten d)" "same_medium d (d\<lparr>sd_unitAttention := u\<rparr>)"
  using modeSelect_events [of params ten d]
  by (auto simp: same_medium_def setSense_def sd_motor_step_def sd_event_def sd_read_def Let_def)

lemma same_medium_trans [trans]: "same_medium a b \<Longrightarrow> same_medium b c \<Longrightarrow> same_medium a c"
  by (simp add: same_medium_def)

lemma keeps_good [simp]: "keeps_medium d (st, r) = same_medium d (snd r)"
  by (cases r) (simp add: keeps_medium_def)

lemma keeps_refuse [simp]: "keeps_medium d (sd_refuse k a d') = same_medium d d'"
  by (simp add: keeps_medium_def sd_refuse_def same_medium_def)

lemmas keeps_if = if_distrib [of "keeps_medium d" for d]

lemma keeps_commands [simp]:
  "keeps_medium d (sd_request_sense cdb d)" "keeps_medium d (sd_read_command lba c d)" "keeps_medium d (sd_seek lba d)"
  "keeps_medium d (sd_verify cdb x d)" "keeps_medium d (modeSense cdb ten d)"
  by (simp_all add: sd_request_sense_def sd_read_command_def sd_seek_def sd_verify_def modeSense_def Let_def keeps_if
      case_prod_beta split: option.split)

lemma keeps_cd_commands [simp]:
  "keeps_medium d (cd_play cdb d)" "keeps_medium d (cd_pause_resume cdb d)" "keeps_medium d (cd_read_toc cdb d)"
  "keeps_medium d (cd_subchannel cdb d)" "keeps_medium d (cd_verify cdb d)"
  by (simp_all add: cd_play_def cd_pause_resume_def cd_read_toc_def cd_subchannel_def cd_verify_def Let_def keeps_if)
    (simp_all add: same_medium_def sd_event_def)

lemma same_medium_file_write:
  "same_medium a b \<Longrightarrow> same_medium (sd_file_write off bs a) (sd_file_write off bs b)"
  by (simp add: same_medium_def sd_file_write_def Let_def split: option.split list.split)

lemma same_medium_write_back:
  "same_medium a b \<Longrightarrow> same_medium (sd_write_back l c w x a) (sd_write_back l c w x b)"
  using same_medium_file_write [of a b]
  by (simp add: sd_write_back_def Let_def) (simp add: same_medium_def)

lemma sd_store_alt:
  "sd_store l c x d =
     (let w = store_len l c x (sd_image d);
          d' = d\<lparr>sd_timeline := (if tl_attached (sd_timeline d)
                    then store_history l (unat l * kBlockSize) w 0 (sd_image d) x (sd_timeline d) else sd_timeline d),
                 sd_image := overwrite (unat l * kBlockSize) (take w x) (sd_image d)\<rparr>
      in if \<not> sd_writeBack d \<or> w = 0 then d' else sd_write_back l c w x d')"
proof (cases "length (sd_image d) \<le> unat l * kBlockSize")
  case True
  then have "store_len l c x (sd_image d) = 0" by (simp add: store_len_def)
  moreover have "store_history l (unat l * kBlockSize) 0 0 (sd_image d) x t = t" for t by (simp add: store_history.simps)
  ultimately show ?thesis using True by (simp add: sd_store_def)
next
  case False
  define w where "w = store_len l c x (sd_image d)"
  have "w = (let w = (if unat c * kBlockSize < length (sd_image d) - unat l * kBlockSize then unat c * kBlockSize
                else length (sd_image d) - unat l * kBlockSize) in if length x < w then length x else w)"
    by (auto simp: w_def store_len_def Let_def min_def)
  then show ?thesis
    unfolding sd_store_def w_def [symmetric] using False by (simp only: Let_def if_False) simp
qed

lemma same_medium_store:
  assumes "same_medium a b"
  shows "same_medium (sd_store l c x a) (sd_store l c x b)"
proof -
  have e: "sd_image b = sd_image a" "sd_timeline b = sd_timeline a" "sd_writeBack b = sd_writeBack a"
    using assms by (simp_all add: same_medium_def)
  have u: "same_medium (a\<lparr>sd_timeline := t, sd_image := i\<rparr>) (b\<lparr>sd_timeline := t, sd_image := i\<rparr>)" for t i
    using assms by (simp add: same_medium_def)
  show ?thesis
  proof (cases "\<not> sd_writeBack a \<or> store_len l c x (sd_image a) = 0")
    case True
    then show ?thesis unfolding sd_store_alt Let_def e by (simp only: if_True u)
  next
    case False
    then show ?thesis unfolding sd_store_alt Let_def e by (simp only: if_False same_medium_write_back [OF u])
  qed
qed

lemma same_medium_write: "same_medium (sd_store l c x d) (sd_write l c x d)"
  unfolding sd_write_def Let_def
  by (intro same_medium_store) (simp add: same_medium_def sd_motor_step_def sd_event_def)

text \<open>The three outcomes of a command for the medium, the escape apart.\<close>

definition medium_outcome :: "u8 list \<Rightarrow> u8 list \<Rightarrow> scsi_disk \<Rightarrow> u8 \<times> u8 list \<times> scsi_disk \<Rightarrow> bool" where
  "medium_outcome cdb x d r \<longleftrightarrow> escapes_protection cdb d \<or> keeps_medium d r \<or>
     (\<exists>l c. write_of cdb d = Some (l, c) \<and> fst r = kGood \<and> keeps_medium (sd_store l c x d) r) \<or>
     sd_kind d = Kind_Cdrom \<and> byte_at cdb 0 = 0x1B \<and> r = (kGood, [], sd_eject d)"

lemma outcome_keeps: "keeps_medium d r \<Longrightarrow> medium_outcome cdb x d r"
  by (simp add: medium_outcome_def)

lemma outcome_write:
  assumes "write_of cdb d = (if dataEndLba d < unat l + unat c then None else Some (l, c))"
  shows "medium_outcome cdb x d (sd_write_command l c x d)"
  using assms same_medium_write by (auto simp: medium_outcome_def sd_write_command_def)

lemma outcome_shared:
  assumes "sd_kind d \<noteq> Kind_Cdrom \<or> byte_at cdb 0 \<notin> {0x0A, 0x2A, 0x2E}"
  shows "medium_outcome cdb x d (shared_command cdb x d)"
proof (cases "byte_at cdb 0 \<in> {0x0A, 0x2A, 0x2E}")
  case True
  then have k: "sd_kind d = Kind_Disk \<or> sd_kind d = Kind_Removable" using assms by (cases "sd_kind d") simp_all
  show ?thesis
  proof (cases "escapes_protection cdb d")
    case False
    then show ?thesis
      using True k outcome_write [of cdb d] outcome_keeps
      by (auto simp: shared_command_def write_of_def Let_def not_less escapes_protection_def)
  qed (simp add: medium_outcome_def)
next
  case False
  then have "keeps_medium d (shared_command cdb x d)" by (simp add: shared_command_def Let_def keeps_if)
  then show ?thesis by (rule outcome_keeps)
qed

lemma outcome_cd: "sd_kind d = Kind_Cdrom \<Longrightarrow> pred_option (medium_outcome cdb x d) (cd_command cdb x d)"
  by (simp add: cd_command_def cd_read_guard_def Let_def if_distrib [of "pred_option (medium_outcome cdb x d)"]
      outcome_keeps keeps_if medium_outcome_def)

lemma outcome_execute: "medium_outcome cdb x d (sd_execute cdb x d)"
proof -
  have "sd_kind d = Kind_Cdrom \<Longrightarrow> byte_at cdb 0 \<in> {0x0A, 0x2A, 0x2E} \<Longrightarrow> cd_command cdb x d \<noteq> None"
    by (auto simp: cd_command_def Let_def sd_refuse_def)
  then have "cd_command cdb x d = None \<or> sd_kind d \<noteq> Kind_Cdrom \<Longrightarrow> medium_outcome cdb x d (shared_command cdb x d)"
    using outcome_shared [of d cdb x] by blast
  moreover have "same_medium d (d\<lparr>sd_unitAttention := False\<rparr>)" by simp
  ultimately show ?thesis
    using outcome_cd [of d cdb x] outcome_keeps [of d _ cdb x]
    by (auto simp: sd_execute_def split: option.split)
qed

lemma sd_eject_setSense [simp]: "sd_eject (setSense k a d) = sd_eject d"
  by (simp add: sd_eject_def setSense_def sd_stop_audio_def sd_event_def Let_def)

lemma outcome_setSense: "medium_outcome cdb x (setSense k a d) r = medium_outcome cdb x d r"
proof -
  let ?d = "setSense k a d"
  have "dataEndLba ?d = dataEndLba d" by (simp add: dataEndLba_def)
  then have "write_of cdb ?d = write_of cdb d" by (simp add: write_of_def Let_def)
  moreover have s: "same_medium ?d e = same_medium d e" for e by (simp add: same_medium_def)
  moreover have "same_medium (sd_store l c x ?d) e = same_medium (sd_store l c x d) e" for l c e
  proof -
    have "same_medium ?d d" "same_medium d ?d" by (simp_all add: s)
    then show ?thesis using same_medium_store same_medium_trans by blast
  qed
  ultimately show ?thesis by (simp add: medium_outcome_def keeps_medium_def escapes_protection_def)
qed

lemma outcome_command: "medium_outcome cdb x d (sd_command cdb x d)"
proof -
  let ?d = "if byte_at cdb 0 \<noteq> 0x03 then setSense 0 0 d else d"
  have e: "medium_outcome cdb x d r = medium_outcome cdb x ?d r" for r by (simp add: outcome_setSense)
  have "medium_outcome cdb x ?d (case lun_guard cdb ?d of Inl r \<Rightarrow> r | Inr e \<Rightarrow> sd_execute cdb x e)"
    using outcome_execute [of cdb x ?d] outcome_execute [of cdb x "setSense kIllegalRequest kAscLunNotSupported ?d"]
    by (auto simp: lun_guard_def outcome_keeps outcome_setSense)
  then show ?thesis
    unfolding e by (auto simp: sd_command_def Let_def outcome_keeps outcome_setSense)
qed

text \<open>C11: what a command can do to a medium, whatever its bytes, the WRITE AND VERIFY of a removable medium
  apart.  It leaves image, history and backing file alone; or it is a write to a hard disk, inside
  its range, ends GOOD and replaces exactly the bytes of the addressed blocks; or it ejects a CD.  In
  particular no other command writes to a CD or to a removable medium.\<close>

theorem medium_safety:
  assumes "sd_command cdb x d = (st, out, d1)" "\<not> (sd_kind d = Kind_Removable \<and> byte_at cdb 0 = 0x2E)"
  shows "same_medium d d1 \<or>
    (\<exists>l c. write_of cdb d = Some (l, c) \<and> sd_kind d = Kind_Disk \<and> st = kGood \<and> unat l + unat c \<le> dataEndLba d \<and>
       sd_image d1 = overwrite (unat l * kBlockSize) (take (store_len l c x (sd_image d)) x) (sd_image d)) \<or>
    sd_kind d = Kind_Cdrom \<and> byte_at cdb 0 = 0x1B \<and> sd_image d1 = []"
proof -
  have "write_of cdb d = Some (l, c) \<Longrightarrow> sd_kind d = Kind_Disk \<and> unat l + unat c \<le> dataEndLba d" for l c
    by (auto simp: write_of_def Let_def split: if_splits)
  moreover have "same_medium (sd_store l c x d) d1 \<Longrightarrow> sd_image d1 =
      overwrite (unat l * kBlockSize) (take (store_len l c x (sd_image d)) x) (sd_image d)" for l c
    by (simp add: same_medium_def sd_store_image)
  moreover have "sd_image (sd_eject d) = []" by (simp add: sd_eject_def sd_stop_audio_def sd_event_def setSense_def Let_def)
  moreover have "\<not> escapes_protection cdb d" using assms(2) by (simp add: escapes_protection_def)
  ultimately show ?thesis
    using outcome_command [of cdb x d] assms(1) by (fastforce simp: medium_outcome_def)
qed

text \<open>One block of a removable medium, and of a hard disk.\<close>

definition demo_removable :: scsi_disk where
  "demo_removable = scsi_disk_init\<lparr>sd_kind := Kind_Removable, sd_attached := True, sd_image := replicate 512 0,
     sd_blocks := 1\<rparr>"

definition demo_fixed :: scsi_disk where
  "demo_fixed = scsi_disk_init\<lparr>sd_image := replicate 512 0, sd_blocks := 1\<rparr>"

lemmas command_eval = sd_command_def kGroupLen_def lun_guard_def effectiveLun_def sd_execute_def shared_command_def
  dataEndLba_def lba10_def cnt10_def be32_at_def byte_at_def kNoIdentify_def

text \<open>WRITE refuses a removable medium as write-protected; WRITE AND VERIFY writes to it.\<close>

lemma removable_write_and_verify:
  "fst (sd_command [0x2A, 0, 0, 0, 0, 0, 0, 0, 1, 0] (replicate 512 7) demo_removable) = kCheck"
  "fst (sd_command [0x2E, 0, 0, 0, 0, 0, 0, 0, 1, 0] (replicate 512 7) demo_removable) = kGood"
  "sd_image (snd (snd (sd_command [0x2E, 0, 0, 0, 0, 0, 0, 0, 1, 0] (replicate 512 7) demo_removable))) = replicate 512 7"
  by (simp_all add: command_eval demo_removable_def scsi_disk_init_def sd_refuse_def sd_write_command_def sd_write_def
      sd_store_image store_len_def kBlockSize_def overwrite_def setSense_def sd_motor_step_def Let_def kGood_def kCheck_def)

lemma fixed_write_and_verify:
  "sd_image (snd (snd (sd_command [0x2E, 0, 0, 0, 0, 0, 0, 0, 1, 0] (replicate 512 7) demo_fixed))) = replicate 512 7"
  by (simp add: command_eval demo_fixed_def scsi_disk_init_def sd_write_command_def sd_write_def
      sd_store_image store_len_def kBlockSize_def overwrite_def setSense_def sd_motor_step_def Let_def)

theorem medium_safety_witness:
  "(\<exists>l c. write_of [0x2E, 0, 0, 0, 0, 0, 0, 0, 1, 0] demo_fixed = Some (l, c) \<and> unat l + unat c \<le> dataEndLba demo_fixed) \<and>
   same_medium demo_removable (snd (snd (sd_command [0x2A, 0, 0, 0, 0, 0, 0, 0, 1, 0] (replicate 512 7) demo_removable)))"
proof
  let ?w = "[0x2E, 0, 0, 0, 0, 0, 0, 0, 1, 0] :: u8 list" and ?v = "[0x2A, 0, 0, 0, 0, 0, 0, 0, 1, 0] :: u8 list"
  obtain st out d1 where r: "sd_command ?w (replicate 512 7) demo_fixed = (st, out, d1)" by (metis prod.collapse)
  have "sd_image d1 = replicate 512 7" using fixed_write_and_verify by (simp add: r)
  moreover have "sd_image demo_fixed = replicate 512 0" "sd_kind demo_fixed = Kind_Disk"
    by (simp_all add: demo_fixed_def scsi_disk_init_def)
  moreover have "replicate 512 7 \<noteq> (replicate 512 0 :: u8 list)" by simp
  ultimately show "\<exists>l c. write_of ?w demo_fixed = Some (l, c) \<and> unat l + unat c \<le> dataEndLba demo_fixed"
    using medium_safety [OF r] by (auto simp: same_medium_def)
  obtain st' out' d2 where q: "sd_command ?v (replicate 512 7) demo_removable = (st', out', d2)" by (metis prod.collapse)
  have "sd_kind demo_removable = Kind_Removable" "byte_at ?v 0 \<noteq> 0x2E"
    by (simp_all add: demo_removable_def byte_at_def)
  then have "same_medium demo_removable d2" using medium_safety [OF q] by auto
  then show "same_medium demo_removable (snd (snd (sd_command ?v (replicate 512 7) demo_removable)))" by (simp add: q)
qed

end
