(* ===== verification/Scsi_Session.thy ===== *)
theory Scsi_Session
  imports Scsi_Disk
begin

text \<open>
  The SCSI disk behind the controller: what a driver sees that moves blocks through the registers of
  the NCR 5380 (\<^verbatim>\<open>src/src/Ncr5380.cpp\<close>) to and from a hard disk (\<^verbatim>\<open>src/src/ScsiDisk.cpp\<close>), with the
  target's operations as the interface the controller calls.
\<close>

unbundle bit_operations_syntax

section \<open>The CDBs of a driver\<close>

definition cdb10 :: "u8 \<Rightarrow> u32 \<Rightarrow> 16 word \<Rightarrow> u8 list" where
  "cdb10 op lba cnt = [op, 0] @ be32_bytes lba @ [0] @ be16_bytes cnt @ [0]"

lemma cdb10_byte_at [simp]:
  "byte_at (cdb10 op lba cnt) 0 = op" "byte_at (cdb10 op lba cnt) 1 = 0" "byte_at (cdb10 op lba cnt) (Suc 0) = 0"
  "byte_at (cdb10 op lba cnt) 2 = ucast (drop_bit 24 lba)" "byte_at (cdb10 op lba cnt) 3 = ucast (drop_bit 16 lba)"
  "byte_at (cdb10 op lba cnt) 4 = ucast (drop_bit 8 lba)" "byte_at (cdb10 op lba cnt) 5 = ucast lba"
  "byte_at (cdb10 op lba cnt) 7 = ucast (drop_bit 8 cnt)" "byte_at (cdb10 op lba cnt) 8 = ucast cnt"
  by (simp_all add: cdb10_def byte_at_def be32_bytes_def be16_bytes_def)

lemma length_cdb10 [simp]: "length (cdb10 op lba cnt) = 10" "cdb10 op lba cnt \<noteq> []" "cdb10 op lba cnt ! 0 = op"
  by (simp_all add: cdb10_def be32_bytes_def be16_bytes_def)

lemma lba10_cdb10 [simp]: "lba10 (cdb10 op lba cnt) = lba"
proof (rule bit_word_eqI)
  fix n assume "n < LENGTH(32)"
  then show "bit (lba10 (cdb10 op lba cnt)) n = bit lba n"
    by (cases "n < 8"; cases "n < 16"; cases "n < 24") (auto simp: lba10_def be32_at_def bit_simps not_less)
qed

lemma cnt10_cdb10 [simp]: "cnt10 (cdb10 op lba cnt) = ucast cnt"
proof (rule bit_word_eqI)
  fix n
  show "bit (cnt10 (cdb10 op lba cnt)) n = bit (ucast cnt :: u32) n" if "n < LENGTH(32)"
    using that bit_imp_le_length [of cnt n] by (cases "n < 8") (auto simp: cnt10_def bit_simps not_less)
qed

lemma alloc10_cdb10 [simp]: "alloc10 (cdb10 op lba cnt) = unat cnt"
proof -
  have "unat cnt < 2 ^ 16" by (rule order_less_le_trans [OF unsigned_less]) simp
  then have "unat (ucast (drop_bit 8 cnt) :: u8) = unat cnt div 256"
    by (simp add: unsigned_ucast_eq drop_bit_eq_div unat_div take_bit_eq_mod)
  moreover have "unat (ucast cnt :: u8) = unat cnt mod 256" by (simp add: unsigned_ucast_eq take_bit_eq_mod)
  ultimately show ?thesis by (simp add: alloc10_def)
qed

lemma unat_ucast_16_32 [simp]: "unat (ucast (cnt :: 16 word) :: u32) = unat cnt"
proof -
  have "unat cnt < 2 ^ 16" by (rule order_less_le_trans [OF unsigned_less]) simp
  then show ?thesis by (simp add: unsigned_ucast_eq take_bit_eq_mod)
qed


section \<open>A driver's transfers\<close>

text \<open>Writing and reading \<open>cnt\<close> blocks of target \<open>i\<close>: select, send the CDB, move the bytes one ACK pulse at
  a time, take the status and the message.\<close>

definition driver_write :: "'d scsi_ops \<Rightarrow> nat \<Rightarrow> u32 \<Rightarrow> 16 word \<Rightarrow> u8 list \<Rightarrow> 'd ncr \<Rightarrow> u8 \<times> 'd ncr" where
  "driver_write ops i lba cnt data s =
     (let (st, msg, s) = ncr_host_finish ops
            (foldl (ncr_host_out ops) (ncr_host_command ops i (cdb10 0x2A lba cnt) s) data)
      in (st, s))"

definition driver_read :: "'d scsi_ops \<Rightarrow> nat \<Rightarrow> u32 \<Rightarrow> 16 word \<Rightarrow> 'd ncr \<Rightarrow> u8 list \<times> u8 \<times> 'd ncr" where
  "driver_read ops i lba cnt s =
     (let (bytes, s) = ncr_host_ins ops (unat cnt * kBlockSize) (ncr_host_command ops i (cdb10 0x28 lba cnt) s);
          (st, msg, s) = ncr_host_finish ops s
      in (bytes, st, s))"

text \<open>Several writes in a row, with the statuses they end with.\<close>

fun driver_writes :: "'d scsi_ops \<Rightarrow> nat \<Rightarrow> (u32 \<times> 16 word \<times> u8 list) list \<Rightarrow> 'd ncr \<Rightarrow> u8 list \<times> 'd ncr" where
  "driver_writes ops i [] s = ([], s)"
| "driver_writes ops i ((lba, cnt, data) # ws) s =
     (let (st, s) = driver_write ops i lba cnt data s; (sts, s) = driver_writes ops i ws s in (st # sts, s))"

text \<open>The specification: the disk as an array of blocks.\<close>

definition write_fits :: "nat \<Rightarrow> u32 \<times> 16 word \<times> u8 list \<Rightarrow> bool" where
  "write_fits blocks w \<longleftrightarrow>
     (case w of (lba, cnt, data) \<Rightarrow> 0 < cnt \<and> unat lba + unat cnt \<le> blocks \<and> length data = unat cnt * kBlockSize)"

definition array_write :: "u32 \<times> 16 word \<times> u8 list \<Rightarrow> u8 list \<Rightarrow> u8 list" where
  "array_write w img = (case w of (lba, cnt, data) \<Rightarrow> overwrite (unat lba * kBlockSize) data img)"

text \<open>The bus is idle and object \<open>a\<close> is the target at \<open>i\<close>.\<close>

definition bus_idle :: "nat \<Rightarrow> nat \<Rightarrow> 'd ncr \<Rightarrow> bool" where
  "bus_idle i a s \<longleftrightarrow> i < 7 \<and> nc_phase s = BUS_FREE \<and> ncr_quiet s \<and> nc_targets s i = Some a"

lemma cdb10_not_mailbox [simp]: "op \<in> {0x28, 0x2A} \<Longrightarrow> \<not> mailbox_handles (cdb10 op lba cnt)"
  by (auto simp: mailbox_handles_def kPoll_def kReport_def)


section \<open>The contract of a block target\<close>

text \<open>What a driver relies on: a target that is \<open>ready\<close> answers a selection, asks for exactly the bytes of
  a write and none for a read, and executes the two commands on its \<open>contents\<close>.\<close>

locale block_target =
  fixes ops :: "'d scsi_ops" and ready :: "'d \<Rightarrow> bool" and blocks :: "'d \<Rightarrow> nat" and contents :: "'d \<Rightarrow> u8 list"
  assumes present: "ready d \<Longrightarrow> t_present ops d"
    and write_size: "ready d \<Longrightarrow>
      t_writeByteCount ops (cdb10 0x2A lba cnt) (t_selectLun ops kNoIdentify d) = int (unat cnt * kBlockSize)"
    and read_size: "ready d \<Longrightarrow> t_writeByteCount ops (cdb10 0x28 lba cnt) (t_selectLun ops kNoIdentify d) = 0"
    and fixed_size: "t_extendDataOut ops (cdb10 0x2A lba cnt) got n d = n"
    and covers: "ready d \<Longrightarrow> blocks d * kBlockSize \<le> length (contents d)"
    and write_law: "ready d \<Longrightarrow> unat lba + unat cnt \<le> blocks d \<Longrightarrow> length data = unat cnt * kBlockSize \<Longrightarrow>
      \<exists>d'. t_command ops (cdb10 0x2A lba cnt) data (t_selectLun ops kNoIdentify d) = (kGood, [], d') \<and> ready d' \<and>
        blocks d' = blocks d \<and> contents d' = overwrite (unat lba * kBlockSize) data (contents d)"
    and read_law: "ready d \<Longrightarrow> unat lba + unat cnt \<le> blocks d \<Longrightarrow>
      \<exists>d'. t_command ops (cdb10 0x28 lba cnt) [] (t_selectLun ops kNoIdentify d) =
          (kGood, take (unat cnt * kBlockSize) (drop (unat lba * kBlockSize) (contents d)), d') \<and> ready d' \<and>
        blocks d' = blocks d \<and> contents d' = contents d"
begin

lemma driver_write_ok:
  assumes "bus_idle i a s" "ready (nc_store s a)" "unat lba + unat cnt \<le> blocks (nc_store s a)" "0 < cnt"
    and "length data = unat cnt * kBlockSize"
  shows "\<exists>s' d'. driver_write ops i lba cnt data s = (kGood, s') \<and> bus_idle i a s' \<and> nc_store s' = (nc_store s)(a := d') \<and>
    ready d' \<and> contents d' = overwrite (unat lba * kBlockSize) data (contents (nc_store s a)) \<and>
    blocks d' = blocks (nc_store s a)"
proof -
  let ?d = "nc_store s a" and ?c = "cdb10 0x2A lba cnt"
  obtain d' where d': "t_command ops ?c data (t_selectLun ops kNoIdentify ?d) = (kGood, [], d')" "ready d'"
    "blocks d' = blocks ?d" "contents d' = overwrite (unat lba * kBlockSize) data (contents ?d)"
    using write_law [OF assms(2,3,5)] by blast
  have r: "i < 7" "nc_phase s = BUS_FREE" "\<not> bit (nc_icr s) 7" "\<not> bit (nc_icr s) 4" "nc_targets s i = Some a"
    using assms(1) by (simp_all add: bus_idle_def ncr_quiet_def)
  have "0 < unat cnt" using assms(4) by (simp add: word_less_nat_alt)
  then have n: "data \<noteq> []" using assms(5) by (auto simp: kBlockSize_def)
  have "\<exists>s2. ncr_host_finish ops (foldl (ncr_host_out ops) (ncr_host_command ops i ?c s) data) = (kGood, 0, s2) \<and>
      ncr_sess a ((nc_store s)(a := d')) (nc_agent s) s2 \<and> nc_phase s2 = BUS_FREE"
    by (rule ncr_write_session [OF r(2,3,4,1,5) present [OF assms(2)] _ _ _ refl n _ _ d'(1)])
      (simp_all add: cdbLength_def write_size [OF assms(2)] assms(5) fixed_size)
  then obtain s2 where s2: "ncr_host_finish ops (foldl (ncr_host_out ops) (ncr_host_command ops i ?c s) data) =
      (kGood, 0, s2)" "ncr_sess a ((nc_store s)(a := d')) (nc_agent s) s2" "nc_phase s2 = BUS_FREE" by blast
  have "nc_targets s2 = nc_targets s"
    using ncr_host_finish_targets [of ops "foldl (ncr_host_out ops) (ncr_host_command ops i ?c s) data"]
    by (simp add: s2(1))
  then show ?thesis
    using s2 r d' by (intro exI [of _ s2] exI [of _ d']) (simp add: driver_write_def bus_idle_def ncr_sess_def)
qed

lemma driver_read_ok:
  assumes "bus_idle i a s" "ready (nc_store s a)" "unat lba + unat cnt \<le> blocks (nc_store s a)"
  shows "\<exists>s' d'. driver_read ops i lba cnt s =
      (take (unat cnt * kBlockSize) (drop (unat lba * kBlockSize) (contents (nc_store s a))), kGood, s') \<and>
    bus_idle i a s' \<and> nc_store s' = (nc_store s)(a := d') \<and> ready d' \<and> contents d' = contents (nc_store s a)"
proof -
  let ?d = "nc_store s a" and ?c = "cdb10 0x28 lba cnt"
  let ?out = "take (unat cnt * kBlockSize) (drop (unat lba * kBlockSize) (contents ?d))"
  obtain d' where d': "t_command ops ?c [] (t_selectLun ops kNoIdentify ?d) = (kGood, ?out, d')" "ready d'"
    "contents d' = contents ?d"
    using read_law [OF assms(2,3)] by blast
  have r: "i < 7" "nc_phase s = BUS_FREE" "\<not> bit (nc_icr s) 7" "\<not> bit (nc_icr s) 4" "nc_targets s i = Some a"
    using assms(1) by (simp_all add: bus_idle_def ncr_quiet_def)
  have "(unat lba + unat cnt) * kBlockSize \<le> blocks ?d * kBlockSize" using assms(3) by (rule mult_le_mono1)
  then have "unat lba * kBlockSize + unat cnt * kBlockSize \<le> length (contents ?d)"
    using covers [OF assms(2)] by (simp add: add_mult_distrib)
  then have len: "length ?out = unat cnt * kBlockSize" by simp
  have "\<exists>s1 s2. ncr_host_ins ops (length ?out) (ncr_host_command ops i ?c s) = (?out, s1) \<and>
      ncr_host_finish ops s1 = (kGood, 0, s2) \<and> ncr_sess a ((nc_store s)(a := d')) (nc_agent s) s2 \<and> nc_phase s2 = BUS_FREE"
    by (rule ncr_read_session [OF r(2,3,4,1,5) present [OF assms(2)] _ _ _ refl _ d'(1)])
      (simp_all add: cdbLength_def read_size [OF assms(2)])
  then obtain s1 s2 where s2: "ncr_host_ins ops (length ?out) (ncr_host_command ops i ?c s) = (?out, s1)"
    "ncr_host_finish ops s1 = (kGood, 0, s2)" "ncr_sess a ((nc_store s)(a := d')) (nc_agent s) s2" "nc_phase s2 = BUS_FREE"
    by blast
  have "nc_targets s1 = nc_targets s"
    using ncr_host_ins_targets [of ops "length ?out" "ncr_host_command ops i ?c s"] unfolding s2(1) by simp
  then have "nc_targets s2 = nc_targets s" using ncr_host_finish_targets [of ops s1] by (simp add: s2(2))
  then show ?thesis
    using s2 r d' len by (intro exI [of _ s2] exI [of _ d']) (simp add: driver_read_def bus_idle_def ncr_sess_def)
qed

lemma driver_writes_ok:
  assumes "bus_idle i a s" "ready (nc_store s a)" "list_all (write_fits (blocks (nc_store s a))) ws"
  shows "\<exists>s' d'. driver_writes ops i ws s = (replicate (length ws) kGood, s') \<and> bus_idle i a s' \<and>
    nc_store s' = (nc_store s)(a := d') \<and> ready d' \<and> contents d' = fold array_write ws (contents (nc_store s a)) \<and>
    blocks d' = blocks (nc_store s a)"
  using assms
proof (induction ws arbitrary: s)
  case Nil
  then show ?case by (intro exI [of _ s] exI [of _ "nc_store s a"]) simp
next
  case (Cons w ws)
  obtain lba cnt data where w: "w = (lba, cnt, data)" by (cases w)
  obtain s1 d1 where s1: "driver_write ops i lba cnt data s = (kGood, s1)" "bus_idle i a s1" "nc_store s1 = (nc_store s)(a := d1)"
    "ready d1" "contents d1 = overwrite (unat lba * kBlockSize) data (contents (nc_store s a))" "blocks d1 = blocks (nc_store s a)"
    using driver_write_ok [OF Cons.prems(1,2), of lba cnt data] Cons.prems(3) by (auto simp: w write_fits_def)
  have "ready (nc_store s1 a)" "list_all (write_fits (blocks (nc_store s1 a))) ws" using Cons.prems(3) s1 by simp_all
  from Cons.IH [OF s1(2) this]
  obtain s2 d2 where s2: "driver_writes ops i ws s1 = (replicate (length ws) kGood, s2)" "bus_idle i a s2"
    "nc_store s2 = (nc_store s1)(a := d2)" "ready d2" "contents d2 = fold array_write ws (contents (nc_store s1 a))"
    "blocks d2 = blocks (nc_store s1 a)" by blast
  then show ?case
    using s1 by (intro exI [of _ s2] exI [of _ d2]) (simp add: w array_write_def [of "(lba, cnt, data)"])
qed

text \<open>Writes and a read through the registers are writes and a read of an array.\<close>

lemma transfers_refine_array:
  assumes "bus_idle i a s" "ready (nc_store s a)" "list_all (write_fits (blocks (nc_store s a))) ws"
    and "unat lba + unat cnt \<le> blocks (nc_store s a)"
  shows "let (sts, s1) = driver_writes ops i ws s; (bytes, st, s2) = driver_read ops i lba cnt s1
    in sts = replicate (length ws) kGood \<and> st = kGood \<and>
       bytes = take (unat cnt * kBlockSize) (drop (unat lba * kBlockSize) (fold array_write ws (contents (nc_store s a)))) \<and>
       nc_phase s2 = BUS_FREE \<and> (\<forall>b. b \<noteq> a \<longrightarrow> nc_store s2 b = nc_store s b)"
proof -
  obtain s1 d1 where s1: "driver_writes ops i ws s = (replicate (length ws) kGood, s1)" "bus_idle i a s1"
    "nc_store s1 = (nc_store s)(a := d1)" "ready d1" "contents d1 = fold array_write ws (contents (nc_store s a))"
    "blocks d1 = blocks (nc_store s a)"
    using driver_writes_ok [OF assms(1-3)] by blast
  obtain s2 d2 where "driver_read ops i lba cnt s1 =
      (take (unat cnt * kBlockSize) (drop (unat lba * kBlockSize) (contents (nc_store s1 a))), kGood, s2)"
    "bus_idle i a s2" "nc_store s2 = (nc_store s1)(a := d2)"
    using driver_read_ok [OF s1(2), of lba cnt] s1(3,4,6) assms(4) by auto
  then show ?thesis using s1 by (simp add: bus_idle_def)
qed

end


section \<open>READ(10) and WRITE(10) on a hard disk\<close>

text \<open>A hard disk that can serve transfers: its blocks are all in the image.\<close>

definition disk_ready :: "scsi_disk \<Rightarrow> bool" where
  "disk_ready d \<longleftrightarrow> sd_kind d = Kind_Disk \<and> sd_blocks d \<noteq> 0 \<and> sd_dataStartLba d = 0 \<and>
     unat (sd_blocks d) * kBlockSize \<le> length (sd_image d)"

lemma selectLun_frame [simp]:
  "sd_kind (sd_selectLun l d) = sd_kind d" "sd_blocks (sd_selectLun l d) = sd_blocks d"
  "sd_image (sd_selectLun l d) = sd_image d" "sd_dataStartLba (sd_selectLun l d) = sd_dataStartLba d"
  "sd_identifyLun (sd_selectLun l d) = l"
  by (simp_all add: sd_selectLun_def)

lemma lun_cdb10: "lun_guard (cdb10 op lba cnt) (setSense k a (sd_selectLun kNoIdentify d)) =
    Inr (setSense k a (sd_selectLun kNoIdentify d))"
  by (simp add: lun_guard_def effectiveLun_def)

lemma command_cdb10:
  assumes "sd_kind d = Kind_Disk" "op \<in> {0x28, 0x2A}"
  shows "sd_command (cdb10 op lba cnt) x (sd_selectLun kNoIdentify d) =
    shared_command (cdb10 op lba cnt) x (setSense 0 0 (sd_selectLun kNoIdentify d))"
proof -
  have "op \<noteq> 3" "kGroupLen op = 10" using assms(2) by (auto simp: kGroupLen_def)
  then show ?thesis using assms(1) by (simp add: sd_command_def Let_def lun_cdb10 sd_execute_def)
qed

lemma disk_write10:
  assumes "disk_ready d" "unat lba + unat cnt \<le> unat (sd_blocks d)"
  shows "sd_command (cdb10 0x2A lba cnt) x (sd_selectLun kNoIdentify d) =
    (kGood, [], sd_write lba (ucast cnt) x (setSense 0 0 (sd_selectLun kNoIdentify d)))"
  using assms by (simp add: disk_ready_def command_cdb10 shared_command_def Let_def sd_write_command_def dataEndLba_def)

lemma disk_read10:
  assumes "disk_ready d" "unat lba + unat cnt \<le> unat (sd_blocks d)"
  shows "sd_command (cdb10 0x28 lba cnt) x (sd_selectLun kNoIdentify d) =
    (kGood, sd_read lba (ucast cnt) (setSense 0 0 (sd_selectLun kNoIdentify d)))"
  using assms by (simp add: disk_ready_def command_cdb10 shared_command_def Let_def sd_read_command_def dataEndLba_def)

lemma sd_write_image:
  assumes "disk_ready d" "unat lba + unat cnt \<le> unat (sd_blocks d)" "length x = unat cnt * kBlockSize"
  shows "sd_image (sd_write lba (ucast (cnt :: 16 word)) x d) = overwrite (unat lba * kBlockSize) x (sd_image d)"
    "disk_ready (sd_write lba (ucast cnt) x d)" "sd_blocks (sd_write lba (ucast cnt) x d) = sd_blocks d"
proof -
  have "(unat lba + unat cnt) * kBlockSize \<le> unat (sd_blocks d) * kBlockSize" using assms(2) by (rule mult_le_mono1)
  then have le: "unat lba * kBlockSize + length x \<le> length (sd_image d)"
    using assms(1,3) by (simp add: disk_ready_def add_mult_distrib)
  have m: "same_medium (sd_store lba (ucast cnt) x d) (sd_write lba (ucast cnt) x d)" by (rule same_medium_write)
  have "store_len lba (ucast cnt) x (sd_image d) = length x"
    using le assms(3) by (simp add: store_len_def)
  then show i: "sd_image (sd_write lba (ucast cnt) x d) = overwrite (unat lba * kBlockSize) x (sd_image d)"
    using m by (simp add: same_medium_def sd_store_image)
  show b: "sd_blocks (sd_write lba (ucast cnt) x d) = sd_blocks d" using m by (simp add: same_medium_def)
  have "sd_kind (sd_write lba (ucast cnt) x d) = sd_kind d"
    "sd_dataStartLba (sd_write lba (ucast cnt) x d) = sd_dataStartLba d" using m by (simp_all add: same_medium_def)
  then show "disk_ready (sd_write lba (ucast cnt) x d)" using assms(1) le by (simp add: disk_ready_def i b)
qed

lemma sd_read_bytes:
  assumes "disk_ready d" "unat lba + unat cnt \<le> unat (sd_blocks d)"
  shows "fst (sd_read lba (ucast (cnt :: 16 word)) d) = take (unat cnt * kBlockSize) (drop (unat lba * kBlockSize) (sd_image d))"
proof -
  have "(unat lba + unat cnt) * kBlockSize \<le> unat (sd_blocks d) * kBlockSize" using assms(2) by (rule mult_le_mono1)
  then have "unat lba * kBlockSize + unat cnt * kBlockSize \<le> length (sd_image d)"
    using assms(1) by (simp add: disk_ready_def add_mult_distrib)
  then show ?thesis
    using assms(1) by (simp add: sd_read_def disk_ready_def Let_def image_bytes_def vec_resize_def)
qed

text \<open>The hard disk keeps the contract.\<close>

interpretation hd_target: block_target disk_ops disk_ready "\<lambda>d. unat (sd_blocks d)" sd_image
proof
  fix d :: scsi_disk and lba :: u32 and cnt :: "16 word" and got data :: "u8 list" and n :: nat
  show "t_extendDataOut disk_ops (cdb10 0x2A lba cnt) got n d = n" by (simp add: disk_ops_def sd_extendDataOut_def)
  assume r: "disk_ready d"
  then have k: "sd_kind d = Kind_Disk" "sd_blocks d \<noteq> 0" "unat (sd_blocks d) * kBlockSize \<le> length (sd_image d)"
    by (simp_all add: disk_ready_def)
  then show "t_present disk_ops d" "unat (sd_blocks d) * kBlockSize \<le> length (sd_image d)"
    by (simp_all add: disk_ops_def sd_present_def)
  show "t_writeByteCount disk_ops (cdb10 0x2A lba cnt) (t_selectLun disk_ops kNoIdentify d) = int (unat cnt * kBlockSize)"
    "t_writeByteCount disk_ops (cdb10 0x28 lba cnt) (t_selectLun disk_ops kNoIdentify d) = 0"
    using k by (simp_all add: disk_ops_def sd_writeByteCount_def sd_blockSize_def Let_def kBlockSize_def)
  have ready: "disk_ready (setSense 0 0 (sd_selectLun kNoIdentify d))" using r by (simp add: disk_ready_def)
  assume in_range: "unat lba + unat cnt \<le> unat (sd_blocks d)"
  let ?r = "sd_read lba (ucast cnt) (setSense 0 0 (sd_selectLun kNoIdentify d))"
  have "same_medium (setSense 0 0 (sd_selectLun kNoIdentify d)) (snd ?r)" by simp
  then have "same_medium d (snd ?r)" by (simp add: same_medium_def setSense_def sd_selectLun_def)
  then have "disk_ready (snd ?r) \<and> unat (sd_blocks (snd ?r)) = unat (sd_blocks d) \<and> sd_image (snd ?r) = sd_image d"
    using r by (simp add: disk_ready_def same_medium_def)
  moreover have "t_command disk_ops (cdb10 0x28 lba cnt) [] (t_selectLun disk_ops kNoIdentify d) =
      (kGood, take (unat cnt * kBlockSize) (drop (unat lba * kBlockSize) (sd_image d)), snd ?r)"
    using disk_read10 [OF r in_range] sd_read_bytes [OF ready, of lba cnt] in_range
    by (simp add: disk_ops_def) (metis prod.collapse)
  ultimately show "\<exists>d'. t_command disk_ops (cdb10 0x28 lba cnt) [] (t_selectLun disk_ops kNoIdentify d) =
      (kGood, take (unat cnt * kBlockSize) (drop (unat lba * kBlockSize) (sd_image d)), d') \<and> disk_ready d' \<and>
      unat (sd_blocks d') = unat (sd_blocks d) \<and> sd_image d' = sd_image d" by blast
  assume "length data = unat cnt * kBlockSize"
  then show "\<exists>d'. t_command disk_ops (cdb10 0x2A lba cnt) data (t_selectLun disk_ops kNoIdentify d) = (kGood, [], d') \<and>
      disk_ready d' \<and> unat (sd_blocks d') = unat (sd_blocks d) \<and> sd_image d' = overwrite (unat lba * kBlockSize) data (sd_image d)"
    using disk_write10 [OF r in_range, of data] sd_write_image [OF ready, of lba cnt data] in_range
    by (simp add: disk_ops_def)
qed

text \<open>C1: through the controller's registers a hard disk is an array of blocks.  Any sequence of writes
  inside the disk, each moved byte by byte over the bus, ends GOOD every time; a later read of any range
  ends GOOD and returns the bytes the writes left there; and no other target on the bus changes.\<close>

theorem scsi_disk_is_array:
  assumes "bus_idle i a s" "disk_ready (nc_store s a)"
    and "list_all (write_fits (unat (sd_blocks (nc_store s a)))) ws"
    and "unat lba + unat cnt \<le> unat (sd_blocks (nc_store s a))"
  shows "let (sts, s1) = driver_writes disk_ops i ws s; (bytes, st, s2) = driver_read disk_ops i lba cnt s1
    in sts = replicate (length ws) kGood \<and> st = kGood \<and>
       bytes = take (unat cnt * kBlockSize) (drop (unat lba * kBlockSize) (fold array_write ws (sd_image (nc_store s a)))) \<and>
       nc_phase s2 = BUS_FREE \<and> (\<forall>b. b \<noteq> a \<longrightarrow> nc_store s2 b = nc_store s b)"
  by (rule hd_target.transfers_refine_array [OF assms])

text \<open>A disk of two blocks at identifier 3.\<close>

definition demo_bus :: "scsi_disk ncr" where
  "demo_bus = ncr_attach (Some 0) 3
     (ncr_init (\<lambda>_. scsi_disk_init\<lparr>sd_image := replicate 1024 0, sd_blocks := 2\<rparr>))"

theorem scsi_disk_is_array_witness:
  "let (sts, s1) = driver_writes disk_ops 3 [(1, 1, replicate 512 7)] demo_bus; (bytes, st, s2) = driver_read disk_ops 3 1 1 s1
   in sts = [kGood] \<and> st = kGood \<and> bytes = replicate 512 7"
proof -
  have s: "nc_store demo_bus 0 = scsi_disk_init\<lparr>sd_image := replicate 1024 0, sd_blocks := 2\<rparr>"
    by (simp add: demo_bus_def ncr_attach_def ncr_init_def)
  have "bus_idle 3 0 demo_bus" by (simp add: demo_bus_def bus_idle_def ncr_attach_def ncr_init_def ncr_quiet_def)
  moreover have "disk_ready (nc_store demo_bus 0)" by (simp add: s disk_ready_def scsi_disk_init_def kBlockSize_def)
  ultimately show ?thesis
    using scsi_disk_is_array [of 3 0 demo_bus "[(1, 1, replicate 512 7)]" 1 1]
    by (simp add: s write_fits_def kBlockSize_def array_write_def overwrite_def case_prod_beta Let_def)
qed

end
