(* ===== verification/Scsi_History.thy ===== *)
theory Scsi_History
  imports Scsi_Disk
begin

text \<open>
  A hard disk over a session: from the image as mounted (\<^verbatim>\<open>ScsiDisk::open\<close>) through any commands,
  host writes and save states (\<^verbatim>\<open>ScsiDisk::visit\<close>).  It composes the target with the disk history of
  \<^verbatim>\<open>src/src/DiskTimeline.cpp\<close>: every store of the target is a sequence of the block writes the
  history is proved for.

  What is shown: the backing file mirrors the image (without a prefix that exists in memory only) as long
  as write-back is on, whatever the host's writes do; and a saved state is restored from any other point
  of a session.  Both hold for states that name the disk's own geometry: \<^verbatim>\<open>visit\<close> takes the block count
  and the prefix from the state unchecked, and a state with another prefix is shown to be accepted and to
  break the mirror.
\<close>

unbundle bit_operations_syntax

section \<open>The backing file mirrors the image\<close>

definition mirrored :: "scsi_disk \<Rightarrow> bool" where
  "mirrored d \<longleftrightarrow> (sd_writeBack d \<longrightarrow>
     unat (sd_hfsPrefixBlocks d) * kBlockSize \<le> length (sd_image d) \<and>
     sd_file d = Some (drop (unat (sd_hfsPrefixBlocks d) * kBlockSize) (sd_image d)))"

lemma drop_overwrite_across:
  assumes "off \<le> k" "k \<le> off + length p" "off + length p \<le> length xs"
  shows "drop k (overwrite off p xs) = overwrite 0 (drop (k - off) p) (drop k xs)"
  using assms by (simp add: overwrite_def add.commute)

lemma drop_overwrite_before:
  assumes "k \<le> off" "off \<le> length xs"
  shows "drop k (overwrite off p xs) = overwrite (off - k) p (drop k xs)"
  using assms by (simp add: overwrite_def drop_take add.commute)

lemma file_put_overwrite: "off \<le> length f \<Longrightarrow> file_put off bs f = overwrite off bs f"
  by (simp add: file_put_def overwrite_def)

lemma sd_file_write_mirrored:
  assumes "sd_file d = Some f" "off \<le> length f"
    and "overwrite off bs f = drop (unat (sd_hfsPrefixBlocks d) * kBlockSize) (sd_image d)"
    and "unat (sd_hfsPrefixBlocks d) * kBlockSize \<le> length (sd_image d)"
  shows "mirrored (sd_file_write off bs d)"
  using assms by (simp add: mirrored_def sd_file_write_def file_put_overwrite split: list.split option.split)

lemma sd_write_back_mirrored:
  fixes l c :: u32
  assumes "sd_file d = Some (drop (unat (sd_hfsPrefixBlocks d) * kBlockSize) img)"
    and "sd_image d = overwrite (unat l * kBlockSize) (take w x) img" "w \<le> length x" "w \<le> unat c * kBlockSize"
    and "unat l * kBlockSize + w \<le> length img" "unat (sd_hfsPrefixBlocks d) * kBlockSize \<le> length img"
  shows "mirrored (sd_write_back l c w x d)"
proof -
  define off k where "off = unat l * kBlockSize" and "k = unat (sd_hfsPrefixBlocks d) * kBlockSize"
  let ?p = "sd_hfsPrefixBlocks d"
  note A = assms [folded off_def k_def]
  have len: "length (sd_image d) = length img" using A(2,3,5) by simp
  show ?thesis
  proof (cases "?p \<noteq> 0 \<and> l < ?p")
    case True
    have sk: "unat (?p - l) = unat ?p - unat l" using True by (intro unat_sub) (simp add: order_less_imp_le)
    have off: "off \<le> k" "unat (?p - l) * kBlockSize = k - off"
      using True by (simp_all add: off_def k_def sk word_less_nat_alt diff_mult_distrib)
    have same: "mirrored d" if "w \<le> k - off"
      unfolding mirrored_def k_def [symmetric] using that A off(1) len by (simp add: drop_overwrite_after)
    have "c \<le> ?p - l \<Longrightarrow> w \<le> k - off"
      using A(4) off(2) mult_le_mono1 [of "unat c" "unat (?p - l)" kBlockSize] by (simp add: word_le_nat_alt)
    moreover have "mirrored (sd_file_write 0 (take (w - (k - off)) (drop (k - off) x)) d)" if "\<not> w \<le> k - off"
      using that A off len
      by (intro sd_file_write_mirrored [OF A(1)], fold k_def) (simp_all add: drop_overwrite_across drop_take)
    ultimately show ?thesis using True same off(2) by (auto simp: sd_write_back_def Let_def)
  next
    case False
    have k: "k \<le> off" using False by (auto simp: off_def k_def word_less_nat_alt not_less)
    have o: "(if ?p \<noteq> 0 then unat (l - ?p) * kBlockSize else unat l * kBlockSize) = off - k"
      using False unat_sub [of ?p l] by (auto simp: off_def k_def not_less diff_mult_distrib)
    have "mirrored (sd_file_write (off - k) (take w x) d)"
      using A k len by (intro sd_file_write_mirrored [OF A(1)], fold k_def) (simp_all add: drop_overwrite_before)
    then show ?thesis unfolding sd_write_back_def Let_def o using False by auto
  qed
qed

lemma sd_store_mirrored:
  assumes "mirrored d"
  shows "mirrored (sd_store l c x d)"
proof (cases "sd_writeBack d \<and> store_len l c x (sd_image d) \<noteq> 0")
  case True
  let ?w = "store_len l c x (sd_image d)"
  have "?w \<le> length x" "?w \<le> unat c * kBlockSize" "unat l * kBlockSize + ?w \<le> length (sd_image d)"
    using True by (auto simp: store_len_def)
  then show ?thesis
    using True assms by (simp add: sd_store_alt Let_def mirrored_def [of d] sd_write_back_mirrored [of _ "sd_image d"])
next
  case False
  then show ?thesis using assms by (auto simp: sd_store_alt Let_def mirrored_def)
qed


section \<open>A mounted disk\<close>

lemma length_first_template: "first_template files ps = Some head \<Longrightarrow> length head = kFacadePrefixBytes"
  by (induction ps) (auto simp: loadTemplateHead_def split: option.splits if_splits)

lemma length_template: "findDdmTemplate m p = Some head \<Longrightarrow> length head = kFacadePrefixBytes"
  unfolding findDdmTemplate_def by (rule length_first_template)

lemma length_ddm_add: "512 \<le> length head \<Longrightarrow> length (ddm_add_6A head) = length head"
  by (simp add: ddm_add_6A_def Let_def kBlockSize_def be16_bytes_def)

lemma length_patch_parts: "length (patch_parts n is head) = length head"
proof (induction n "is" head rule: patch_parts.induct)
  case (2 n i "is" head)
  then show ?case by (simp add: Let_def be32_bytes_def)
qed simp

lemma facade_wraps:
  assumes "applyFlatHfsFacade m d = (True, d')"
  shows "\<exists>head. length head = kFacadePrefixBytes \<and> d' = d\<lparr>sd_image := head @ sd_image d,
    sd_blocks := of_nat (kFacadePrefixBlocks + length (sd_image d) div kBlockSize),
    sd_hfsPrefixBlocks := of_nat kFacadePrefixBlocks\<rparr>"
proof -
  obtain h where h: "findDdmTemplate m (sd_ddmTemplate d) = Some h"
    using assms by (auto simp: applyFlatHfsFacade_def split: if_splits option.splits)
  let ?n = "of_nat (length (sd_image d) div kBlockSize) :: u32"
  let ?o = "overwrite 4 (be32_bytes (of_nat kFacadePrefixBlocks + ?n)) h"
  have "length ?o = length h" using length_template [OF h]
    by (simp add: be32_bytes_def kFacadePrefixBytes_def kFacadePrefixBlocks_def kBlockSize_def)
  then have "length (patch_parts ?n [1..<64] (ddm_add_6A ?o)) = kFacadePrefixBytes"
    using length_template [OF h] length_ddm_add [of ?o]
    by (simp add: length_patch_parts kFacadePrefixBytes_def kFacadePrefixBlocks_def kBlockSize_def)
  then show ?thesis
    using assms h by (intro exI [of _ "patch_parts ?n [1..<64] (ddm_add_6A ?o)"])
      (auto simp: applyFlatHfsFacade_def Let_def split: if_splits)
qed

lemma facade_refuses: "applyFlatHfsFacade m d = (False, d') \<Longrightarrow> d' = d"
  by (auto simp: applyFlatHfsFacade_def Let_def split: if_splits option.splits)

text \<open>A mounted disk has the blocks of its image, and holds the volume behind the prefix.\<close>

definition holds_volume :: "u8 list \<Rightarrow> scsi_disk \<Rightarrow> bool" where
  "holds_volume img d \<longleftrightarrow> sd_blocks d = of_nat (length (sd_image d) div kBlockSize) \<and>
     unat (sd_hfsPrefixBlocks d) * kBlockSize \<le> length (sd_image d) \<and>
     drop (unat (sd_hfsPrefixBlocks d) * kBlockSize) (sd_image d) = img"

lemma blocks_fit: "b = of_nat (n div kBlockSize) \<Longrightarrow> unat (b :: u32) * kBlockSize \<le> n"
  by (rule order_trans [OF mult_le_mono1 div_times_less_eq_dividend]) (simp add: unat_of_nat)

lemma facade_holds:
  assumes "sd_image d = img" "sd_blocks d = of_nat (length img div kBlockSize)" "sd_hfsPrefixBlocks d = 0"
  shows "holds_volume img (snd (applyFlatHfsFacade m d))"
proof -
  have f: "holds_volume img d" using assms by (simp add: holds_volume_def)
  obtain b d' where r: "applyFlatHfsFacade m d = (b, d')" by force
  show ?thesis
  proof (cases b)
    case False
    then show ?thesis using f facade_refuses [of m d d'] r by simp
  next
    case True
    then have "applyFlatHfsFacade m d = (True, d')" using r by simp
    from facade_wraps [OF this] obtain head where h: "length head = kFacadePrefixBytes" "d' = d\<lparr>sd_image := head @ sd_image d,
        sd_blocks := of_nat (kFacadePrefixBlocks + length (sd_image d) div kBlockSize),
        sd_hfsPrefixBlocks := of_nat kFacadePrefixBlocks\<rparr>"
      by blast
    have "unat (of_nat kFacadePrefixBlocks :: u32) = kFacadePrefixBlocks" by (simp add: kFacadePrefixBlocks_def)
    moreover have "(kFacadePrefixBytes + length img) div kBlockSize = kFacadePrefixBlocks + length img div kBlockSize"
      by (simp add: kFacadePrefixBytes_def kBlockSize_def)
    ultimately show ?thesis
      using r h assms(1) by (simp add: holds_volume_def kFacadePrefixBytes_def del: of_nat_add)
  qed
qed

lemma facade_frame:
  "sd_kind (snd (applyFlatHfsFacade m d)) = sd_kind d" "sd_dataStartLba (snd (applyFlatHfsFacade m d)) = sd_dataStartLba d"
  "sd_timeline (snd (applyFlatHfsFacade m d)) = sd_timeline d" "sd_writeBack (snd (applyFlatHfsFacade m d)) = sd_writeBack d"
  by (simp_all add: applyFlatHfsFacade_def Let_def split: option.split)

text \<open>The bytes of an image that its blocks cover.\<close>

definition disk_bytes :: "u8 list \<Rightarrow> nat" where
  "disk_bytes img = unat (of_nat (length img div kBlockSize) :: u32) * kBlockSize"

text \<open>The history of a disk attached to the image \<open>img0\<close>, and its backing file.\<close>

definition disk_ok :: "u8 list \<Rightarrow> scsi_disk \<Rightarrow> bool" where
  "disk_ok img0 d \<longleftrightarrow> sd_kind d = Kind_Disk \<and> sd_dataStartLba d = 0 \<and> mirrored d \<and>
     sd_blocks d = of_nat (length img0 div kBlockSize) \<and>
     tl_run img0 (disk_bytes img0) kBlockSize (sd_image d) (sd_timeline d)"

text \<open>An object a disk can be mounted on: new, or closed.\<close>

definition disk_fresh :: "scsi_disk \<Rightarrow> bool" where
  "disk_fresh d \<longleftrightarrow> sd_kind d = Kind_Disk \<and> sd_dataStartLba d = 0 \<and> tl_loadOrder (sd_timeline d) = []"

lemma attachTimeline_run:
  assumes "sd_blocks d \<noteq> 0" "tl_loadOrder (sd_timeline d) = []" "unat (sd_blocks d) * kBlockSize \<le> length (sd_image d)"
  shows "tl_run (sd_image d) (unat (sd_blocks d) * kBlockSize) kBlockSize (sd_image d) (sd_timeline (attachTimeline m d))"
  using assms by (auto simp: attachTimeline_def kBlockSize_def intro: run_attach)

lemma sd_open_ok:
  assumes "sd_open m (File_bytes bytes) wb d0 = (True, d)" "disk_fresh d0"
  shows "disk_ok (sd_image d) d"
proof -
  obtain img w where u: "(case unwrapDriverless512Dump bytes of Some hfs \<Rightarrow> (hfs, False) | None \<Rightarrow> (bytes, wb)) = (img, w)"
    by force
  then have iw: "w \<Longrightarrow> img = bytes" by (auto split: option.splits)
  define d1 where "d1 = d0\<lparr>sd_hfsPrefixBlocks := 0, sd_file := None,
    sd_timeline := tl_detach (sd_timeline d0), sd_writeBack := False, sd_image := img,
    sd_blocks := of_nat (length img div kBlockSize)\<rparr>"
  define d2 where "d2 = (if sd_blocks d1 \<noteq> 0 \<and> looksBareHfs (sd_image d1)
    then snd (applyFlatHfsFacade m d1) else d1)"
  define d3 where "d3 = (if sd_blocks d2 \<noteq> 0 \<and> w
    then d2\<lparr>sd_writeBack := mh_writable m, sd_file := (if mh_writable m then Some bytes else None)\<rparr> else d2)"
  have open_eq: "sd_open m (File_bytes bytes) wb d0 = (sd_blocks (attachTimeline m d3) \<noteq> 0, attachTimeline m d3)"
    by (simp add: sd_open_def Let_def u d3_def d2_def d1_def)
  have f1: "sd_kind d1 = Kind_Disk" "sd_dataStartLba d1 = 0" "tl_loadOrder (sd_timeline d1) = []" "\<not> sd_writeBack d1"
    using assms(2) by (simp_all add: d1_def disk_fresh_def tl_detach_def)
  have h1: "holds_volume img d1"
    by (simp add: d1_def holds_volume_def)
  have h2: "holds_volume img d2" using h1 facade_holds [of d1 img] by (simp add: d2_def) (simp add: d1_def)
  have f2: "sd_kind d2 = Kind_Disk" "sd_dataStartLba d2 = 0" "tl_loadOrder (sd_timeline d2) = []" "\<not> sd_writeBack d2"
    using f1 by (simp_all add: d2_def facade_frame)
  have a: "d = attachTimeline m d3" "sd_blocks (attachTimeline m d3) \<noteq> 0" using assms(1) open_eq by auto
  have fr: "sd_kind (attachTimeline m d3) = sd_kind d3" "sd_dataStartLba (attachTimeline m d3) = sd_dataStartLba d3"
    "sd_blocks (attachTimeline m d3) = sd_blocks d3" "sd_image (attachTimeline m d3) = sd_image d3"
    "mirrored (attachTimeline m d3) = mirrored d3"
    by (simp_all add: attachTimeline_def mirrored_def)
  have f3: "sd_kind d3 = Kind_Disk" "sd_dataStartLba d3 = 0" "tl_loadOrder (sd_timeline d3) = []" "holds_volume img d3"
    using f2 h2 by (simp_all add: d3_def holds_volume_def)
  have "mirrored d3" using h2 f2(4) iw by (auto simp: mirrored_def d3_def holds_volume_def)
  moreover have "tl_run (sd_image d3) (unat (sd_blocks d3) * kBlockSize) kBlockSize (sd_image d3) (sd_timeline (attachTimeline m d3))"
    using a(2) f3(3,4) by (intro attachTimeline_run blocks_fit) (simp_all add: fr holds_volume_def)
  ultimately show ?thesis using f3 by (simp add: disk_ok_def a(1) fr holds_volume_def disk_bytes_def)
qed


section \<open>A session\<close>

lemma tl_run_writes:
  assumes "tl_run img0 sz bs img t" "list_all (tl_write_ok t) ws" "fold tl_write ws (img, t) = (img', t')"
  shows "tl_run img0 sz bs img' t'"
  using assms
proof (induction ws arbitrary: img t)
  case (Cons w ws)
  obtain img1 t1 where w: "tl_write w (img, t) = (img1, t1)" by force
  have "tl_blockSize t1 = tl_blockSize t" "tl_blocks t1 = tl_blocks t"
    using w by (auto simp: tl_write_def Let_def split: prod.splits)
  then have "tl_write_ok t1 = tl_write_ok t" by (intro ext) (simp add: tl_write_ok_def)
  then show ?case using Cons.IH [OF run_write [OF Cons.prems(1) _ w]] Cons.prems(2,3) w by simp
qed simp

lemma disk_ok_timeline:
  assumes "disk_ok img0 d"
  shows "tl_attached (sd_timeline d)" "tl_blockSize (sd_timeline d) = kBlockSize"
    "tl_blocks (sd_timeline d) = unat (sd_blocks d)" "unat (sd_blocks d) * kBlockSize \<le> length (sd_image d)"
    "unat (sd_blocks d) < 2 ^ 32"
proof -
  have b: "unat (sd_blocks d) < 2 ^ 32" by (rule order_less_le_trans [OF unsigned_less]) simp
  then show "unat (sd_blocks d) < 2 ^ 32" .
  have i: "tl_inv img0 (sd_image d) (sd_timeline d)" "tl_blockSize (sd_timeline d) = kBlockSize"
    "tl_blocks (sd_timeline d) = (disk_bytes img0 div kBlockSize) mod 2 ^ 32"
    using tl_run_inv assms unfolding disk_ok_def by blast+
  moreover have "disk_bytes img0 = unat (sd_blocks d) * kBlockSize" using assms by (simp add: disk_ok_def disk_bytes_def)
  ultimately show n: "tl_blocks (sd_timeline d) = unat (sd_blocks d)" using b by (simp add: kBlockSize_def)
  show "tl_attached (sd_timeline d)" "tl_blockSize (sd_timeline d) = kBlockSize"
    "unat (sd_blocks d) * kBlockSize \<le> length (sd_image d)"
    using i n by (simp_all add: tl_inv_def tl_sane_def)
qed

lemma disk_ok_store:
  assumes "disk_ok img0 d" "unat l + unat c \<le> unat (sd_blocks d)"
  shows "disk_ok img0 (sd_store l c x d)"
proof -
  note t = disk_ok_timeline [OF assms(1)]
  obtain ws where "list_all (tl_write_ok (sd_timeline d)) ws" "fold tl_write ws (sd_image d, sd_timeline d) =
      (sd_image (sd_store l c x d), sd_timeline (sd_store l c x d))"
    using sd_store_writes [of d l c x] t assms(2) by auto
  from tl_run_writes [OF _ this] have "tl_run img0 (disk_bytes img0) kBlockSize
      (sd_image (sd_store l c x d)) (sd_timeline (sd_store l c x d))"
    using assms(1) by (simp add: disk_ok_def)
  then show ?thesis using assms(1) sd_store_mirrored by (auto simp: disk_ok_def)
qed

lemma disk_ok_same: "disk_ok img0 d \<Longrightarrow> same_medium d d' \<Longrightarrow> disk_ok img0 d'"
  by (auto simp: disk_ok_def same_medium_def mirrored_def)

lemma disk_ok_command:
  assumes "disk_ok img0 d"
  shows "disk_ok img0 (snd (snd (sd_command cdb x d)))"
proof -
  have "write_of cdb d = Some (l, c) \<Longrightarrow> unat l + unat c \<le> unat (sd_blocks d)" for l c
    using assms by (auto simp: write_of_def dataEndLba_def disk_ok_def Let_def split: if_splits)
  moreover have "sd_kind d \<noteq> Kind_Cdrom" "\<not> escapes_protection cdb d"
    using assms by (simp_all add: disk_ok_def escapes_protection_def)
  ultimately show ?thesis
    using outcome_command [of cdb x d] assms disk_ok_store disk_ok_same
    unfolding medium_outcome_def keeps_medium_def by blast
qed

lemma kBlockSize_pos [simp]: "0 < kBlockSize"
  by (simp add: kBlockSize_def)

text \<open>A restored block is one write of the history.\<close>

lemma sd_store_block_write:
  assumes "tl_attached (sd_timeline d)" "tl_blockSize (sd_timeline d) = kBlockSize"
    and "tl_blocks (sd_timeline d) * kBlockSize \<le> length (sd_image d)" "tl_write_ok (sd_timeline d) b"
  shows "tl_write b (sd_image d, sd_timeline d) = (sd_image (sd_store_block b d), sd_timeline (sd_store_block b d))"
proof -
  obtain lba x where b: "b = (lba, x)" by force
  have l: "unat lba < tl_blocks (sd_timeline d)" "length x = kBlockSize" using assms(2,4) by (simp_all add: tl_write_ok_def b)
  then have "unat lba * kBlockSize + kBlockSize \<le> length (sd_image d)" using assms(3) block_fits by blast
  then have "store_len lba 1 x (sd_image d) = kBlockSize" using l(2) by (simp add: store_len_def)
  then show ?thesis
    using assms(1,2) l(2)
    by (simp add: b tl_write_def sd_store_block_def sd_store_image sd_store_timeline store_history.simps [of _ _ kBlockSize]
        block_at_def Let_def)
qed

lemma fold_store_frame [simp]:
  "sd_kind (fold sd_store_block plan d) = sd_kind d" "sd_blocks (fold sd_store_block plan d) = sd_blocks d"
  "sd_dataStartLba (fold sd_store_block plan d) = sd_dataStartLba d"
  "sd_hfsPrefixBlocks (fold sd_store_block plan d) = sd_hfsPrefixBlocks d"
  "sd_senseKey (fold sd_store_block plan d) = sd_senseKey d" "sd_senseAsc (fold sd_store_block plan d) = sd_senseAsc d"
  "sd_identifyLun (fold sd_store_block plan d) = sd_identifyLun d" "sd_audio (fold sd_store_block plan d) = sd_audio d"
  "sd_audioLba (fold sd_store_block plan d) = sd_audioLba d" "sd_audioEnd (fold sd_store_block plan d) = sd_audioEnd d"
  "sd_state (fold sd_store_block plan d) = sd_state d"
  by (induction plan arbitrary: d) (simp_all add: sd_store_block_def sd_state_def)

lemma fold_store_mirrored: "mirrored d \<Longrightarrow> mirrored (fold sd_store_block plan d)"
  by (induction plan arbitrary: d) (simp_all add: sd_store_block_def sd_store_mirrored)

lemma fold_store_writes:
  assumes "tl_attached (sd_timeline d)" "tl_blockSize (sd_timeline d) = kBlockSize"
    and "tl_blocks (sd_timeline d) * kBlockSize \<le> length (sd_image d)" "list_all (tl_write_ok (sd_timeline d)) plan"
  shows "fold tl_write plan (sd_image d, sd_timeline d) =
    (sd_image (fold sd_store_block plan d), sd_timeline (fold sd_store_block plan d))"
  using assms
proof (induction plan arbitrary: d)
  case (Cons b plan)
  note w = sd_store_block_write [OF Cons.prems(1-3), of b]
  let ?d = "sd_store_block b d"
  have ok: "tl_write_ok (sd_timeline d) b" using Cons.prems(4) by simp
  have e: "sd_image ?d = fst (tl_write b (sd_image d, sd_timeline d))" "sd_timeline ?d = snd (tl_write b (sd_image d, sd_timeline d))"
    using w [OF ok] by simp_all
  have f: "tl_blockSize (sd_timeline ?d) = kBlockSize" "tl_blocks (sd_timeline ?d) = tl_blocks (sd_timeline d)"
    "length (sd_image ?d) = length (sd_image d)"
    using ok Cons.prems(2,3) block_fits [of "unat (fst b)" "tl_blocks (sd_timeline d)" kBlockSize "length (sd_image d)"]
    by (simp_all add: e tl_write_def Let_def tl_write_ok_def case_prod_beta)
  then have "tl_attached (sd_timeline ?d)" "tl_write_ok (sd_timeline ?d) = tl_write_ok (sd_timeline d)"
    using Cons.prems(1,2) by (auto simp: tl_attached_def tl_write_ok_def)
  then show ?case using Cons.IH [of ?d] Cons.prems f w [OF ok] by simp
qed simp

lemma sd_set_state_frame [simp]:
  "sd_image (sd_set_state v d) = sd_image d" "sd_timeline (sd_set_state v d) = sd_timeline d"
  "sd_kind (sd_set_state v d) = sd_kind d" "sd_dataStartLba (sd_set_state v d) = sd_dataStartLba d"
  "sd_file (sd_set_state v d) = sd_file d" "sd_writeBack (sd_set_state v d) = sd_writeBack d"
  by (simp_all add: sd_set_state_def split: sav_val.split list.split)

text \<open>Loading a state is restoring the history, with the device's fields around it.\<close>

lemma sd_load_restores:
  assumes "disk_ok img0 d" "read_one sd_state_ty r = (v, r1)" "sd_audioFrac (sd_set_state v d) < 1000000"
    and "tl_restore r1 (sd_image d, sd_timeline d) = (True, img, t)"
  shows "\<exists>r2 d2. sd_load r d = (r2, d2) \<and> rd_ok r2 \<and> sd_image d2 = img \<and> sd_timeline d2 = t \<and>
    sd_kind d2 = sd_kind d \<and> sd_dataStartLba d2 = sd_dataStartLba d \<and> sd_state d2 = sd_state (sd_set_state v d) \<and>
    sd_blocks d2 = sd_blocks (sd_set_state v d) \<and> sd_hfsPrefixBlocks d2 = sd_hfsPrefixBlocks (sd_set_state v d) \<and>
    (mirrored (sd_set_state v d) \<longrightarrow> mirrored d2)"
proof -
  note t = disk_ok_timeline [OF assms(1)]
  obtain plan t1 r2 where l: "timeline_load (sd_image d) (sd_timeline d) r1 = (plan, t1, r2)" by (metis prod.collapse)
  have "tl_inv img0 (sd_image d) (sd_timeline d)" "order_ok (sd_timeline d)"
    using assms(1) tl_run_inv unfolding disk_ok_def by blast+
  from timeline_load_inv [OF this l]
  have i: "tl_inv img0 (sd_image d) t1" "tl_blockSize t1 = kBlockSize" "tl_blocks t1 = unat (sd_blocks d)"
    "blocks_ok kBlockSize (unat (sd_blocks d)) plan" using t by simp_all
  let ?d = "(sd_set_state v d)\<lparr>sd_timeline := t1\<rparr>"
  have "fold tl_write plan (sd_image ?d, sd_timeline ?d) =
      (sd_image (fold sd_store_block plan ?d), sd_timeline (fold sd_store_block plan ?d))"
    using i t(4) by (intro fold_store_writes)
      (auto simp: tl_inv_def tl_sane_def blocks_ok_def list_all_iff tl_write_ok_def)
  then have w: "fold tl_write plan (sd_image d, t1) =
      (sd_image (fold sd_store_block plan ?d), sd_timeline (fold sd_store_block plan ?d))" by simp
  then have r: "rd_ok r2" "img = sd_image (fold sd_store_block plan ?d)"
    "t = commitLoad img (sd_timeline (fold sd_store_block plan ?d))"
    using assms(4) by (auto simp: tl_restore_def l split: if_splits)
  have m: "mirrored ?d = mirrored (sd_set_state v d)" "mirrored (e\<lparr>sd_timeline := x\<rparr>) = mirrored e" for e x
    by (simp_all add: mirrored_def)
  have s: "sd_state (e\<lparr>sd_timeline := x\<rparr>) = sd_state e" for e x by (simp add: sd_state_def)
  show ?thesis
    using assms(2,3) r fold_store_mirrored [of ?d plan]
    by (simp add: sd_load_def l Let_def m s)
qed

text \<open>Everything that happens to a disk from the moment it is mounted.  A state that is loaded, whether it
  is accepted or refused, must name the disk's own geometry, and a write by the host must lie inside
  it.\<close>

inductive disk_run :: "u8 list \<Rightarrow> scsi_disk \<Rightarrow> bool" for img0 where
  dr_open: "sd_open m (File_bytes bytes) wb d0 = (True, d) \<Longrightarrow> disk_fresh d0 \<Longrightarrow> sd_image d = img0 \<Longrightarrow> disk_run img0 d"
| dr_select: "disk_run img0 d \<Longrightarrow> disk_run img0 (sd_selectLun lun d)"
| dr_command: "disk_run img0 d \<Longrightarrow> sd_command cdb x d = (st, out, d') \<Longrightarrow> disk_run img0 d'"
| dr_host: "disk_run img0 d \<Longrightarrow> unat l + unat c \<le> unat (sd_blocks d) \<Longrightarrow> disk_run img0 (hostWrite l x c d)"
| dr_save: "disk_run img0 d \<Longrightarrow> sd_save d = (bytes, d') \<Longrightarrow> disk_run img0 d'"
| dr_load: "disk_run img0 d \<Longrightarrow> sd_load r d = (r', d') \<Longrightarrow> sd_blocks d' = sd_blocks d \<Longrightarrow>
    sd_hfsPrefixBlocks d' = sd_hfsPrefixBlocks d \<Longrightarrow> disk_run img0 d'"

text \<open>The fields of a state that names the disk's own geometry do not touch its data.\<close>

lemma disk_ok_set_state:
  assumes "disk_ok img0 d" "sd_blocks (sd_set_state v d) = sd_blocks d"
    and "sd_hfsPrefixBlocks (sd_set_state v d) = sd_hfsPrefixBlocks d"
  shows "disk_ok img0 (sd_set_state v d)"
  using assms by (simp add: disk_ok_def mirrored_def)

lemma disk_ok_load:
  assumes "disk_ok img0 d" "sd_load r d = (r', d')" "sd_blocks d' = sd_blocks d"
    and "sd_hfsPrefixBlocks d' = sd_hfsPrefixBlocks d"
  shows "disk_ok img0 d'"
proof -
  obtain v r1 where v: "read_one sd_state_ty r = (v, r1)" by force
  obtain plan t1 r2 where l: "timeline_load (sd_image d) (sd_timeline d) r1 = (plan, t1, r2)" by (metis prod.collapse)
  obtain ok img t where t: "tl_restore r1 (sd_image d, sd_timeline d) = (ok, img, t)" by (metis prod.collapse)
  let ?d = "sd_set_state v d"
  consider (phase) "1000000 \<le> sd_audioFrac ?d" | (refused) "sd_audioFrac ?d < 1000000" "\<not> rd_ok r2"
    | (accepted) "sd_audioFrac ?d < 1000000" "rd_ok r2" by linarith
  then show ?thesis
  proof cases
    case phase
    then have "d' = ?d" using assms(2) v by (simp add: sd_load_def)
    then show ?thesis using disk_ok_set_state [OF assms(1)] assms(3,4) by simp
  next
    case refused
    then have d: "d' = ?d\<lparr>sd_timeline := t1\<rparr>"
      using assms(2) v l timeline_load_refused [OF l] by (simp add: sd_load_def)
    have "tl_restore r1 (sd_image d, sd_timeline d) = (False, sd_image d, t1)" using refused l by (simp add: tl_restore_def)
    then have "tl_run img0 (disk_bytes img0) kBlockSize (sd_image d) t1"
      using assms(1) run_restore unfolding disk_ok_def by blast
    then show ?thesis
      using disk_ok_set_state [OF assms(1), of v] assms(3,4) d by (simp add: disk_ok_def mirrored_def)
  next
    case accepted
    then have "ok" using t l by (simp add: tl_restore_def case_prod_beta)
    then have t: "tl_restore r1 (sd_image d, sd_timeline d) = (True, img, t)" using t by simp
    from sd_load_restores [OF assms(1) v accepted(1) t] assms(2)
    have d: "sd_image d' = img" "sd_timeline d' = t" "sd_kind d' = sd_kind d" "sd_dataStartLba d' = sd_dataStartLba d"
      "sd_blocks d' = sd_blocks ?d" "sd_hfsPrefixBlocks d' = sd_hfsPrefixBlocks ?d" "mirrored ?d \<longrightarrow> mirrored d'" by auto
    then show ?thesis
      using disk_ok_set_state [OF assms(1), of v] assms run_restore [OF _ t] by (auto simp: disk_ok_def)
  qed
qed

lemma disk_run_ok: "disk_run img0 d \<Longrightarrow> disk_ok img0 d"
proof (induction rule: disk_run.induct)
  case (dr_open m bytes wb d0 d)
  then show ?case using sd_open_ok by blast
next
  case (dr_select d lun)
  then show ?case by (simp add: disk_ok_def mirrored_def sd_selectLun_def)
next
  case (dr_command d cdb x st out d')
  then show ?case using disk_ok_command [of img0 d cdb x] by simp
next
  case (dr_host d l c x)
  then show ?case by (simp add: hostWrite_def disk_ok_store)
next
  case (dr_save d bytes d')
  obtain b t where s: "timeline_save (sd_image d) (sd_timeline d) = (b, t)" by force
  then have "d' = d\<lparr>sd_timeline := t\<rparr>" using dr_save.hyps(2) by (simp add: sd_save_def)
  then show ?case using dr_save.IH run_save [OF _ s] by (simp add: disk_ok_def mirrored_def)
next
  case (dr_load d r r' d')
  then show ?case using disk_ok_load by blast
qed

text \<open>C3: from the moment a disk is mounted, through any commands, host writes inside the disk, saves, and
  restores, accepted or refused, of states that name the disk's own block count and prefix, and
  however the host's own writes turn out: while write-back is on, the backing file is byte for byte
  the volume in the image, without the prefix that exists in memory only.\<close>

theorem backing_file_mirrors:
  assumes "disk_run img0 d" "sd_writeBack d"
  shows "sd_file d = Some (drop (unat (sd_hfsPrefixBlocks d) * kBlockSize) (sd_image d))"
  using disk_run_ok [OF assms(1)] assms(2) by (simp add: disk_ok_def mirrored_def)

definition demo_mount :: mount_host where
  "demo_mount = \<lparr>mh_lookup = (\<lambda>_. None), mh_dir = None, mh_writable = True, mh_files = demo_host, mh_journal = None, mh_path = ''d'', mh_name = ''d''\<rparr>"

definition demo_volume :: scsi_disk where
  "demo_volume = snd (sd_open demo_mount (File_bytes (replicate 1024 0)) True scsi_disk_init)"

lemma demo_volume_facts:
  "sd_open demo_mount (File_bytes (replicate 1024 0)) True scsi_disk_init = (True, demo_volume)"
  "sd_image demo_volume = replicate 1024 0" "sd_writeBack demo_volume" "sd_file demo_volume = Some (replicate 1024 0)"
  "sd_blocks demo_volume = 2" "sd_hfsPrefixBlocks demo_volume = 0" "sd_host demo_volume = []"
  "sd_audioFrac demo_volume = 0" "sd_readCommands demo_volume = 0" "sd_readBlocks demo_volume = 0"
  "sd_audioCycAcc demo_volume = 0"
proof -
  have "replicate 2 (0 :: u8) = [0, 0]" by (simp add: numeral_2_eq_2)
  moreover have "text_bytes ''LK'' = [0x4C, 0x4B]" by (simp add: text_bytes_def)
  ultimately have "unwrapDriverless512Dump (replicate 1024 0) = None" "\<not> looksBareHfs (replicate 1024 0)"
    by (simp_all add: unwrapDriverless512Dump_def looksBareHfs_def)
  then show "sd_open demo_mount (File_bytes (replicate 1024 0)) True scsi_disk_init = (True, demo_volume)"
    "sd_image demo_volume = replicate 1024 0" "sd_writeBack demo_volume" "sd_file demo_volume = Some (replicate 1024 0)"
    "sd_blocks demo_volume = 2" "sd_hfsPrefixBlocks demo_volume = 0" "sd_host demo_volume = []"
    "sd_audioFrac demo_volume = 0" "sd_readCommands demo_volume = 0" "sd_readBlocks demo_volume = 0"
    "sd_audioCycAcc demo_volume = 0"
    by (simp_all add: demo_volume_def sd_open_def scsi_disk_init_def demo_mount_def attachTimeline_def kBlockSize_def Let_def)
qed

lemma demo_volume_run: "disk_run (replicate 1024 0) demo_volume"
  by (rule dr_open [OF demo_volume_facts(1)])
    (simp_all add: demo_volume_facts disk_fresh_def scsi_disk_init_def timeline_init_def)

theorem backing_file_mirrors_witness:
  "sd_file (hostWrite 1 (replicate 512 7) 1 demo_volume) = Some (replicate 512 0 @ replicate 512 7)"
proof -
  let ?d = "hostWrite 1 (replicate 512 7) 1 demo_volume"
  have r: "disk_run (replicate 1024 0) ?d"
    by (rule dr_host [OF demo_volume_run]) (simp add: demo_volume_facts)
  have "sd_writeBack ?d"
    by (simp add: hostWrite_def sd_store_alt store_len_def demo_volume_facts kBlockSize_def Let_def sd_write_back_def
        sd_file_write_def)
  from backing_file_mirrors [OF r this] show ?thesis
    by (simp add: hostWrite_def sd_store_image store_len_def demo_volume_facts kBlockSize_def overwrite_def)
qed


section \<open>Restoring a saved state\<close>

text \<open>The counters of a disk fit their 64-bit fields, and the audio phase is a phase.\<close>

definition sd_savable :: "scsi_disk \<Rightarrow> bool" where
  "sd_savable d \<longleftrightarrow> sav_wt sd_state_ty (sd_state d) \<and> sd_audioFrac d < 1000000"

lemma sd_savableI:
  assumes "sd_audioFrac d < 1000000" "\<bar>sd_readCommands d\<bar> < 2 ^ 63" "\<bar>sd_readBlocks d\<bar> < 2 ^ 63" "\<bar>sd_audioCycAcc d\<bar> < 2 ^ 63"
  shows "sd_savable d"
proof -
  have "uint (b :: u8) < 256" "uint (w :: u32) < 4294967296" for b w
    by (rule order_less_le_trans [OF unsigned_less], simp)+
  then show ?thesis using assms by (simp add: sd_savable_def sd_state_ty_def sd_state_def abs_less_iff)
qed

lemma audio_code_of: "audio_code (audio_of v) = v"
  by (simp add: audio_code_def audio_of_def)

lemma sd_set_state_state:
  "sd_state (sd_set_state (sd_state e) d) = sd_state e" "sd_audioFrac (sd_set_state (sd_state e) d) = sd_audioFrac e"
  "sd_hfsPrefixBlocks (sd_set_state (sd_state e) d) = sd_hfsPrefixBlocks e"
  by (simp_all add: sd_state_def sd_set_state_def audio_code_of)

text \<open>A state is accepted whatever device fields it carries, as long as its blocks are those of a session
  with the same image.\<close>

lemma load_saved:
  assumes "disk_run img0 d1" "disk_run img0 d2" "sd_image e = sd_image d1" "sd_timeline e = sd_timeline d1" "sd_savable e"
  shows "\<exists>r d3. sd_load (mk_reader (fst (sd_save e) @ post)) d2 = (r, d3) \<and> rd_ok r \<and> sd_state d3 = sd_state e \<and>
    sd_hfsPrefixBlocks d3 = sd_hfsPrefixBlocks e \<and>
    (\<forall>b < unat (sd_blocks d1). block_at kBlockSize b (sd_image d3) = block_at kBlockSize b (sd_image d1))"
proof -
  note o1 = disk_run_ok [OF assms(1)] and o2 = disk_run_ok [OF assms(2)]
  obtain B t where s: "timeline_save (sd_image d1) (sd_timeline d1) = (B, t)" by force
  define A r where "A = write_one sd_state_ty (sd_state e)" and "r = mk_reader (fst (sd_save e) @ post)"
  have "rd_sees r (A @ B)" unfolding r_def using rd_sees_mk [of "A @ B" post] by (simp add: sd_save_def assms(3,4) s A_def)
  note see = rd_sees_append [OF this]
  have v: "read_one sd_state_ty r = (sd_state e, rd_adv (length A) r)"
    using read_one_write_one(1) [of sd_state_ty "sd_state e" r] assms(5) see(1) by (simp add: sd_savable_def A_def)
  have run: "tl_run img0 (disk_bytes img0) kBlockSize (sd_image d1) (sd_timeline d1)"
    "tl_run img0 (disk_bytes img0) kBlockSize (sd_image d2) (sd_timeline d2)"
    using o1 o2 unfolding disk_ok_def by blast+
  obtain ok img t3 where R: "tl_restore (rd_adv (length A) r) (sd_image d2, sd_timeline d2) = (ok, img, t3)"
    by (metis prod.collapse)
  have "ok \<and> (\<forall>b < (disk_bytes img0 div kBlockSize) mod 2 ^ 32. block_at kBlockSize b img = block_at kBlockSize b (sd_image d1)) \<and>
      fst (timeline_save img t3) = B"
    by (rule tl_restore_roundtrip [OF run(1) s run(2) see(2) R])
  moreover have "(disk_bytes img0 div kBlockSize) mod 2 ^ 32 = unat (sd_blocks d1)"
    using o1 disk_ok_timeline(5) [OF o1] by (simp add: disk_ok_def disk_bytes_def kBlockSize_def)
  ultimately have B: "ok" "\<forall>b < unat (sd_blocks d1). block_at kBlockSize b img = block_at kBlockSize b (sd_image d1)" by simp_all
  have f: "sd_audioFrac (sd_set_state (sd_state e) d2) < 1000000"
    using assms(5) by (simp add: sd_set_state_state sd_savable_def)
  have R': "tl_restore (rd_adv (length A) r) (sd_image d2, sd_timeline d2) = (True, img, t3)" using R B(1) by simp
  from sd_load_restores [OF o2 v f R'] B(2) show ?thesis
    by (auto simp: sd_set_state_state r_def [symmetric])
qed

text \<open>C2: a state saved at any point of a session with a disk is loaded at any point of any session that
  mounted the same image: it is accepted, the device's fields (sense, LUN, counters, audio transport)
  are those saved, and every block of the disk has the bytes it had when the state was saved.\<close>

theorem disk_restore_roundtrip:
  assumes "disk_run img0 d1" "sd_savable d1" "disk_run img0 d2"
  shows "let (r, d3) = sd_load (mk_reader (fst (sd_save d1) @ post)) d2
    in rd_ok r \<and> sd_state d3 = sd_state d1 \<and>
       (\<forall>b < unat (sd_blocks d1). block_at kBlockSize b (sd_image d3) = block_at kBlockSize b (sd_image d1))"
  using load_saved [OF assms(1,3) refl refl assms(2), of post] by auto

theorem disk_restore_roundtrip_witness:
  "let d1 = hostWrite 1 (replicate 512 7) 1 demo_volume; (r, d3) = sd_load (mk_reader (fst (sd_save d1))) demo_volume
   in rd_ok r \<and> block_at kBlockSize 1 (sd_image d3) = replicate 512 7"
proof -
  let ?d = "hostWrite 1 (replicate 512 7) 1 demo_volume"
  have r: "disk_run (replicate 1024 0) ?d"
    by (rule dr_host [OF demo_volume_run]) (simp add: demo_volume_facts)
  have sv: "sd_savable ?d" by (rule sd_savableI) (simp_all add: hostWrite_def demo_volume_facts)
  have "block_at kBlockSize 1 (sd_image ?d) = replicate 512 7" "sd_blocks ?d = 2"
    by (simp_all add: hostWrite_def sd_store_image store_len_def demo_volume_facts kBlockSize_def overwrite_def block_at_def)
  then show ?thesis
    using disk_restore_roundtrip [OF r sv demo_volume_run, of "[]"] by (auto simp: Let_def split: prod.splits)
qed


section \<open>A state with another prefix\<close>

text \<open>Restored blocks never shorten the backing file, and with a host that takes every write they leave
  write-back on.\<close>

lemma sd_store_file_grows:
  assumes "sd_file d = Some f" "sd_writeBack d" "sd_host d = []"
  shows "\<exists>f'. sd_file (sd_store l c x d) = Some f' \<and> length f \<le> length f' \<and> sd_writeBack (sd_store l c x d) \<and>
    sd_host (sd_store l c x d) = [] \<and> length (sd_image (sd_store l c x d)) = length (sd_image d)"
proof -
  have "length (sd_image (sd_store l c x d)) = length (sd_image d)"
    by (auto simp: sd_store_image store_len_def overwrite_def)
  moreover have "length f \<le> length (file_put off bs f)" for off bs by (simp add: file_put_def)
  ultimately show ?thesis
    using assms by (simp add: sd_store_alt Let_def sd_write_back_def sd_file_write_def)
qed

lemma fold_store_file_grows:
  assumes "sd_file d = Some f" "sd_writeBack d" "sd_host d = []"
  shows "\<exists>f'. sd_file (fold sd_store_block plan d) = Some f' \<and> length f \<le> length f' \<and>
    sd_writeBack (fold sd_store_block plan d) \<and> length (sd_image (fold sd_store_block plan d)) = length (sd_image d)"
  using assms
proof (induction plan arbitrary: d f)
  case (Cons b plan)
  obtain f' where f': "sd_file (sd_store_block b d) = Some f'" "length f \<le> length f'" "sd_writeBack (sd_store_block b d)"
    "sd_host (sd_store_block b d) = []" "length (sd_image (sd_store_block b d)) = length (sd_image d)"
    using sd_store_file_grows [OF Cons.prems, of "fst b" 1 "snd b"] by (auto simp: sd_store_block_def)
  from Cons.IH [OF f'(1,3,4)] show ?case using f'(2,5) by auto
qed auto

lemma sd_load_file_grows:
  assumes "sd_file d = Some f" "sd_writeBack d" "sd_host d = []" "sd_load r d = (r', d')"
  shows "\<exists>f'. sd_file d' = Some f' \<and> length f \<le> length f' \<and> sd_writeBack d' \<and> length (sd_image d') = length (sd_image d)"
proof -
  obtain v r1 where v: "read_one sd_state_ty r = (v, r1)" by force
  obtain plan t1 r2 where l: "timeline_load (sd_image d) (sd_timeline d) r1 = (plan, t1, r2)" by (metis prod.collapse)
  have "sd_host (sd_set_state v d) = []" using assms(3) by (simp add: sd_set_state_def split: sav_val.split list.split)
  then show ?thesis
    using assms v l fold_store_file_grows [of "(sd_set_state v d)\<lparr>sd_timeline := t1\<rparr>" f plan]
    by (auto simp: sd_load_def Let_def split: if_splits)
qed

text \<open>A state that differs from the disk's own only in a larger prefix is accepted, write-back stays on,
  and from then on the file is no longer the volume behind the prefix the disk now claims.\<close>

lemma foreign_prefix_breaks_mirror:
  assumes "disk_run img0 d" "sd_savable d" "sd_writeBack d" "sd_host d = []" "sd_hfsPrefixBlocks d < p"
  shows "let (r, d') = sd_load (mk_reader (fst (sd_save (d\<lparr>sd_hfsPrefixBlocks := p\<rparr>)))) d
    in rd_ok r \<and> sd_hfsPrefixBlocks d' = p \<and> sd_writeBack d' \<and> \<not> mirrored d'"
proof -
  let ?e = "d\<lparr>sd_hfsPrefixBlocks := p\<rparr>" and ?k = "unat (sd_hfsPrefixBlocks d) * kBlockSize"
  have m: "mirrored d" using disk_run_ok [OF assms(1)] by (simp add: disk_ok_def)
  then have f: "sd_file d = Some (drop ?k (sd_image d))" "?k \<le> length (sd_image d)" using assms(3) by (simp_all add: mirrored_def)
  have "uint p < 4294967296" by (rule order_less_le_trans [OF unsigned_less]) simp
  then have "sd_savable ?e" using assms(2) by (simp add: sd_savable_def sd_state_ty_def sd_state_def)
  from load_saved [OF assms(1,1) _ _ this, of "[]"] obtain r d' where
    l: "sd_load (mk_reader (fst (sd_save ?e))) d = (r, d')" "rd_ok r" "sd_hfsPrefixBlocks d' = p" by auto
  from sd_load_file_grows [OF f(1) assms(3,4) l(1)] obtain f' where
    g: "sd_file d' = Some f'" "length (sd_image d) - ?k \<le> length f'" "sd_writeBack d'" "length (sd_image d') = length (sd_image d)"
    by auto
  have "?k < unat p * kBlockSize" using assms(5) by (simp add: word_less_nat_alt)
  moreover have "unat p * kBlockSize \<le> length (sd_image d) \<and> length f' = length (sd_image d) - unat p * kBlockSize"
    if "mirrored d'" using that g l(3) by (simp add: mirrored_def)
  ultimately have "\<not> mirrored d'" using g(2) by linarith
  then show ?thesis using l g(3) by simp
qed

end
