(* ===== verification/Spec2Isabelle.thy ===== *)
theory Spec2Isabelle
  imports Via_6522 Via_Eclock Mac_Rtc Save_State Ncr_5380 Adb_Via Disk_Journal Scsi_Session Scsi_History
begin

text \<open>
  \<^bold>\<open>POM68K: a verification library for the device models of a 68k Macintosh emulator\<close>

  \<^bold>\<open>The program.\<close>  POM68K (\<^verbatim>\<open>src/src/\<close>) emulates 68k Macintoshes.  A machine is a CPU core, a memory
  map and a set of device models that the memory map calls on register accesses and on elapsed cycles.
  The devices modelled here and how they meet:

  \<^item> the VIA 6522 owns timers, a shift register and an interrupt flag register, and is clocked at the
    E clock, a tenth of the CPU clock;
  \<^item> the real-time clock chip hangs on three VIA port lines;
  \<^item> the ADB modem sits between the VIA's shift register and the Apple Desktop Bus: on one path a
    PIC1654S microcontroller runs Apple's firmware against the bit-level bus, on the other a byte machine
    talks to the command-level bus;
  \<^item> the NCR 5380 moves bytes between its registers and SCSI targets through the interface
    \<^verbatim>\<open>ScsiTarget\<close>; targets are the disk and CD-ROM of \<^verbatim>\<open>ScsiDisk\<close> and a media-free agent with a mailbox;
  \<^item> a disk records its history (\<^verbatim>\<open>DiskTimeline\<close>) so that a save state can carry what the guest wrote,
    and a reverse journal beside the image rewinds the file across processes;
  \<^item> every device saves itself through the archive of \<^verbatim>\<open>SaveState\<close>.

  \<^bold>\<open>Reading the model.\<close>  A class is a \<open>record\<close> whose fields carry a prefix (\<open>via_\<close>, \<open>rtc_\<close>, \<open>nc_\<close>,
  \<open>sd_\<close>, \<open>tl_\<close> ...), an enumeration a \<open>datatype\<close>, a method a function from the state to its result and the
  new state.  Registers are words of their width; \<^verbatim>\<open>int\<close> and 64-bit counters are HOL integers with ranges
  proved where they matter, and with the conversions \<open>i32\<close> and \<open>i64\<close> written out where the code narrows a
  value or a product can overflow; a pointer with a length is a list.  A virtual interface is a record of
  functions (\<open>scsi_ops\<close>) or a record of port functions (the PIC's owner).  Pointers between objects are
  addresses into a store where aliasing matters (the slots of the 5380).  What the host answers (file
  contents, outcomes of writes, firmware files) is an argument, or a list of outcomes consumed in order.
  Recursion is structural or has a termination measure; there is no fuel anywhere: \<^verbatim>\<open>Pic1654s::run\<close> and
  the other loops are total functions.

  \<^bold>\<open>Theories.\<close>

  \<^item> \<^verbatim>\<open>Pom_Prelude\<close>: type names, the C condition \<^verbatim>\<open>v & m\<close>, facts on words, division and buffers of
    blocks.  \<^verbatim>\<open>Timed_Device\<close>: the locale \<open>timed_device\<close>, the contract of a device that is told elapsed
    cycles and names its next event; its lemmas (batching, exact deadlines) hold for every instance.
  \<^item> \<^verbatim>\<open>Via_6522\<close> (\<^verbatim>\<open>Via6522.h\<close>, \<^verbatim>\<open>Via6522.cpp\<close>): an interpretation of \<open>timed_device\<close>; timer latencies,
    external shifting, the interrupt flags, the PMU line.  \<^verbatim>\<open>Via_Eclock\<close> (\<^verbatim>\<open>ViaEClock.h\<close>): the fractional
    clock divider does not drift, and where the stall grid does.
  \<^item> \<^verbatim>\<open>Mac_Rtc\<close> (\<^verbatim>\<open>Rtc.h\<close>, \<^verbatim>\<open>Rtc.cpp\<close>): the bit-serial protocol refines register access; write protection;
    the battery file.
  \<^item> \<^verbatim>\<open>Save_State\<close> (\<^verbatim>\<open>SaveState.h\<close>, \<^verbatim>\<open>SaveState.cpp\<close>): the archive as writers and readers over type
    descriptions; the locale \<open>reader_action\<close>; round trip, bounds, refusal of truncated input, chunks.
  \<^item> \<^verbatim>\<open>Adb_Bus\<close> (\<^verbatim>\<open>AdbBus\<close>), \<^verbatim>\<open>Adb_Line\<close> (\<^verbatim>\<open>AdbLine\<close>), \<^verbatim>\<open>Pic_1654s\<close> (\<^verbatim>\<open>Pic1654s\<close>, with the locale \<open>pic_owner\<close>
    for the port callbacks), \<^verbatim>\<open>Adb_Via\<close> (\<^verbatim>\<open>AdbVia\<close>, the composition): no input event is lost, waveforms are
    decoded and answered, the microcontroller stays inside its arrays and its flags are exact, the modem
    keeps the firmware in step with the CPU, and a Talk driven through the VIA delivers its bytes.
  \<^item> \<^verbatim>\<open>Scsi_Bus\<close> (\<^verbatim>\<open>ScsiTarget.h\<close>, \<^verbatim>\<open>ScsiAgentMailbox.h\<close>, \<^verbatim>\<open>ScsiAgentTarget.h\<close>), \<^verbatim>\<open>Ncr_5380\<close> (\<^verbatim>\<open>Ncr5380\<close>): the
    phase engine as a step relation with its invariant, whole read and write transactions over the registers
    for any target, hot plugging.
  \<^item> \<^verbatim>\<open>Disk_Timeline\<close>, \<^verbatim>\<open>Disk_Journal\<close> (\<^verbatim>\<open>DiskTimeline\<close>): the copy-on-first-write log, the digest, save and
    restore, and the journal file as bytes, with runs as inductive relations that include crashes.
  \<^item> \<^verbatim>\<open>Scsi_Medium\<close>, \<^verbatim>\<open>Scsi_Disk\<close> (\<^verbatim>\<open>ScsiDisk\<close>): the target's medium, mounting, CD audio and save state; its
    commands.  What a command may change (with the one command that escapes write protection), the sense
    protocol on every logical unit, the exact play rate.
  \<^item> \<^verbatim>\<open>Scsi_Session\<close>: the locale \<open>block_target\<close>, what a driver relies on, interpreted for the disk: through
    the controller's registers the disk is an array of blocks.  \<^verbatim>\<open>Scsi_History\<close>: the disk together with its
    history: the backing file mirrors the image and a saved state is restored from anywhere, for states of
    the disk's own geometry; a state with another prefix is shown to break the mirror.

  \<^bold>\<open>Bounds.\<close>  Images are lists of any length; block addresses are 32-bit words and the number of blocks is
  reduced modulo \<open>2 ^ 32\<close> where the code converts it.  Counters the code keeps in \<^verbatim>\<open>long\<close> are integers; the
  save-state round trip assumes that they fit 64 bits.  The clock arithmetic (E clock, transceiver, CD
  audio) carries its width; the bounds in its properties are those at which the code's own types give
  out, far above any machine's clock and slice, except for the E-clock grid, whose product overflows
  after days of machine time (lemma \<open>syncTarget_overflows\<close>).

  \<^bold>\<open>Not modelled.\<close>  The CPU cores are bindings of a vendored interpreter and a just-in-time compiler, whose
  meaning is not in these sources.  Memory maps and platform composers decode addresses for many devices
  outside the library.  Not yet modelled are the other microcontrollers (Cuda, Egret, power managers), the
  floppy controllers and image formats, the 53C96 and the ATA disk, the serial controller and the
  pseudo-VIA.  Video, sound, networking, the debugger, configuration and the graphical shell are host
  input and output.  Within the modelled components the trace and debug output is left out, and so are the
  cue-sheet parser and the floating-point de-emphasis filter of the CD, whose results are arguments.
\<close>

end
